(* ===== verification/Kernel_Prelude.thy ===== *)
theory Kernel_Prelude
  imports Main "HOL-Library.Word" "HOL-Library.While_Combinator"
begin

text \<open>
  Shared vocabulary of the development: the C integer types and kernel constants, the
  outcome of running kernel code (it returns, it faults, or it never returns), the small
  state monad in which the C functions are written, a loop combinator with rules for total
  correctness and for divergence, singly linked lists in a pointer heap, and a locale for
  invariants of step relations.
\<close>

unbundle bit_operations_syntax

section \<open>C integer types and kernel-wide constants\<close>

text \<open>The typedefs of \<^verbatim>\<open>include/sys/defs.h\<close>. A pointer is a 64-bit address; \<open>NULL\<close> is 0.\<close>

type_synonym u8 = "8 word"
type_synonym u16 = "16 word"
type_synonym u32 = "32 word"
type_synonym u64 = "64 word"
type_synonym ptr = "64 word"
type_synonym bytes = "8 word list"

abbreviation NULL :: ptr where
  "NULL \<equiv> 0"

definition KERNBASE :: u64 where
  "KERNBASE = 0xFFFFFFFF80000000"

definition PAGE_BLOCK_SIZE :: u64 where
  "PAGE_BLOCK_SIZE = 4096"

text \<open>A string literal of the source as the bytes it occupies, without the final NUL.\<close>

definition bytes_of :: "string \<Rightarrow> bytes" where
  "bytes_of s = map of_char s"

lemma scast_of_nat_small: "n < 2 ^ 31 \<Longrightarrow> scast (of_nat n :: u32) = (of_nat n :: u64)"
  by (simp add: signed_of_nat signed_take_bit_int_eq_self)

lemma ucast_of_nat_small: "n < 2 ^ 32 \<Longrightarrow> ucast (of_nat n :: u32) = (of_nat n :: u64)"
  by (simp add: unsigned_of_nat take_bit_nat_eq_self)

lemma sint_of_nat_small: "n < 2 ^ 31 \<Longrightarrow> sint (of_nat n :: u32) = int n"
  by (simp add: signed_of_nat signed_take_bit_int_eq_self)

lemma unat_add_of_nat: "unat (p :: u64) + i < 2 ^ 64 \<Longrightarrow> unat (p + of_nat i) = unat p + i"
  by (subst unat_add_lem [THEN iffD1]) (simp_all add: unat_of_nat take_bit_nat_eq_self)

lemma unat_of_nat_u64: "i < 2 ^ 64 \<Longrightarrow> unat (of_nat i :: u64) = i"
  by (simp add: unat_of_nat take_bit_nat_eq_self)

lemma unat_of_nat_u8: "i < 256 \<Longrightarrow> unat (of_nat i :: u8) = i"
  by (simp add: unat_of_nat take_bit_nat_eq_self)

lemma take_bit_self: "unat (x :: u64) < 2 ^ n \<Longrightarrow> take_bit n x = x"
  by (simp add: word_unat_eq_iff unsigned_take_bit_eq take_bit_nat_eq_self)

lemma all_less_numeral: "(\<forall>i<numeral n. P i) \<longleftrightarrow> P (pred_numeral n) \<and> (\<forall>i<pred_numeral n. P i)"
  by (simp add: numeral_eq_Suc All_less_Suc)

lemma split_at_last:
  "take (length xs) ((x # xs) @ ys) = butlast (x # xs)"
  "drop (length xs) ((x # xs) @ ys) = last (x # xs) # ys"
  by (induction xs arbitrary: x) auto

lemma unat_page_offset: "unat ((a :: u64) AND 0xFFF) = unat a mod 4096"
proof -
  have "a AND 0xFFF = take_bit 12 a" by (simp add: take_bit_eq_mask mask_eq_exp_minus_1)
  also have "unat (take_bit 12 a) = unat a mod 4096"
    by (simp add: take_bit_eq_mod unat_mod)
  finally show ?thesis .
qed

lemma page_aligned_iff: "(a :: u64) AND 0xFFF = 0 \<longleftrightarrow> 4096 dvd unat a"
  by (metis dvd_eq_mod_eq_0 unat_page_offset unat_eq_zero)

section \<open>Outcomes of kernel code\<close>

text \<open>
  \<open>Fault\<close> is the execution of an operation C leaves undefined (a dereference of the null
  pointer, an access outside an array, a missing variadic argument, a division by zero, a signed
  overflow, a read of a variable that was never set);
  \<open>Diverge\<close> is a call that never returns.
\<close>

datatype fault = NullDeref | OutOfBounds | MissingArgument | DivideError | SignedOverflow | Uninitialised

datatype 'a outcome = Ok 'a | Fault fault | Diverge

type_synonym ('s, 'a) kop = "'s \<Rightarrow> ('a \<times> 's) outcome"

named_theorems kop_defs "definitions of the kernel-operation combinators"
named_theorems frame "state components an operation leaves alone"

definition ret :: "'a \<Rightarrow> ('s, 'a) kop" where
  [kop_defs]: "ret x = (\<lambda>s. Ok (x, s))"

definition bnd :: "('s, 'a) kop \<Rightarrow> ('a \<Rightarrow> ('s, 'b) kop) \<Rightarrow> ('s, 'b) kop" where
  [kop_defs]: "bnd m f = (\<lambda>s. case m s of Ok (x, s') \<Rightarrow> f x s' | Fault e \<Rightarrow> Fault e | Diverge \<Rightarrow> Diverge)"

definition gets :: "('s \<Rightarrow> 'a) \<Rightarrow> ('s, 'a) kop" where
  [kop_defs]: "gets f = (\<lambda>s. Ok (f s, s))"

definition modify :: "('s \<Rightarrow> 's) \<Rightarrow> ('s, unit) kop" where
  [kop_defs]: "modify f = (\<lambda>s. Ok ((), f s))"

definition fail :: "fault \<Rightarrow> ('s, 'a) kop" where
  [kop_defs]: "fail e = (\<lambda>s. Fault e)"

text \<open>A state transformer that also yields a value, such as a call of a total C function.\<close>

definition call :: "('s \<Rightarrow> 'a \<times> 's) \<Rightarrow> ('s, 'a) kop" where
  [kop_defs]: "call f = (\<lambda>s. Ok (f s))"

text \<open>Dereferencing \<open>p\<close>: the pointer is checked first.\<close>

definition deref :: "ptr \<Rightarrow> ('s, 'a) kop \<Rightarrow> ('s, 'a) kop" where
  [kop_defs]: "deref p m = (\<lambda>s. if p = NULL then Fault NullDeref else m s)"

fun for_each :: "'a list \<Rightarrow> ('a \<Rightarrow> ('s, unit) kop) \<Rightarrow> ('s, unit) kop" where
  "for_each [] f = ret ()"
| "for_each (x # xs) f = bnd (f x) (\<lambda>_. for_each xs f)"

lemma bnd_apply: "bnd m f s = (case m s of Ok (x, s') \<Rightarrow> f x s' | Fault e \<Rightarrow> Fault e | Diverge \<Rightarrow> Diverge)"
  by (simp add: bnd_def)

lemma bnd_Ok: "m s = Ok (x, s') \<Longrightarrow> bnd m f s = f x s'"
  by (simp add: bnd_def)

lemma bnd_eq_Ok_iff:
  "bnd m f s = Ok r \<longleftrightarrow> (\<exists>x s'. m s = Ok (x, s') \<and> f x s' = Ok r)"
  by (auto simp: bnd_def split: outcome.splits)

lemma bnd_ret [simp]: "bnd (ret x) f = f x"
  by (simp add: kop_defs)

lemma bnd_gets [simp]: "bnd (gets g) f s = f (g s) s"
  by (simp add: kop_defs)

lemma bnd_modify [simp]: "bnd (modify h) f s = f () (h s)"
  by (simp add: kop_defs)

lemma bnd_fail [simp]: "bnd (fail e) f s = Fault e"
  by (simp add: kop_defs)

lemma bnd_call [simp]: "bnd (call c) f s = f (fst (c s)) (snd (c s))"
  by (simp add: kop_defs split: prod.splits)

lemma run_simps [simp]:
  "ret x s = Ok (x, s)"
  "gets g s = Ok (g s, s)"
  "modify h s = Ok ((), h s)"
  "fail e s = Fault e"
  "call c s = Ok (c s)"
  by (simp_all add: kop_defs)

lemma deref_NULL [simp]: "deref NULL m s = Fault NullDeref"
  by (simp add: deref_def)

lemma deref_nonnull [simp]: "p \<noteq> NULL \<Longrightarrow> deref p m s = m s"
  by (simp add: deref_def)

lemma bnd_deref [simp]:
  "bnd (deref p m) f s = (if p = NULL then Fault NullDeref else bnd m f s)"
  by (simp add: kop_defs)

lemma bnd_ret_right [simp]: "bnd m ret = m"
  by (auto simp: kop_defs fun_eq_iff split: outcome.splits)

lemma bnd_unit_right [simp]: "bnd m (\<lambda>_ s. Ok ((), s)) = m"
  by (auto simp: kop_defs fun_eq_iff split: outcome.splits)

lemma bnd_assoc [simp]: "bnd (bnd m f) g = bnd m (\<lambda>x. bnd (f x) g)"
  by (auto simp: bnd_def fun_eq_iff split: outcome.splits)

lemma bnd_if [simp]:
  "bnd (if b then m else m') f s = (if b then bnd m f s else bnd m' f s)"
  by simp

lemma for_each_append: "for_each (xs @ ys) f = bnd (for_each xs f) (\<lambda>_. for_each ys f)"
  by (induction xs) (simp_all only: append.simps for_each.simps bnd_ret bnd_assoc)

section \<open>Loops\<close>

text \<open>
  \<open>loopM body c\<close> is \<^verbatim>\<open>while (1)\<close> over the loop variables \<open>c\<close>: the body continues with new
  values (\<open>Inl\<close>), or leaves the loop with a result (\<open>Inr\<close>). A loop that never leaves is
  \<open>Diverge\<close>.
\<close>

definition loop_goes_on :: "(('c + 'r) \<times> 's) outcome \<Rightarrow> bool" where
  "loop_goes_on r = (case r of Ok (Inl _, _) \<Rightarrow> True | _ \<Rightarrow> False)"

definition loop_step :: "('c \<Rightarrow> ('s, 'c + 'r) kop) \<Rightarrow> (('c + 'r) \<times> 's) outcome \<Rightarrow> (('c + 'r) \<times> 's) outcome" where
  "loop_step body r = (case r of Ok (Inl c, s) \<Rightarrow> body c s | _ \<Rightarrow> r)"

definition loopM :: "('c \<Rightarrow> ('s, 'c + 'r) kop) \<Rightarrow> 'c \<Rightarrow> ('s, 'r) kop" where
  "loopM body c s =
     (case while_option loop_goes_on (loop_step body) (Ok (Inl c, s)) of
        None \<Rightarrow> Diverge
      | Some (Ok (Inr r, s')) \<Rightarrow> Ok (r, s')
      | Some (Ok (Inl _, _)) \<Rightarrow> Diverge
      | Some (Fault e) \<Rightarrow> Fault e
      | Some Diverge \<Rightarrow> Diverge)"

lemma loopM_unfold:
  "loopM body c s =
     (case body c s of
        Ok (Inl c', s') \<Rightarrow> loopM body c' s'
      | Ok (Inr r, s') \<Rightarrow> Ok (r, s')
      | Fault e \<Rightarrow> Fault e
      | Diverge \<Rightarrow> Diverge)"
proof -
  have start: "while_option loop_goes_on (loop_step body) (Ok (Inl c, s))
      = while_option loop_goes_on (loop_step body) (body c s)"
    by (subst while_option_unfold) (simp add: loop_goes_on_def loop_step_def)
  have stop: "while_option loop_goes_on (loop_step body) r = Some r" if "\<not> loop_goes_on r" for r
    using that by (subst while_option_unfold) simp
  show ?thesis
    unfolding loopM_def start
    by (auto simp: stop loop_goes_on_def split: outcome.split sum.split)
qed

lemma loopM_continue: "body c s = Ok (Inl c', s') \<Longrightarrow> loopM body c s = loopM body c' s'"
  by (subst loopM_unfold) simp

lemma loopM_exit: "body c s = Ok (Inr r, s') \<Longrightarrow> loopM body c s = Ok (r, s')"
  by (subst loopM_unfold) simp

lemma loopM_fault: "body c s = Fault e \<Longrightarrow> loopM body c s = Fault e"
  by (subst loopM_unfold) simp

text \<open>Total correctness: a variant that every further round decreases.\<close>

lemma loopM_total:
  fixes m :: "'c \<Rightarrow> 's \<Rightarrow> nat"
  assumes "I c s"
    and "\<And>c s. I c s \<Longrightarrow>
           (\<exists>c' s'. body c s = Ok (Inl c', s') \<and> I c' s' \<and> m c' s' < m c s)
         \<or> (\<exists>r s'. body c s = Ok (Inr r, s') \<and> Q r s')"
  shows "\<exists>r s'. loopM body c s = Ok (r, s') \<and> Q r s'"
  using assms(1)
proof (induction "m c s" arbitrary: c s rule: less_induct)
  case less
  from assms(2) [OF less.prems] show ?case
  proof (elim disjE exE conjE)
    fix c' s' assume step: "body c s = Ok (Inl c', s')" and "I c' s'" and "m c' s' < m c s"
    then show ?thesis
      using less.hyps [of c' s'] loopM_continue [of body c s c' s'] by simp
  next
    fix r s' assume "body c s = Ok (Inr r, s')" and "Q r s'"
    then show ?thesis by (auto simp: loopM_exit)
  qed
qed

lemma find_map: "find P (map g xs) = map_option g (find (\<lambda>x. P (g x)) xs)"
  by (induction xs) auto

lemma find_by_index: "find P xs = map_option ((!) xs) (find (\<lambda>i. P (xs ! i)) [0..<length xs])"
  using find_map [of P "(!) xs" "[0..<length xs]"] by (simp add: map_nth)

text \<open>A search by index that changes nothing: the first index that satisfies \<open>P\<close> decides the result.\<close>

lemma loopM_scan_from:
  assumes "\<And>i. i < n \<Longrightarrow> body i s = Ok (if P i then Inr (f i) else Inl (Suc i), s)"
    and "body n s = Ok (Inr z, s)" and "k \<le> n"
  shows "loopM body k s = Ok (case find P [k..<n] of None \<Rightarrow> z | Some i \<Rightarrow> f i, s)"
  using assms(3)
proof (induction "n - k" arbitrary: k)
  case 0
  then have "k = n" by simp
  with assms(2) show ?case by (simp add: loopM_exit)
next
  case (Suc m)
  then have k: "k < n" by simp
  then have u: "[k..<n] = k # [Suc k..<n]" by (rule upt_conv_Cons)
  have IH: "loopM body (Suc k) s = Ok (case find P [Suc k..<n] of None \<Rightarrow> z | Some i \<Rightarrow> f i, s)"
    using Suc k by (intro Suc.hyps) simp_all
  show ?case
    unfolding u using assms(1) [OF k] IH by (cases "P k") (simp_all add: loopM_exit loopM_continue)
qed

lemmas loopM_scan = loopM_scan_from [where k = 0, OF _ _ le0]

text \<open>Divergence: an invariant under which every round continues.\<close>

lemma loopM_diverges:
  assumes "I c s"
    and "\<And>c s. I c s \<Longrightarrow> \<exists>c' s'. body c s = Ok (Inl c', s') \<and> I c' s'"
  shows "loopM body c s = Diverge"
proof -
  let ?P = "\<lambda>r. \<exists>c s. r = Ok (Inl c, s) \<and> I c s"
  have "while_option loop_goes_on (loop_step body) (Ok (Inl c, s)) = None"
  proof (rule ccontr)
    assume "while_option loop_goes_on (loop_step body) (Ok (Inl c, s)) \<noteq> None"
    then obtain r where r: "while_option loop_goes_on (loop_step body) (Ok (Inl c, s)) = Some r"
      by auto
    have "?P r"
      by (rule while_option_rule [where P = ?P, OF _ r])
        (use assms in \<open>fastforce simp: loop_step_def\<close>)+
    moreover have "\<not> loop_goes_on r"
      using r by (rule while_option_stop)
    ultimately show False by (auto simp: loop_goes_on_def)
  qed
  then show ?thesis by (simp add: loopM_def)
qed

section \<open>Linked lists in a pointer heap\<close>

text \<open>
  \<open>lseg nx p as q\<close>: following the field \<open>nx\<close> from \<open>p\<close> visits the nodes \<open>as\<close> and arrives at
  \<open>q\<close>. A null-terminated list is \<open>lseg nx p as NULL\<close>.
\<close>

fun lseg :: "(ptr \<Rightarrow> ptr) \<Rightarrow> ptr \<Rightarrow> ptr list \<Rightarrow> ptr \<Rightarrow> bool" where
  "lseg nx p [] q \<longleftrightarrow> p = q"
| "lseg nx p (a # as) q \<longleftrightarrow> p = a \<and> a \<noteq> NULL \<and> lseg nx (nx a) as q"

abbreviation llist :: "(ptr \<Rightarrow> ptr) \<Rightarrow> ptr \<Rightarrow> ptr list \<Rightarrow> bool" where
  "llist nx p as \<equiv> lseg nx p as NULL"

lemma lseg_append: "lseg nx p (as @ bs) q \<longleftrightarrow> (\<exists>r. lseg nx p as r \<and> lseg nx r bs q)"
  by (induction as arbitrary: p) auto

lemma lseg_cong: "(\<And>a. a \<in> set as \<Longrightarrow> nx a = nx' a) \<Longrightarrow> lseg nx p as q = lseg nx' p as q"
  by (induction as arbitrary: p) auto

lemma lseg_upd [simp]: "a \<notin> set as \<Longrightarrow> lseg (nx(a := v)) p as q = lseg nx p as q"
  by (rule lseg_cong) auto

lemma llist_NULL [simp]: "llist nx NULL as \<longleftrightarrow> as = []"
  by (cases as) auto

lemma llist_nonNULL: "p \<noteq> NULL \<Longrightarrow> llist nx p as \<longleftrightarrow> (\<exists>bs. as = p # bs \<and> llist nx (nx p) bs)"
  by (cases as) auto

lemma llist_unique: "llist nx p as \<Longrightarrow> llist nx p bs \<Longrightarrow> as = bs"
proof (induction as arbitrary: p bs)
  case Nil
  then show ?case by simp
next
  case (Cons a as)
  then obtain bs' where "bs = a # bs'" "llist nx (nx a) bs'" by (cases bs) auto
  with Cons show ?case by auto
qed

lemma llist_tail_fresh: "llist nx (nx a) as \<Longrightarrow> a \<notin> set as"
proof
  assume l: "llist nx (nx a) as" and "a \<in> set as"
  then obtain xs ys where as: "as = xs @ a # ys" by (auto simp: in_set_conv_decomp)
  with l have "llist nx (nx a) ys" by (auto simp: lseg_append)
  with l have "as = ys" by (rule llist_unique)
  with as show False by simp
qed

lemma llist_distinct: "llist nx p as \<Longrightarrow> distinct as"
  by (induction as arbitrary: p) (auto dest: llist_tail_fresh)

lemma lseg_nonNULL: "lseg nx p as q \<Longrightarrow> a \<in> set as \<Longrightarrow> a \<noteq> NULL"
  by (induction as arbitrary: p) auto

lemma llist_head_iff: "llist nx p as \<Longrightarrow> p = NULL \<longleftrightarrow> as = []"
  by (cases as) auto

text \<open>Linking a node in at the end, and unlinking the successor of a node.\<close>

lemma llist_snoc:
  assumes "llist nx p (as @ [l])" and "c \<notin> set (as @ [l])" and "c \<noteq> NULL"
  shows "llist (nx(l := c, c := NULL)) p (as @ [l, c])"
proof -
  from assms(1) have "distinct (as @ [l])" by (rule llist_distinct)
  with assms show ?thesis by (auto simp: lseg_append)
qed

lemma llist_unlink:
  assumes "llist nx p (as @ a # b # bs)"
  shows "llist (nx(a := nx b)) p (as @ a # bs)"
proof -
  from assms have "distinct (as @ a # b # bs)" by (rule llist_distinct)
  with assms show ?thesis by (auto simp: lseg_append)
qed

text \<open>A search along a list that changes nothing: the first node that satisfies \<open>P\<close> decides the result.\<close>

lemma loopM_list_scan:
  assumes "llist nx p vs"
    and "\<And>v. v \<in> set vs \<Longrightarrow> body v s = Ok (if P v then Inr (f v) else Inl (nx v), s)"
    and "body NULL s = Ok (Inr z, s)"
  shows "loopM body p s = Ok (case find P vs of None \<Rightarrow> z | Some v \<Rightarrow> f v, s)"
  using assms(1,2)
proof (induction vs arbitrary: p)
  case Nil
  with assms(3) show ?case by (simp add: loopM_exit)
next
  case (Cons v vs)
  then have "loopM body (nx v) s = Ok (case find P vs of None \<Rightarrow> z | Some v \<Rightarrow> f v, s)" by simp
  with Cons.prems show ?case by (cases "P v") (auto simp: loopM_exit loopM_continue)
qed

section \<open>Invariants of step relations\<close>

locale step_invariant =
  fixes init :: "'s \<Rightarrow> bool"
    and step :: "'s \<Rightarrow> 's \<Rightarrow> bool"
    and inv :: "'s \<Rightarrow> bool"
  assumes inv_init: "init s \<Longrightarrow> inv s"
    and inv_step: "inv s \<Longrightarrow> step s t \<Longrightarrow> inv t"
begin

lemma inv_reachable: "init s \<Longrightarrow> step\<^sup>*\<^sup>* s t \<Longrightarrow> inv t"
  by (erule rtranclp_induct) (auto intro: inv_init inv_step)

lemma inv_run: "inv s \<Longrightarrow> step\<^sup>*\<^sup>* s t \<Longrightarrow> inv t"
  by (erule rtranclp_induct) (auto intro: inv_step)

end

end
