(* ===== verification/Kprintf.thy ===== *)
theory Kprintf
  imports Kernel_Prelude
begin

text \<open>
  The kernel console, \<^verbatim>\<open>sys/kprintf.c\<close>: the cursor, the video memory, and the formatted
  printing every other part of the kernel calls. The record \<open>console\<close> is the first layer of
  the kernel state; later components extend it.
\<close>

section \<open>State\<close>

text \<open>
  \<open>x_pos\<close> and \<open>y_pos\<close> are the globals \<^verbatim>\<open>x\<close> and \<^verbatim>\<open>y\<close>. \<open>vga\<close> is the memory \<open>vgamemory\<close> points to, by
  the 32-bit index the code computes; \<open>is_paging\<close> is the global of \<^verbatim>\<open>sys/virt_mmgr.c\<close> that
  \<open>kputchar\<close> tests.
\<close>

record console =
  x_pos :: u32
  y_pos :: u32
  vgamemory :: u64
  vga :: "u32 \<Rightarrow> u16"
  color :: u32
  is_paging :: u32

text \<open>The initial values of the globals.\<close>

definition boot_console :: console where
  "boot_console = \<lparr>x_pos = 0, y_pos = 0, vgamemory = 0, vga = (\<lambda>_. 0), color = 0x0A, is_paging = 0\<rparr>"

abbreviation ch :: "char \<Rightarrow> u8" where
  "ch c \<equiv> of_char c"

section \<open>Operations\<close>

definition set_x :: "u32 \<Rightarrow> 'z console_scheme \<Rightarrow> 'z console_scheme" where
  "set_x v s = s\<lparr>x_pos := v\<rparr>"

definition set_y :: "u32 \<Rightarrow> 'z console_scheme \<Rightarrow> 'z console_scheme" where
  "set_y v s = s\<lparr>y_pos := v\<rparr>"

definition get_x :: "'z console_scheme \<Rightarrow> u32" where
  "get_x s = x_pos s"

definition get_y :: "'z console_scheme \<Rightarrow> u32" where
  "get_y s = y_pos s"

text \<open>\<^verbatim>\<open>char\<close> is signed, so a byte from 128 up compares below \<^verbatim>\<open>' '\<close> and prints nothing.\<close>

definition put_cell :: "u8 \<Rightarrow> 'z console_scheme \<Rightarrow> 'z console_scheme" where
  "put_cell c s =
     s\<lparr>vga := (vga s)(y_pos s * 80 + x_pos s := ucast c OR ucast (push_bit 8 (color s))),
       x_pos := x_pos s + 1\<rparr>"

definition wrap_line :: "'z console_scheme \<Rightarrow> 'z console_scheme" where
  "wrap_line s = (if 80 \<le> x_pos s then s\<lparr>x_pos := 0, y_pos := y_pos s + 1\<rparr> else s)"

definition kputchar :: "u8 \<Rightarrow> 'z console_scheme \<Rightarrow> 'z console_scheme" where
  "kputchar c s =
     (let s1 = s\<lparr>vgamemory := (if is_paging s = 0 then 0xB8000 else KERNBASE + 0xB8000)\<rparr>;
          s2 = (if 32 \<le> sint c then put_cell c s1
                else if c = 13 then s1\<lparr>x_pos := 0\<rparr>
                else if c = 10 then s1\<lparr>x_pos := 0, y_pos := y_pos s1 + 1\<rparr>
                else s1)
      in wrap_line s2)"

text \<open>A C string is represented by its bytes before the terminating NUL.\<close>

primrec kputs :: "bytes \<Rightarrow> 'z console_scheme \<Rightarrow> 'z console_scheme" where
  "kputs [] s = s"
| "kputs (c # cs) s = kputs cs (kputchar c s)"

subsection \<open>Numbers\<close>

text \<open>
  Digits are stored backwards into a local array from its last-but-one cell down; \<open>cap\<close> is
  the number of cells before the NUL the code stores in the last one, and \<open>ds\<close> the digits
  stored so far. Storing one digit more than \<open>cap\<close> writes below the array.
\<close>

definition digit_char :: "string \<Rightarrow> nat \<Rightarrow> u8 outcome" where
  "digit_char available k =
     (if k < length available then Ok (ch (available ! k))
      else if k = length available then Ok 0
      else Fault OutOfBounds)"

function digit_loop :: "nat \<Rightarrow> string \<Rightarrow> u32 \<Rightarrow> u32 \<Rightarrow> bytes \<Rightarrow> bytes outcome" where
  "digit_loop cap available base r ds =
     (if r = 0 then Ok ds
      else if cap \<le> length ds then Fault OutOfBounds
      else if base = 0 then Fault DivideError
      else case digit_char available (unat (r mod base)) of
             Ok d \<Rightarrow> digit_loop cap available base (r div base) (d # ds)
           | Fault e \<Rightarrow> Fault e
           | Diverge \<Rightarrow> Diverge)"
  by pat_completeness auto
termination
  by (relation "measure (\<lambda>(cap, _, _, _, ds). cap - length ds)") auto

declare digit_loop.simps [simp del]

definition number_digits :: "nat \<Rightarrow> string \<Rightarrow> u32 \<Rightarrow> u32 \<Rightarrow> bytes outcome" where
  "number_digits cap available base i =
     (case digit_loop cap available base i (if i = 0 then [ch (available ! 0)] else []) of
        Ok ds \<Rightarrow> Ok (takeWhile (\<lambda>d. d \<noteq> 0) ds)
      | Fault e \<Rightarrow> Fault e
      | Diverge \<Rightarrow> Diverge)"

text \<open>\<open>convert_to_base\<close> has a local array of 128 bytes; \<open>itoa\<close> has one of 6.\<close>

definition convert_to_base :: "u32 \<Rightarrow> u32 \<Rightarrow> bytes outcome" where
  "convert_to_base i base = number_digits 127 ''0123456789ABCDEF'' base i"

definition itoa_chars :: "u32 \<Rightarrow> bytes outcome" where
  "itoa_chars i = number_digits 5 ''0123456789'' 10 i"

subsection \<open>Formatted printing\<close>

text \<open>The variadic arguments, in order; \<open>va_arg\<close> on the wrong or a missing one is undefined.\<close>

datatype va = VInt u32 | VStr bytes

definition print_number :: "u32 \<Rightarrow> u32 \<Rightarrow> ('z console_scheme, unit) kop" where
  "print_number i base =
     (\<lambda>s. case convert_to_base i base of
            Ok ds \<Rightarrow> Ok ((), kputs ds s)
          | Fault e \<Rightarrow> Fault e
          | Diverge \<Rightarrow> Diverge)"

fun kprintf_directive :: "u8 \<Rightarrow> va list \<Rightarrow> ('z console_scheme, va list) kop" where
  "kprintf_directive d args =
     (if d = ch CHR ''d'' then
        (case args of
           VInt i # rest \<Rightarrow>
             (if sint i < 0
              then bnd (modify (kputchar (ch CHR ''-''))) (\<lambda>_. bnd (print_number (- i) 10) (\<lambda>_. ret rest))
              else bnd (print_number i 10) (\<lambda>_. ret rest))
         | _ \<Rightarrow> fail MissingArgument)
      else if d = ch CHR ''c'' then
        (case args of
           VInt i # rest \<Rightarrow> bnd (modify (kputchar (ucast i))) (\<lambda>_. ret rest)
         | _ \<Rightarrow> fail MissingArgument)
      else if d = ch CHR ''x'' \<or> d = ch CHR ''p'' then
        (case args of
           VInt i # rest \<Rightarrow> bnd (print_number i 16) (\<lambda>_. ret rest)
         | _ \<Rightarrow> fail MissingArgument)
      else if d = ch CHR ''s'' then
        (case args of
           VStr str # rest \<Rightarrow> bnd (modify (kputs str)) (\<lambda>_. ret rest)
         | _ \<Rightarrow> fail MissingArgument)
      else if d = ch CHR ''o'' then
        (case args of
           VInt i # rest \<Rightarrow> bnd (print_number i 8) (\<lambda>_. ret rest)
         | _ \<Rightarrow> fail MissingArgument)
      else ret args)"

declare kprintf_directive.simps [simp del]

fun kprintf_bytes :: "bytes \<Rightarrow> va list \<Rightarrow> ('z console_scheme, unit) kop" where
  "kprintf_bytes [] args = ret ()"
| "kprintf_bytes [c] args = (if c \<noteq> ch CHR ''%'' then modify (kputchar c) else ret ())"
| "kprintf_bytes (c # d # str) args =
     (if c \<noteq> ch CHR ''%'' then bnd (modify (kputchar c)) (\<lambda>_. kprintf_bytes (d # str) args)
      else bnd (kprintf_directive d args) (kprintf_bytes str))"

definition kprintf :: "string \<Rightarrow> va list \<Rightarrow> ('z console_scheme, unit) kop" where
  "kprintf fmt args = kprintf_bytes (bytes_of fmt) args"

text \<open>The message a handler prints: a format without directives.\<close>

definition kmsg :: "string \<Rightarrow> 'z console_scheme \<Rightarrow> 'z console_scheme" where
  "kmsg m = kputs (bytes_of m)"

section \<open>Lemmas\<close>

lemma kputchar_frame [frame, simp]:
  "is_paging (kputchar c s) = is_paging s"
  "color (kputchar c s) = color s"
  "console.more (kputchar c s) = console.more s"
  by (simp_all add: kputchar_def put_cell_def wrap_line_def Let_def)

lemma kputs_frame [frame, simp]:
  "is_paging (kputs cs s) = is_paging s"
  "color (kputs cs s) = color s"
  "console.more (kputs cs s) = console.more s"
  by (induction cs arbitrary: s) simp_all

lemma kmsg_frame [frame, simp]:
  "is_paging (kmsg m s) = is_paging s"
  "color (kmsg m s) = color s"
  "console.more (kmsg m s) = console.more s"
  by (simp_all add: kmsg_def)

lemma print_number_frame: "print_number i b s = Ok (r, t) \<Longrightarrow> console.more t = console.more s"
  by (auto simp: print_number_def split: outcome.splits)

lemma kprintf_directive_frame:
  "kprintf_directive d args s = Ok (r, t) \<Longrightarrow> console.more t = console.more s"
  by (auto simp: kprintf_directive.simps bnd_eq_Ok_iff dest: print_number_frame
      split: if_splits list.splits va.splits)

lemma kprintf_bytes_frame: "kprintf_bytes cs args s = Ok (r, t) \<Longrightarrow> console.more t = console.more s"
proof (induction cs args arbitrary: s rule: kprintf_bytes.induct)
  case (3 c d str args)
  then show ?case by (auto simp: bnd_eq_Ok_iff dest: kprintf_directive_frame split: if_splits)
qed (auto split: if_splits)

lemma kprintf_frame: "kprintf fmt args s = Ok (r, t) \<Longrightarrow> console.more t = console.more s"
  unfolding kprintf_def by (rule kprintf_bytes_frame)

lemma kprintf_bytes_literal:
  "ch CHR ''%'' \<notin> set cs \<Longrightarrow> kprintf_bytes cs args s = Ok ((), kputs cs s)"
proof (induction cs args arbitrary: s rule: kprintf_bytes.induct)
  case (3 c d str args)
  then show ?case by (auto simp: bnd_apply)
qed auto

lemma ch_eq_iff: "ch c = ch d \<longleftrightarrow> c = d"
proof
  assume "ch c = ch d"
  then have "uint (ch c) = uint (ch d)" by simp
  moreover have "uint (of_char e :: u8) = of_char e" for e
    by (cases e) (simp add: take_bit_int_eq_self)
  ultimately have "(of_char c :: int) = of_char d" by simp
  then show "c = d" by (simp add: of_char_eq_iff)
qed simp

lemma kprintf_literal [simp]:
  "CHR ''%'' \<notin> set m \<Longrightarrow> kprintf m args s = Ok ((), kmsg m s)"
  unfolding kprintf_def kmsg_def
  by (rule kprintf_bytes_literal) (auto simp: bytes_of_def ch_eq_iff simp del: of_char_Char)


subsection \<open>The cursor stays on its line\<close>

lemma kputchar_x_pos: "x_pos s < 80 \<Longrightarrow> x_pos (kputchar c s) < 80"
  by (auto simp: kputchar_def put_cell_def wrap_line_def Let_def not_le)

lemma kputs_x_pos: "x_pos s < 80 \<Longrightarrow> x_pos (kputs cs s) < 80"
  by (induction cs arbitrary: s) (simp_all add: kputchar_x_pos)

lemma print_number_x_pos:
  "print_number i base s = Ok (r, t) \<Longrightarrow> x_pos s < 80 \<Longrightarrow> x_pos t < 80"
  by (auto simp: print_number_def kputs_x_pos split: outcome.splits)

lemma kprintf_directive_x_pos:
  "kprintf_directive d args s = Ok (rest, t) \<Longrightarrow> x_pos s < 80 \<Longrightarrow> x_pos t < 80"
  by (auto simp: kprintf_directive.simps bnd_eq_Ok_iff kputchar_x_pos kputs_x_pos
      split: if_splits list.splits va.splits elim!: print_number_x_pos)

lemma kprintf_bytes_x_pos:
  "kprintf_bytes cs args s = Ok (r, t) \<Longrightarrow> x_pos s < 80 \<Longrightarrow> x_pos t < 80"
proof (induction cs args arbitrary: s rule: kprintf_bytes.induct)
  case (3 c d str args)
  show ?case
  proof (cases "c = ch CHR ''%''")
    case True
    with 3 show ?thesis
      by (auto simp: bnd_eq_Ok_iff dest: kprintf_directive_x_pos simp del: of_char_Char)
  next
    case False
    with 3 show ?thesis by (auto simp: kputchar_x_pos simp del: of_char_Char)
  qed
qed (auto simp: kputchar_x_pos split: if_splits)

text \<open>
  whatever \<open>kprintf\<close> prints, with any format and any arguments, the column it leaves
  behind is a column of the 80-column screen if the one it started from was.
\<close>

theorem kprintf_column_in_range:
  assumes "x_pos s < 80" and "kprintf fmt args s = Ok (r, t)"
  shows "x_pos t < 80"
  using assms by (simp add: kprintf_def kprintf_bytes_x_pos)

theorem kprintf_column_in_range_witness:
  "\<exists>t. kprintf ''bleh%c'' [VInt 10] boot_console = Ok ((), t) \<and> x_pos t < 80"
proof -
  obtain t where t: "kprintf ''bleh%c'' [VInt 10] boot_console = Ok ((), t)"
    by (simp add: kprintf_def bytes_of_def kprintf_directive.simps)
  have "x_pos boot_console < 80" by (simp add: boot_console_def)
  from this t have "x_pos t < 80" by (rule kprintf_column_in_range)
  with t show ?thesis by blast
qed

subsection \<open>Number conversion\<close>

text \<open>Reading a digit string back.\<close>

definition digit_index :: "string \<Rightarrow> u8 \<Rightarrow> nat" where
  "digit_index available d = length (takeWhile (\<lambda>c. ch c \<noteq> d) available)"

definition number_value :: "string \<Rightarrow> nat \<Rightarrow> bytes \<Rightarrow> nat" where
  "number_value available base ds = foldl (\<lambda>v d. v * base + digit_index available d) 0 ds"

lemma digit_index_nth:
  "distinct available \<Longrightarrow> k < length available \<Longrightarrow> digit_index available (ch (available ! k)) = k"
proof (induction available arbitrary: k)
  case Nil
  then show ?case by simp
next
  case (Cons c cs)
  then show ?case
    by (cases k) (auto simp: digit_index_def ch_eq_iff simp del: of_char_Char)
qed

lemma number_value_snoc:
  "number_value available base (ds @ [d]) = number_value available base ds * base + digit_index available d"
  by (simp add: number_value_def)

text \<open>The loop stores the digits of \<open>r\<close> in front of what is stored already.\<close>

lemma digit_loop_digits:
  assumes "distinct available" and "ch CHR 0x00 \<notin> ch ` set available"
    and "2 \<le> unat base" and "unat base \<le> length available"
  shows "unat r < unat base ^ k \<Longrightarrow> length ds + k \<le> cap \<Longrightarrow>
    \<exists>ds'. digit_loop cap available base r ds = Ok (ds' @ ds) \<and> length ds' \<le> k \<and>
          0 \<notin> set ds' \<and> (r \<noteq> 0 \<longrightarrow> ds' \<noteq> []) \<and> number_value available (unat base) ds' = unat r"
proof (induction k arbitrary: r ds)
  case 0
  then have "r = 0" by (simp add: unat_eq_zero)
  then show ?case
    by (subst digit_loop.simps) (auto simp: number_value_def intro!: exI [of _ "[]"])
next
  case (Suc k)
  show ?case
  proof (cases "r = 0")
    case True
    then show ?thesis
      by (subst digit_loop.simps) (auto simp: number_value_def intro!: exI [of _ "[]"])
  next
    case False
    let ?m = "unat (r mod base)" and ?d = "ch (available ! unat (r mod base))"
    have base0: "base \<noteq> 0" using assms(3) by auto
    have m: "?m < unat base" using assms(3) by (simp add: unat_mod)
    with assms(4) have ml: "?m < length available" by simp
    have "unat (r div base) < unat base ^ k"
      using Suc.prems(1) assms(3) by (simp add: unat_div less_mult_imp_div_less mult.commute)
    then obtain ds' where ds':
      "digit_loop cap available base (r div base) (?d # ds) = Ok (ds' @ ?d # ds)"
      "length ds' \<le> k" "0 \<notin> set ds'" "number_value available (unat base) ds' = unat (r div base)"
      using Suc.IH [of "r div base" "?d # ds"] Suc.prems(2) by auto
    have "digit_loop cap available base r ds = Ok ((ds' @ [?d]) @ ds)"
      using False Suc.prems(2) base0 ml ds'(1)
      by (subst digit_loop.simps) (simp add: digit_char_def)
    moreover have "0 \<notin> set (ds' @ [?d])"
      using ds'(3) assms(2) ml by (auto simp: image_iff)
    moreover have "number_value available (unat base) (ds' @ [?d]) = unat r"
      using ds'(4) assms(1) ml by (simp add: number_value_snoc digit_index_nth unat_div unat_mod)
    ultimately show ?thesis using ds'(2) by (intro exI [of _ "ds' @ [?d]"]) simp
  qed
qed

text \<open>With no room left for the digits of \<open>r\<close>, the loop runs below its array.\<close>

lemma digit_loop_overflow:
  assumes "2 \<le> unat base" and "unat base \<le> length available"
  shows "unat base ^ (cap - length ds) \<le> unat r \<Longrightarrow>
    digit_loop cap available base r ds = Fault OutOfBounds"
proof (induction "cap - length ds" arbitrary: r ds)
  case 0
  then have "r \<noteq> 0" by auto
  with 0 show ?case by (subst digit_loop.simps) simp
next
  case (Suc k)
  let ?d = "ch (available ! unat (r mod base))"
  have r0: "r \<noteq> 0" using Suc.prems assms(1) by auto
  have base0: "base \<noteq> 0" using assms(1) by auto
  have "unat (r mod base) < unat base" using assms(1) by (simp add: unat_mod)
  with assms(2) have ml: "unat (r mod base) < length available" by simp
  have k: "k = cap - length (?d # ds)" using Suc.hyps(2) by simp
  have "unat base ^ k * unat base \<le> unat r"
    using Suc.prems Suc.hyps(2) [symmetric] by (simp add: mult.commute)
  then have "unat base ^ k \<le> unat r div unat base"
    using assms(1) by (simp add: less_eq_div_iff_mult_less_eq)
  then have "unat base ^ (cap - length (?d # ds)) \<le> unat (r div base)"
    by (simp only: unat_div k [symmetric])
  then have "digit_loop cap available base (r div base) (?d # ds) = Fault OutOfBounds"
    by (rule Suc.hyps(1) [OF k])
  moreover have "\<not> cap \<le> length ds" using Suc.hyps(2) by simp
  ultimately show ?case
    using r0 base0 ml by (subst digit_loop.simps) (simp add: digit_char_def)
qed

lemma number_digits_Ok:
  assumes "distinct available" and "ch CHR 0x00 \<notin> ch ` set available"
    and "2 \<le> unat base" and "unat base \<le> length available"
    and "unat i < unat base ^ k" and "1 \<le> k" and "k \<le> cap"
  shows "\<exists>ds. number_digits cap available base i = Ok ds \<and> 1 \<le> length ds \<and> length ds \<le> k \<and>
    number_value available (unat base) ds = unat i"
proof (cases "i = 0")
  case True
  have "0 < length available" using assms(3,4) by linarith
  then have "ch (available ! 0) \<noteq> 0" and "digit_index available (ch (available ! 0)) = 0"
    using assms(1,2) digit_index_nth [of available 0] by (auto simp: image_iff)
  with True assms(6) show ?thesis
    by (simp add: number_digits_def digit_loop.simps number_value_def)
next
  case False
  from assms obtain ds where ds: "digit_loop cap available base i [] = Ok (ds @ [])" "length ds \<le> k"
      "0 \<notin> set ds" "i \<noteq> 0 \<longrightarrow> ds \<noteq> []" "number_value available (unat base) ds = unat i"
    using digit_loop_digits [of available base i k "[]" cap] by auto
  have "takeWhile (\<lambda>d. d \<noteq> 0) ds = ds"
    using ds(3) by (auto simp: takeWhile_eq_all_conv)
  then have "number_digits cap available base i = Ok ds"
    using False ds(1) by (simp add: number_digits_def)
  with False ds(2,4,5) show ?thesis
    by (simp add: Suc_le_eq)
qed

lemma hex_digits: "distinct ''0123456789ABCDEF''" "ch CHR 0x00 \<notin> ch ` set ''0123456789ABCDEF''"
  by simp_all

lemma dec_digits: "distinct ''0123456789''" "ch CHR 0x00 \<notin> ch ` set ''0123456789''"
  by simp_all

text \<open>
  C39: \<open>convert_to_base\<close> never leaves its 128-byte local array for the bases 2 to 16, and the
  digits it produces, at most 32, read back in that base as the number converted.
\<close>

theorem convert_to_base_roundtrip:
  assumes "2 \<le> base" and "base \<le> 16"
  shows "\<exists>ds. convert_to_base i base = Ok ds \<and> 1 \<le> length ds \<and> length ds \<le> 32 \<and>
    number_value ''0123456789ABCDEF'' (unat base) ds = unat i"
proof -
  have b: "2 \<le> unat base" "unat base \<le> 16"
    using assms by (simp_all add: word_le_nat_alt)
  have "unat i < 2 ^ 32" using unsigned_less [of i] by simp
  also have "\<dots> \<le> unat base ^ 32" using b(1) by (rule power_mono) simp
  finally show ?thesis
    unfolding convert_to_base_def using b by (intro number_digits_Ok hex_digits) simp_all
qed

theorem convert_to_base_roundtrip_witness:
  "\<exists>ds. convert_to_base 0xBEEF 16 = Ok ds \<and> 1 \<le> length ds \<and> length ds \<le> 32 \<and>
    number_value ''0123456789ABCDEF'' (unat (16 :: u32)) ds = unat (0xBEEF :: u32)"
  by (rule convert_to_base_roundtrip) simp_all

text \<open>
  C40: \<open>itoa\<close> converts exactly the numbers below 100000; from there on it writes below its
  6-byte local array.
\<close>

theorem itoa_chars_range:
  "if unat i < 100000
   then \<exists>ds. itoa_chars i = Ok ds \<and> length ds \<le> 5 \<and> number_value ''0123456789'' 10 ds = unat i
   else itoa_chars i = Fault OutOfBounds"
proof (cases "unat i < 100000")
  case True
  then have "unat i < unat (10 :: u32) ^ 5" by simp
  then have "\<exists>ds. number_digits 5 ''0123456789'' 10 i = Ok ds \<and> 1 \<le> length ds \<and> length ds \<le> 5 \<and>
      number_value ''0123456789'' (unat (10 :: u32)) ds = unat i"
    by (intro number_digits_Ok dec_digits) simp_all
  with True show ?thesis by (auto simp: itoa_chars_def)
next
  case False
  then have "unat (10 :: u32) ^ (5 - length ([] :: bytes)) \<le> unat i" by simp
  then have "digit_loop 5 ''0123456789'' 10 i [] = Fault OutOfBounds"
    by (rule digit_loop_overflow [rotated 2]) simp_all
  moreover have "i \<noteq> 0" using False by auto
  ultimately show ?thesis using False by (simp add: itoa_chars_def number_digits_def)
qed

subsection \<open>What ends up on the screen\<close>

definition printable :: "u8 \<Rightarrow> bool" where
  "printable c \<longleftrightarrow> 32 \<le> sint c"

definition cell :: "u8 \<Rightarrow> u32 \<Rightarrow> u16" where
  "cell c col = ucast c OR ucast (push_bit 8 col)"

lemma kputchar_printable:
  assumes "printable c" and "x_pos s < 79"
  shows "x_pos (kputchar c s) = x_pos s + 1" "y_pos (kputchar c s) = y_pos s"
    "vga (kputchar c s) = (vga s)(y_pos s * 80 + x_pos s := cell c (color s))"
proof -
  have "\<not> 80 \<le> x_pos s + 1"
    using assms(2) by (simp add: not_le) unat_arith
  then show "x_pos (kputchar c s) = x_pos s + 1" "y_pos (kputchar c s) = y_pos s"
    "vga (kputchar c s) = (vga s)(y_pos s * 80 + x_pos s := cell c (color s))"
    using assms(1) by (simp_all add: kputchar_def put_cell_def wrap_line_def printable_def cell_def Let_def)
qed

text \<open>A run of printable bytes that fits on the line lands in consecutive cells.\<close>

lemma kputs_line:
  assumes "\<forall>c \<in> set cs. printable c" and "unat (x_pos s) + length cs < 80"
  shows "unat (x_pos (kputs cs s)) = unat (x_pos s) + length cs \<and> y_pos (kputs cs s) = y_pos s \<and>
    (\<forall>j < length cs. vga (kputs cs s) (y_pos s * 80 + x_pos s + of_nat j) = cell (cs ! j) (color s)) \<and>
    (\<forall>i. (\<forall>j < length cs. i \<noteq> y_pos s * 80 + x_pos s + of_nat j) \<longrightarrow> vga (kputs cs s) i = vga s i)"
  using assms
proof (induction cs rule: rev_induct)
  case Nil
  then show ?case by simp
next
  case (snoc c cs)
  let ?t = "kputs cs s" and ?base = "y_pos s * 80 + x_pos s"
  have app: "kputs (cs @ [c]) s = kputchar c ?t"
    by (induction cs arbitrary: s) simp_all
  have IH: "unat (x_pos ?t) = unat (x_pos s) + length cs" "y_pos ?t = y_pos s"
      "\<forall>j < length cs. vga ?t (?base + of_nat j) = cell (cs ! j) (color s)"
      "\<forall>i. (\<forall>j < length cs. i \<noteq> ?base + of_nat j) \<longrightarrow> vga ?t i = vga s i"
    using snoc by auto
  have xt: "x_pos ?t = x_pos s + of_nat (length cs)"
    using IH(1) snoc.prems(2) by (simp add: word_unat_eq_iff unat_word_ariths unsigned_of_nat take_bit_nat_eq_self)
  have "x_pos ?t < 79" using IH(1) snoc.prems(2) by (simp add: word_less_nat_alt)
  moreover have "printable c" using snoc.prems(1) by simp
  ultimately have step: "x_pos (kputchar c ?t) = x_pos ?t + 1" "y_pos (kputchar c ?t) = y_pos s"
      "vga (kputchar c ?t) = (vga ?t)(?base + of_nat (length cs) := cell c (color s))"
    using kputchar_printable [of c ?t] IH(2) xt by (simp_all add: add.assoc)
  have inj: "(of_nat j :: u32) \<noteq> of_nat (length cs)" if "j < length cs" for j
  proof
    assume "(of_nat j :: u32) = of_nat (length cs)"
    then have "j mod 2 ^ 32 = length cs mod 2 ^ 32" by (simp add: word_of_nat_eq_iff take_bit_eq_mod)
    moreover have "length cs < 2 ^ 32" using snoc.prems(2) by simp
    ultimately show False using that by simp
  qed
  have "unat (x_pos ?t + 1) = unat (x_pos s) + length (cs @ [c])"
    using IH(1) snoc.prems(2) by (simp add: unat_word_ariths)
  with step IH inj show ?case
    unfolding app by (auto simp: nth_append less_Suc_eq)
qed

lemma uint_sint_mod: "uint (i :: u32) = sint i mod 2 ^ 32"
  by (subst uint_sint) (simp add: take_bit_eq_mod)

lemma sint_u32_range: "- (2 ^ 31) \<le> sint (i :: u32)" "sint i < 2 ^ 31"
  using sint_ge [of i] sint_lt [of i] by simp_all

lemma sint_nonneg_unat: "\<not> sint (i :: u32) < 0 \<Longrightarrow> int (unat i) = sint i"
  using uint_sint_mod [of i] sint_u32_range [of i] by (simp add: uint_nat [symmetric])

lemma uminus_magnitude: "sint (i :: u32) < 0 \<Longrightarrow> int (unat (- i)) = \<bar>sint i\<bar>"
proof -
  assume neg: "sint i < 0"
  have "int (unat (- i)) = (- uint i) mod 2 ^ 32"
    by (simp add: uint_word_ariths)
  also have "\<dots> = (- sint i) mod 2 ^ 32"
    by (simp add: uint_sint_mod mod_minus_eq)
  also have "\<dots> = - sint i"
    using neg sint_u32_range [of i] by simp
  finally show ?thesis using neg by simp
qed

text \<open>
  \<open>kprintf "%d"\<close> prints the signed decimal of its argument: a minus sign exactly for the
  negative values, then digits whose value is the magnitude, the most negative value included.
\<close>

theorem kprintf_decimal:
  "\<exists>ds. kprintf ''%d'' [VInt i] s =
          Ok ((), kputs (if sint i < 0 then ch CHR ''-'' # ds else ds) s) \<and>
        1 \<le> length ds \<and> length ds \<le> 10 \<and>
        int (number_value ''0123456789ABCDEF'' 10 ds) = \<bar>sint i\<bar>"
proof -
  have conv: "\<exists>ds. convert_to_base n 10 = Ok ds \<and> 1 \<le> length ds \<and> length ds \<le> 10 \<and>
      number_value ''0123456789ABCDEF'' 10 ds = unat n" for n :: u32
  proof -
    have "unat n < 2 ^ 32" using unsigned_less [of n] by simp
    then have "unat n < unat (10 :: u32) ^ 10" by simp
    then have "\<exists>ds. number_digits 127 ''0123456789ABCDEF'' 10 n = Ok ds \<and> 1 \<le> length ds \<and>
        length ds \<le> 10 \<and> number_value ''0123456789ABCDEF'' (unat (10 :: u32)) ds = unat n"
      by (intro number_digits_Ok hex_digits) simp_all
    then show ?thesis by (simp add: convert_to_base_def)
  qed
  have run: "kprintf ''%d'' [VInt i] s =
      (if sint i < 0 then print_number (- i) 10 (kputchar (ch CHR ''-'') s) else print_number i 10 s)"
    by (simp add: kprintf_def bytes_of_def kprintf_directive.simps)
  show ?thesis
  proof (cases "sint i < 0")
    case True
    obtain ds where ds: "convert_to_base (- i) 10 = Ok ds" "1 \<le> length ds" "length ds \<le> 10"
        "number_value ''0123456789ABCDEF'' 10 ds = unat (- i)" using conv by blast
    have "int (unat (- i)) = \<bar>sint i\<bar>"
      using True by (rule uminus_magnitude)
    with True ds run show ?thesis by (auto simp: print_number_def)
  next
    case False
    obtain ds where ds: "convert_to_base i 10 = Ok ds" "1 \<le> length ds" "length ds \<le> 10"
        "number_value ''0123456789ABCDEF'' 10 ds = unat i" using conv by blast
    have "int (unat i) = \<bar>sint i\<bar>"
      unfolding sint_nonneg_unat [OF False] using False by simp
    with False ds run show ?thesis by (auto simp: print_number_def)
  qed
qed
end
