(* ===== verification/Phys_Mmgr.thy ===== *)
theory Phys_Mmgr
  imports Kprintf "HOL-Library.Signed_Division"
begin

text \<open>
  The physical page allocator, \<^verbatim>\<open>sys/phys_mmgr.c\<close>: an array with one descriptor per physical
  page frame, each with the frame's address, a 32-bit reference count and the flag
  \<open>is_free_page\<close>, which despite its name is set when the frame is in use. The theory holds the
  allocator's operations, its invariant, the interface \<open>page_allocator\<close> that the memory manager
  and the process code rely on, and the behaviour of allocation, freeing and reference counts.
\<close>

section \<open>State\<close>

record page =
  phys_addr_of_page :: u64
  reference_count :: u32
  is_free_page :: u16

text \<open>
  \<open>free_page_list\<close> is the pointer, \<open>page_array\<close> the descriptors it points to. The array has
  \<open>number_of_pages\<close> entries: both are set together, in \<open>define_free_list\<close>, and the pointer is only
  ever re-tagged with the kernel base afterwards. \<open>tarfs_sb\<close> and \<open>dentry_cache_array\<close> are the two
  globals the last functions of the file set up.
\<close>

record phys_state = console +
  free_page_list :: ptr
  page_array :: "page list"
  tarfs_sb :: ptr
  dentry_cache_array :: ptr

definition number_of_pages :: "'z phys_state_scheme \<Rightarrow> u64" where
  "number_of_pages s = of_nat (length (page_array s))"

section \<open>Operations\<close>

text \<open>
  An index that is not in the array is an access outside it. (The index parameter has the type
  \<^verbatim>\<open>uint64_t\<close>; an \<^verbatim>\<open>int\<close> index -1 becomes the largest one.)
\<close>

definition set_free_page_list :: "u64 \<Rightarrow> ('z phys_state_scheme, unit) kop" where
  "set_free_page_list i s =
     (if unat i < length (page_array s)
      then Ok ((), s\<lparr>page_array := (page_array s)[unat i := (page_array s ! unat i)\<lparr>is_free_page := 1\<rparr>]\<rparr>)
      else Fault OutOfBounds)"

definition clear_free_page_list :: "u64 \<Rightarrow> ('z phys_state_scheme, unit) kop" where
  "clear_free_page_list i s =
     (if unat i < length (page_array s)
      then Ok ((), s\<lparr>page_array := (page_array s)[unat i := (page_array s ! unat i)\<lparr>is_free_page := 0\<rparr>]\<rparr>)
      else Fault OutOfBounds)"

definition test_free_page_list :: "u64 \<Rightarrow> ('z phys_state_scheme, u32) kop" where
  "test_free_page_list i s =
     (if unat i < length (page_array s)
      then Ok (ucast (is_free_page (page_array s ! unat i)), s)
      else Fault OutOfBounds)"

text \<open>The statement \<^verbatim>\<open>free_page_list = free_page_list | KERNBASE\<close> once paging is on.\<close>

definition retag_free_page_list :: "'z phys_state_scheme \<Rightarrow> 'z phys_state_scheme" where
  "retag_free_page_list s =
     (if is_paging s = 1 then s\<lparr>free_page_list := free_page_list s OR KERNBASE\<rparr> else s)"

text \<open>
  The loop of \<open>phys_addr_of_first_free_page\<close> over the descriptors from the current index on:
  the descriptors afterwards, and the address if a free frame was found.
\<close>

fun first_free_loop :: "page list \<Rightarrow> page list \<times> u64 option" where
  "first_free_loop [] = ([], None)"
| "first_free_loop (p # ps) =
     (if is_free_page p \<noteq> 0 then
        (let (ps', r) = first_free_loop ps
         in ((if reference_count p = 0 then p\<lparr>reference_count := 1\<rparr> else p) # ps', r))
      else
        (p\<lparr>is_free_page := 1, reference_count := reference_count p + 1\<rparr> # ps,
         Some (phys_addr_of_page p)))"

definition phys_addr_of_first_free_page :: "'z phys_state_scheme \<Rightarrow> u64 \<times> 'z phys_state_scheme" where
  "phys_addr_of_first_free_page s =
     (if free_page_list s = NULL then (0, s)
      else case first_free_loop (page_array s) of
             (ps, Some a) \<Rightarrow> (a, s\<lparr>page_array := ps\<rparr>)
           | (ps, None) \<Rightarrow>
               (0, kmsg ''No free pages left -- running out of memory\<newline>'' (s\<lparr>page_array := ps\<rparr>)))"

definition phys_mem_alloc :: "'z phys_state_scheme \<Rightarrow> u64 \<times> 'z phys_state_scheme" where
  "phys_mem_alloc s = phys_addr_of_first_free_page (retag_free_page_list s)"

text \<open>\<open>-1\<close> is \<^verbatim>\<open>int\<close>; the callers widen it to an index.\<close>

definition get_index_of_first_free_page :: "'z phys_state_scheme \<Rightarrow> u32 \<times> 'z phys_state_scheme" where
  "get_index_of_first_free_page s =
     (if free_page_list s = NULL then (0, s)
      else let i = length (takeWhile (\<lambda>p. is_free_page p \<noteq> 0) (page_array s))
           in if i < length (page_array s) then (of_nat i, s)
              else (- 1, kmsg ''No free pages left\<newline>'' s))"

text \<open>The loop marks the indices from \<open>index\<close> to \<open>index + (n - 1)\<close>, exclusive.\<close>

definition phys_mem_alloc_more :: "int \<Rightarrow> ('z phys_state_scheme, u64) kop" where
  "phys_mem_alloc_more n =
     bnd (modify retag_free_page_list) (\<lambda>_.
     bnd (call get_index_of_first_free_page) (\<lambda>index.
     bnd (gets page_array) (\<lambda>ps.
       if unat (scast index :: u64) < length ps then
         bnd (for_each [0..<nat (n - 1)] (\<lambda>k. set_free_page_list (scast index + of_nat k)))
           (\<lambda>_. ret (phys_addr_of_page (ps ! unat (scast index :: u64))))
       else fail OutOfBounds)))"

text \<open>
  The loop of \<open>phys_mem_free\<close>: only the first descriptor with the address is looked at, and
  only if its frame is in use. The count is unsigned, so the test \<^verbatim>\<open>reference_count <= 0\<close> is a
  test for 0, and a count of 0 wraps.
\<close>

fun free_loop :: "u64 \<Rightarrow> page list \<Rightarrow> page list" where
  "free_loop addr [] = []"
| "free_loop addr (p # ps) =
     (if phys_addr_of_page p = addr then
        (if is_free_page p \<noteq> 0 then
           (let p' = p\<lparr>reference_count := reference_count p - 1\<rparr>
            in (if reference_count p' = 0 then p'\<lparr>is_free_page := 0\<rparr> else p') # ps)
         else p # ps)
      else p # free_loop addr ps)"

definition phys_mem_free :: "u64 \<Rightarrow> 'z phys_state_scheme \<Rightarrow> 'z phys_state_scheme" where
  "phys_mem_free addr s =
     (let s' = retag_free_page_list s in s'\<lparr>page_array := free_loop addr (page_array s')\<rparr>)"

text \<open>The zeroed page that \<open>get_page_from_phys_addr\<close> allocates for the case of no match.\<close>

definition get_page_from_phys_addr :: "u64 \<Rightarrow> 'z phys_state_scheme \<Rightarrow> page \<times> 'z phys_state_scheme" where
  "get_page_from_phys_addr a s =
     (let (null_page, s1) = phys_mem_alloc s;
          s2 = retag_free_page_list s1
      in case find (\<lambda>p. phys_addr_of_page p = a) (page_array s2) of
           Some p \<Rightarrow> (p, s2)
         | None \<Rightarrow> (\<lparr>phys_addr_of_page = 0, reference_count = 0, is_free_page = 0\<rparr>, s2))"

definition increment_reference_count_of_page :: "u64 \<Rightarrow> 'z phys_state_scheme \<Rightarrow> 'z phys_state_scheme" where
  "increment_reference_count_of_page a s =
     (let s' = retag_free_page_list s
      in s'\<lparr>page_array := map (\<lambda>p. if phys_addr_of_page p = a
              then p\<lparr>reference_count := reference_count p + 1\<rparr> else p) (page_array s')\<rparr>)"

definition decrement_reference_count_of_page :: "page \<Rightarrow> 'z phys_state_scheme \<Rightarrow> 'z phys_state_scheme" where
  "decrement_reference_count_of_page q s =
     (let s' = retag_free_page_list s
      in s'\<lparr>page_array := map (\<lambda>p. if phys_addr_of_page p = phys_addr_of_page q
              then p\<lparr>reference_count := reference_count p - 1\<rparr> else p) (page_array s')\<rparr>)"

text \<open>
  \<open>sizeof(page)\<close> is 16. The reserved bytes are kept in an \<^verbatim>\<open>int\<close>, so the page count they make up
  is a signed division. The product \<^verbatim>\<open>i * PAGE_BLOCK_SIZE\<close> is one of \<^verbatim>\<open>int\<close>s, which overflows when \<open>i\<close>
  reaches 2 to the 19.
\<close>

definition reserved_pages :: "nat \<Rightarrow> int" where
  "reserved_pages n = sint (of_nat (n * 16) :: u32) sdiv 4096"

definition initialize_free_list :: "u64 \<Rightarrow> nat \<Rightarrow> ('z phys_state_scheme, unit) kop" where
  "initialize_free_list physbase n =
     (if 2 ^ 19 < n then fail SignedOverflow else
      bnd (modify (\<lambda>s. s\<lparr>free_page_list := physbase,
            page_array := map (\<lambda>i. \<lparr>phys_addr_of_page = physbase + of_nat i * PAGE_BLOCK_SIZE,
                                    reference_count = 0, is_free_page = 0\<rparr>) [0..<n]\<rparr>)) (\<lambda>_.
      for_each [0..<nat (reserved_pages n)] (\<lambda>i. set_free_page_list (of_nat i))))"

text \<open>The counting loop has an \<^verbatim>\<open>int\<close> index, which overflows from 2 to the 31 pages on.\<close>

definition define_free_list :: "u64 \<Rightarrow> u64 \<Rightarrow> ('z phys_state_scheme, unit) kop" where
  "define_free_list phys_start phys_end =
     (let n = unat ((phys_end - (phys_start + 0x1000)) div PAGE_BLOCK_SIZE)
      in if n < 2 ^ 31 then initialize_free_list (phys_start + 0x1000) n else fail SignedOverflow)"

definition initialize_tarfs_sb :: "('z phys_state_scheme, unit) kop" where
  "initialize_tarfs_sb =
     bnd (modify (\<lambda>s. s\<lparr>tarfs_sb := 0x31E000 + ((number_of_pages s * 16) div 4096) * 0x1000\<rparr>)) (\<lambda>_.
     bnd (call get_index_of_first_free_page) (\<lambda>index.
     set_free_page_list (scast index)))"

definition initialize_dentry_cache :: "'z phys_state_scheme \<Rightarrow> 'z phys_state_scheme" where
  "initialize_dentry_cache s =
     (let (a, s1) = phys_mem_alloc s
      in s1\<lparr>dentry_cache_array := (if is_paging s1 \<noteq> 0 then a OR KERNBASE else a)\<rparr>)"

section \<open>The allocator's interface\<close>

text \<open>
  What the users of an allocator rely on: \<open>frames\<close> is the set of all frames, \<open>used\<close> the frames
  handed out. The lemmas follow from the laws alone.
\<close>

locale page_allocator =
  fixes alloc :: "'s \<Rightarrow> u64 \<times> 's"
    and free :: "u64 \<Rightarrow> 's \<Rightarrow> 's"
    and frames :: "'s \<Rightarrow> u64 set"
    and used :: "'s \<Rightarrow> u64 set"
    and wf :: "'s \<Rightarrow> bool"
  assumes wf_alloc: "wf s \<Longrightarrow> wf (snd (alloc s))"
    and wf_free: "wf s \<Longrightarrow> wf (free a s)"
    and finite_frames: "finite (frames s)"
    and zero_no_frame: "wf s \<Longrightarrow> 0 \<notin> frames s"
    and used_frames_sub: "used s \<subseteq> frames s"
    and frames_alloc: "wf s \<Longrightarrow> frames (snd (alloc s)) = frames s"
    and frames_free: "wf s \<Longrightarrow> frames (free a s) = frames s"
    and alloc_fresh: "wf s \<Longrightarrow> \<not> frames s \<subseteq> used s \<Longrightarrow>
          fst (alloc s) \<in> frames s - used s \<and> used (snd (alloc s)) = insert (fst (alloc s)) (used s)"
    and alloc_full: "wf s \<Longrightarrow> frames s \<subseteq> used s \<Longrightarrow> fst (alloc s) = 0 \<and> used (snd (alloc s)) = used s"
    and free_used: "wf s \<Longrightarrow> used s - {a} \<subseteq> used (free a s) \<and> used (free a s) \<subseteq> used s"
begin

lemma alloc_zero_iff: "wf s \<Longrightarrow> fst (alloc s) = 0 \<longleftrightarrow> frames s \<subseteq> used s"
  using alloc_fresh alloc_full zero_no_frame by force

lemma alloc_not_used: "wf s \<Longrightarrow> fst (alloc s) \<notin> used s"
proof (cases "frames s \<subseteq> used s")
  case True
  moreover assume "wf s"
  ultimately show ?thesis
    using alloc_full [of s] zero_no_frame [of s] used_frames_sub [of s] by auto
qed (use alloc_fresh in blast)

lemma used_alloc_mono: "wf s \<Longrightarrow> used s \<subseteq> used (snd (alloc s))"
  using alloc_full alloc_fresh by (cases "frames s \<subseteq> used s") blast+

lemma alloc_is_used: "wf s \<Longrightarrow> fst (alloc s) \<noteq> 0 \<Longrightarrow> fst (alloc s) \<in> used (snd (alloc s))"
  using alloc_full alloc_fresh by (cases "frames s \<subseteq> used s") auto

text \<open>The state before the \<open>k\<close>-th of a run of allocations.\<close>

lemma wf_run: "wf s \<Longrightarrow> wf (((\<lambda>s. snd (alloc s)) ^^ k) s)"
  by (induction k) (auto intro: wf_alloc)

lemma frames_run: "wf s \<Longrightarrow> frames (((\<lambda>s. snd (alloc s)) ^^ k) s) = frames s"
  by (induction k) (auto simp: frames_alloc wf_run)

lemma card_run:
  "wf s \<Longrightarrow> card (frames s - used (((\<lambda>s. snd (alloc s)) ^^ k) s)) = card (frames s - used s) - k"
proof (induction k)
  case (Suc k)
  let ?t = "((\<lambda>s. snd (alloc s)) ^^ k) s"
  note wf = wf_run [OF Suc.prems, of k]
  note fr = frames_run [OF Suc.prems, of k]
  show ?case
  proof (cases "frames s \<subseteq> used ?t")
    case True
    then have "used (snd (alloc ?t)) = used ?t"
      using alloc_full [OF wf] fr by simp
    moreover have "card (frames s - used s) - k = 0"
      using Suc True by (metis Diff_eq_empty_iff card.empty)
    ultimately show ?thesis using Suc by simp
  next
    case False
    then have a: "fst (alloc ?t) \<in> frames s - used ?t"
      and u: "used (snd (alloc ?t)) = insert (fst (alloc ?t)) (used ?t)"
      using alloc_fresh [OF wf] fr by auto
    have "frames s - used (snd (alloc ?t)) = (frames s - used ?t) - {fst (alloc ?t)}"
      using u by blast
    then show ?thesis
      using Suc a by (simp add: card_Diff_singleton finite_frames)
  qed
qed simp

text \<open>Exactly as many allocations in a row succeed as there are free frames.\<close>

lemma run_succeeds_iff:
  assumes "wf s"
  shows "fst (alloc (((\<lambda>s. snd (alloc s)) ^^ k) s)) \<noteq> 0 \<longleftrightarrow> k < card (frames s - used s)"
proof -
  let ?t = "((\<lambda>s. snd (alloc s)) ^^ k) s"
  have "fst (alloc ?t) \<noteq> 0 \<longleftrightarrow> frames s - used ?t \<noteq> {}"
    using alloc_zero_iff [OF wf_run [OF assms]] frames_run [OF assms] by simp
  also have "\<dots> \<longleftrightarrow> 0 < card (frames s - used ?t)"
    by (simp add: card_gt_0_iff finite_frames)
  finally show ?thesis using card_run [OF assms] by simp
qed

text \<open>No frame is handed out twice in a run.\<close>

lemma run_used_mono: "wf s \<Longrightarrow> i \<le> j \<Longrightarrow>
    used (((\<lambda>s. snd (alloc s)) ^^ i) s) \<subseteq> used (((\<lambda>s. snd (alloc s)) ^^ j) s)"
  by (induction j) (auto simp: le_Suc_eq dest: subsetD [OF used_alloc_mono [OF wf_run]])

lemma run_distinct:
  assumes "wf s" and "i < j" and "fst (alloc (((\<lambda>s. snd (alloc s)) ^^ i) s)) \<noteq> 0"
  shows "fst (alloc (((\<lambda>s. snd (alloc s)) ^^ i) s)) \<noteq> fst (alloc (((\<lambda>s. snd (alloc s)) ^^ j) s))"
proof
  let ?t = "\<lambda>k. ((\<lambda>s. snd (alloc s)) ^^ k) s"
  assume eq: "fst (alloc (?t i)) = fst (alloc (?t j))"
  have "fst (alloc (?t i)) \<in> used (?t (Suc i))"
    using alloc_is_used [OF wf_run [OF assms(1)]] assms(3) by simp
  then have "fst (alloc (?t j)) \<in> used (?t j)"
    using run_used_mono [OF assms(1), of "Suc i" j] assms(2) eq by auto
  then show False
    using alloc_not_used [OF wf_run [OF assms(1)]] by blast
qed

end

section \<open>The allocator implements the interface\<close>

abbreviation in_use :: "page \<Rightarrow> bool" where
  "in_use p \<equiv> is_free_page p \<noteq> 0"

definition frame_addr :: "u64 \<Rightarrow> bool" where
  "frame_addr a \<longleftrightarrow> a \<noteq> 0 \<and> a AND 0xFFF = 0 \<and> a < 0x80000000"

definition frames_of :: "'z phys_state_scheme \<Rightarrow> u64 set" where
  "frames_of s = phys_addr_of_page ` set (page_array s)"

definition used_of :: "'z phys_state_scheme \<Rightarrow> u64 set" where
  "used_of s = phys_addr_of_page ` {p \<in> set (page_array s). in_use p}"

text \<open>The invariant: one descriptor per frame, frames page-aligned, below 2 GB and not frame 0.\<close>

definition pages_wf :: "'z phys_state_scheme \<Rightarrow> bool" where
  "pages_wf s \<longleftrightarrow> free_page_list s \<noteq> NULL \<and> distinct (map phys_addr_of_page (page_array s)) \<and>
     (\<forall>p \<in> set (page_array s). frame_addr (phys_addr_of_page p))"

definition touch :: "page \<Rightarrow> page" where
  "touch p = (if reference_count p = 0 then p\<lparr>reference_count := 1\<rparr> else p)"

definition take_frame :: "page \<Rightarrow> page" where
  "take_frame p = p\<lparr>is_free_page := 1, reference_count := reference_count p + 1\<rparr>"

definition drop_frame :: "page \<Rightarrow> page" where
  "drop_frame p =
     (if in_use p then
        p\<lparr>reference_count := reference_count p - 1,
          is_free_page := (if reference_count p = 1 then 0 else is_free_page p)\<rparr>
      else p)"

lemma page_fields [simp]:
  "phys_addr_of_page (touch p) = phys_addr_of_page p"
  "is_free_page (touch p) = is_free_page p"
  "phys_addr_of_page (take_frame p) = phys_addr_of_page p"
  "in_use (take_frame p)"
  "reference_count (take_frame p) = reference_count p + 1"
  "phys_addr_of_page (drop_frame p) = phys_addr_of_page p"
  by (simp_all add: touch_def take_frame_def drop_frame_def)

lemma retag_frame [frame, simp]:
  "page_array (retag_free_page_list s) = page_array s"
  "is_paging (retag_free_page_list s) = is_paging s"
  "phys_state.more (retag_free_page_list s) = phys_state.more s"
  "tarfs_sb (retag_free_page_list s) = tarfs_sb s"
  "dentry_cache_array (retag_free_page_list s) = dentry_cache_array s"
  by (simp_all add: retag_free_page_list_def)

lemma or_KERNBASE_nonzero [simp]: "a OR KERNBASE \<noteq> 0" "KERNBASE OR a \<noteq> 0"
  by (simp_all add: KERNBASE_def or_eq_0_iff)

lemma retag_nonnull [simp]: "free_page_list s \<noteq> NULL \<Longrightarrow> free_page_list (retag_free_page_list s) \<noteq> NULL"
  by (simp add: retag_free_page_list_def)

text \<open>The allocation loop, by where the first free frame is.\<close>

lemma first_free_loop_full: "\<forall>p \<in> set ps. in_use p \<Longrightarrow> first_free_loop ps = (map touch ps, None)"
  by (induction ps) (auto simp: touch_def)

lemma first_free_loop_split:
  "\<forall>p \<in> set us. in_use p \<Longrightarrow> \<not> in_use p \<Longrightarrow>
    first_free_loop (us @ p # ps) = (map touch us @ take_frame p # ps, Some (phys_addr_of_page p))"
  by (induction us) (auto simp: touch_def take_frame_def)

lemma page_list_cases:
  obtains (full) "\<forall>p \<in> set ps. in_use p"
  | (free) us p qs where "ps = us @ p # qs" "\<forall>q \<in> set us. in_use q" "\<not> in_use p"
proof (cases "\<forall>p \<in> set ps. in_use p")
  case False
  then have "\<exists>p \<in> set ps. \<not> in_use p" by blast
  then obtain us p qs where "ps = us @ p # qs" "\<not> in_use p" "\<forall>q \<in> set us. \<not> \<not> in_use q"
    using split_list_first_prop [of ps "\<lambda>p. \<not> in_use p"] by blast
  then show ?thesis using free by blast
qed (rule full)

lemma phys_mem_alloc_full:
  assumes "free_page_list s \<noteq> NULL" and "\<forall>p \<in> set (page_array s). in_use p"
  shows "phys_mem_alloc s = (0, kmsg ''No free pages left -- running out of memory\<newline>''
           ((retag_free_page_list s)\<lparr>page_array := map touch (page_array s)\<rparr>))"
  using assms by (simp add: phys_mem_alloc_def phys_addr_of_first_free_page_def first_free_loop_full)

lemma phys_mem_alloc_split:
  assumes "free_page_list s \<noteq> NULL" and "page_array s = us @ p # ps"
    and "\<forall>q \<in> set us. in_use q" and "\<not> in_use p"
  shows "phys_mem_alloc s = (phys_addr_of_page p,
           (retag_free_page_list s)\<lparr>page_array := map touch us @ take_frame p # ps\<rparr>)"
  using assms by (simp add: phys_mem_alloc_def phys_addr_of_first_free_page_def first_free_loop_split)

lemma phys_of_console_more:
  "console.more t = console.more s \<Longrightarrow> phys_state.more t = phys_state.more s \<and>
    page_array t = page_array s \<and> free_page_list t = free_page_list s \<and>
    tarfs_sb t = tarfs_sb s \<and> dentry_cache_array t = dentry_cache_array s"
  by (cases t, cases s) simp

lemma kmsg_phys_frame [frame, simp]:
  "free_page_list (kmsg m s) = free_page_list s"
  "page_array (kmsg m s) = page_array s"
  "phys_state.more (kmsg m s) = phys_state.more s"
  "tarfs_sb (kmsg m s) = tarfs_sb s"
  "dentry_cache_array (kmsg m s) = dentry_cache_array s"
  using phys_of_console_more [of "kmsg m s" s] by simp_all

lemma phys_mem_alloc_frame [frame, simp]:
  "phys_state.more (snd (phys_mem_alloc s)) = phys_state.more s"
  "is_paging (snd (phys_mem_alloc s)) = is_paging s"
  "tarfs_sb (snd (phys_mem_alloc s)) = tarfs_sb s"
  "dentry_cache_array (snd (phys_mem_alloc s)) = dentry_cache_array s"
  by (simp_all add: phys_mem_alloc_def phys_addr_of_first_free_page_def split: prod.split option.split)

lemma phys_mem_free_frame [frame, simp]:
  "phys_state.more (phys_mem_free a s) = phys_state.more s"
  "is_paging (phys_mem_free a s) = is_paging s"
  by (simp_all add: phys_mem_free_def Let_def)

text \<open>The freeing loop: with distinct addresses it changes the one descriptor it names.\<close>

lemma free_loop_no_match: "a \<notin> phys_addr_of_page ` set ps \<Longrightarrow> free_loop a ps = ps"
  by (induction ps) auto

lemma free_loop_map:
  "distinct (map phys_addr_of_page ps) \<Longrightarrow>
    free_loop a ps = map (\<lambda>p. if phys_addr_of_page p = a then drop_frame p else p) ps"
proof (induction ps)
  case (Cons p ps)
  then show ?case
    by (cases "phys_addr_of_page p = a")
      (auto simp: drop_frame_def Let_def image_iff intro!: map_idI [symmetric])
qed simp

lemma frames_of_alt: "frames_of s = set (map phys_addr_of_page (page_array s))"
  by (simp add: frames_of_def)

lemma used_of_alt: "used_of s = set (map phys_addr_of_page (filter in_use (page_array s)))"
  by (auto simp: used_of_def)

lemma alloc_addrs:
  "free_page_list s \<noteq> NULL \<Longrightarrow>
    map phys_addr_of_page (page_array (snd (phys_mem_alloc s))) = map phys_addr_of_page (page_array s)"
  by (cases "page_array s" rule: page_list_cases)
    (simp_all add: phys_mem_alloc_full phys_mem_alloc_split comp_def)

lemma free_addrs:
  "distinct (map phys_addr_of_page (page_array s)) \<Longrightarrow>
    map phys_addr_of_page (page_array (phys_mem_free a s)) = map phys_addr_of_page (page_array s)"
  by (simp add: phys_mem_free_def Let_def free_loop_map comp_def if_distrib cong: if_cong)

lemma pages_wf_alt:
  "pages_wf s \<longleftrightarrow> free_page_list s \<noteq> NULL \<and> distinct (map phys_addr_of_page (page_array s)) \<and>
     (\<forall>a \<in> set (map phys_addr_of_page (page_array s)). frame_addr a)"
  by (simp add: pages_wf_def)

lemma alloc_free_page_list:
  "free_page_list s \<noteq> NULL \<Longrightarrow> free_page_list (snd (phys_mem_alloc s)) \<noteq> NULL"
  by (cases "page_array s" rule: page_list_cases)
    (simp_all add: phys_mem_alloc_full phys_mem_alloc_split)

lemma pages_wf_alloc: "pages_wf s \<Longrightarrow> pages_wf (snd (phys_mem_alloc s))"
  by (simp add: pages_wf_alt alloc_addrs alloc_free_page_list del: set_map)

lemma pages_wf_free: "pages_wf s \<Longrightarrow> pages_wf (phys_mem_free a s)"
  by (simp add: pages_wf_alt free_addrs del: set_map) (simp add: phys_mem_free_def Let_def)

lemma used_alloc_split:
  assumes "free_page_list s \<noteq> NULL" and "page_array s = us @ p # ps"
    and "\<forall>q \<in> set us. in_use q" and "\<not> in_use p"
  shows "used_of (snd (phys_mem_alloc s)) = insert (phys_addr_of_page p) (used_of s)"
  unfolding used_of_alt phys_mem_alloc_split [OF assms] using assms(2,4)
  by (simp add: filter_map comp_def image_image)

lemma used_alloc_full:
  assumes "free_page_list s \<noteq> NULL" and "\<forall>p \<in> set (page_array s). in_use p"
  shows "used_of (snd (phys_mem_alloc s)) = used_of s"
  unfolding used_of_alt phys_mem_alloc_full [OF assms]
  by (simp add: filter_map comp_def image_image)

lemma used_free_bounds:
  assumes "distinct (map phys_addr_of_page (page_array s))"
  shows "used_of s - {a} \<subseteq> used_of (phys_mem_free a s)" and "used_of (phys_mem_free a s) \<subseteq> used_of s"
proof -
  have ps: "page_array (phys_mem_free a s) =
      map (\<lambda>p. if phys_addr_of_page p = a then drop_frame p else p) (page_array s)"
    using assms by (simp add: phys_mem_free_def Let_def free_loop_map)
  show "used_of s - {a} \<subseteq> used_of (phys_mem_free a s)"
    unfolding used_of_def ps by force
  show "used_of (phys_mem_free a s) \<subseteq> used_of s"
    unfolding used_of_def ps by (force simp: drop_frame_def split: if_splits)
qed

interpretation pa: page_allocator phys_mem_alloc phys_mem_free frames_of used_of pages_wf
proof
  fix s :: "'a phys_state_scheme" and a :: u64
  show "finite (frames_of s)" and "used_of s \<subseteq> frames_of s"
    by (auto simp: frames_of_def used_of_def)
  assume wf: "pages_wf s"
  then have nn: "free_page_list s \<noteq> NULL"
    and d: "distinct (map phys_addr_of_page (page_array s))" by (simp_all add: pages_wf_def)
  show "pages_wf (snd (phys_mem_alloc s))" and "pages_wf (phys_mem_free a s)"
    using wf by (rule pages_wf_alloc, rule pages_wf_free)
  show "0 \<notin> frames_of s"
    using wf by (auto simp: pages_wf_def frames_of_def frame_addr_def)
  show "frames_of (snd (phys_mem_alloc s)) = frames_of s"
    unfolding frames_of_alt alloc_addrs [OF nn] ..
  show "frames_of (phys_mem_free a s) = frames_of s"
    unfolding frames_of_alt free_addrs [OF d] ..
  show "used_of s - {a} \<subseteq> used_of (phys_mem_free a s) \<and> used_of (phys_mem_free a s) \<subseteq> used_of s"
    using used_free_bounds [OF d] by blast
  show "fst (phys_mem_alloc s) \<in> frames_of s - used_of s \<and>
      used_of (snd (phys_mem_alloc s)) = insert (fst (phys_mem_alloc s)) (used_of s)"
    if "\<not> frames_of s \<subseteq> used_of s"
  proof (cases "page_array s" rule: page_list_cases)
    case full
    with that show ?thesis by (auto simp: frames_of_def used_of_def)
  next
    case (free us p qs)
    have "phys_addr_of_page p \<notin> used_of s"
      using d free by (auto simp: used_of_alt)
    moreover have "phys_addr_of_page p \<in> frames_of s" using free by (simp add: frames_of_def)
    ultimately show ?thesis
      using used_alloc_split [OF nn free] phys_mem_alloc_split [OF nn free] by simp
  qed
  show "fst (phys_mem_alloc s) = 0 \<and> used_of (snd (phys_mem_alloc s)) = used_of s"
    if "frames_of s \<subseteq> used_of s"
  proof (cases "page_array s" rule: page_list_cases)
    case full
    then show ?thesis using used_alloc_full [OF nn] phys_mem_alloc_full [OF nn] by simp
  next
    case (free us p qs)
    have "phys_addr_of_page p \<notin> used_of s"
      using d free by (auto simp: used_of_alt)
    with that free show ?thesis by (auto simp: frames_of_def)
  qed
qed

text \<open>
  As long as nothing has been released, the frames in use are the lowest ones: the array is in
  address order and the first free frame is taken.
\<close>

definition ascending :: "'z phys_state_scheme \<Rightarrow> bool" where
  "ascending s \<longleftrightarrow> pages_wf s \<and> sorted (map phys_addr_of_page (page_array s)) \<and>
     (\<forall>u \<in> used_of s. \<forall>f \<in> frames_of s - used_of s. u < f)"

lemma alloc_lowest:
  assumes "pages_wf s" and "sorted (map phys_addr_of_page (page_array s))"
    and "f \<in> frames_of s - used_of s"
  shows "fst (phys_mem_alloc s) \<le> f"
proof (cases "page_array s" rule: page_list_cases)
  case full
  with assms(3) show ?thesis by (auto simp: frames_of_def used_of_def)
next
  case (free us p qs)
  from assms(1) have nn: "free_page_list s \<noteq> NULL" by (simp add: pages_wf_def)
  from assms(3) obtain q where q: "q \<in> set (page_array s)" "f = phys_addr_of_page q" "\<not> in_use q"
    by (auto simp: frames_of_def used_of_def)
  with free(2) have "q = p \<or> q \<in> set qs" by (auto simp: free(1))
  then have "phys_addr_of_page p \<le> f"
    using assms(2) q(2) by (auto simp: free(1) sorted_append)
  then show ?thesis by (simp add: phys_mem_alloc_split [OF nn free])
qed

lemma ascending_alloc:
  assumes "ascending s" and "\<not> frames_of s \<subseteq> used_of s"
  shows "ascending (snd (phys_mem_alloc s))"
    and "fst (phys_mem_alloc s) + 4096 \<notin> used_of (snd (phys_mem_alloc s))"
    and "frame_addr (fst (phys_mem_alloc s))"
proof -
  let ?a = "fst (phys_mem_alloc s)" and ?t = "snd (phys_mem_alloc s)"
  from assms(1) have wf: "pages_wf s" and so: "sorted (map phys_addr_of_page (page_array s))"
    and low: "\<forall>u \<in> used_of s. \<forall>f \<in> frames_of s - used_of s. u < f"
    by (simp_all add: ascending_def)
  from wf have nn: "free_page_list s \<noteq> NULL" by (simp add: pages_wf_def)
  have a: "?a \<in> frames_of s - used_of s" and u: "used_of ?t = insert ?a (used_of s)"
    using pa.alloc_fresh [OF wf assms(2)] by auto
  show "frame_addr ?a" using a wf by (auto simp: frames_of_def pages_wf_def)
  then have "unat ?a + 4096 < 2 ^ 64" by (simp add: frame_addr_def word_less_nat_alt)
  then have lt: "?a < ?a + 4096"
    using unat_add_of_nat [of ?a 4096] by (simp add: word_less_nat_alt)
  show "?a + 4096 \<notin> used_of ?t"
  proof
    assume "?a + 4096 \<in> used_of ?t"
    then have "?a + 4096 \<in> used_of s" using u lt by auto
    then have "?a + 4096 < ?a" using low a by blast
    with lt show False by (rule order.asym)
  qed
  have "?a < f" if "f \<in> frames_of s - insert ?a (used_of s)" for f
    using alloc_lowest [OF wf so, of f] that by force
  then show "ascending ?t"
    unfolding ascending_def u pa.frames_alloc [OF wf] alloc_addrs [OF nn]
    using pa.wf_alloc [OF wf] so low by blast
qed

section \<open>Properties\<close>

text \<open>A small machine on which the properties are instantiated: three frames, the first in use.\<close>

definition three_frames :: phys_state where
  "three_frames =
     \<lparr>x_pos = 0, y_pos = 0, vgamemory = 0, vga = (\<lambda>_. 0), color = 0x0A, is_paging = 1,
      free_page_list = 0x1000,
      page_array = [\<lparr>phys_addr_of_page = 0x1000, reference_count = 1, is_free_page = 1\<rparr>,
                    \<lparr>phys_addr_of_page = 0x2000, reference_count = 0, is_free_page = 0\<rparr>,
                    \<lparr>phys_addr_of_page = 0x3000, reference_count = 0, is_free_page = 0\<rparr>],
      tarfs_sb = 0, dentry_cache_array = 0\<rparr>"

lemma three_frames_wf: "pages_wf three_frames"
  by (simp add: three_frames_def pages_wf_def frame_addr_def)

subsection \<open>Allocation\<close>

text \<open>
  C19: Running the allocator again and again without freeing, the \<open>k\<close>-th allocation succeeds exactly
  when \<open>k\<close> is below the number of free frames, and a frame once handed out is never returned again.
\<close>

theorem phys_mem_alloc_run:
  assumes "pages_wf s"
  shows "(\<forall>k. fst (phys_mem_alloc (((\<lambda>s. snd (phys_mem_alloc s)) ^^ k) s)) \<noteq> 0 \<longleftrightarrow>
           k < card (frames_of s - used_of s)) \<and>
         (\<forall>i j. i < j \<longrightarrow> fst (phys_mem_alloc (((\<lambda>s. snd (phys_mem_alloc s)) ^^ i) s)) \<noteq> 0 \<longrightarrow>
           fst (phys_mem_alloc (((\<lambda>s. snd (phys_mem_alloc s)) ^^ i) s)) \<noteq>
           fst (phys_mem_alloc (((\<lambda>s. snd (phys_mem_alloc s)) ^^ j) s)))"
  using pa.run_succeeds_iff [OF assms] pa.run_distinct [OF assms] by auto

theorem phys_mem_alloc_run_witness:
  "card (frames_of three_frames - used_of three_frames) = 2 \<and>
   fst (phys_mem_alloc (snd (phys_mem_alloc three_frames))) \<noteq> 0 \<and>
   fst (phys_mem_alloc (snd (phys_mem_alloc (snd (phys_mem_alloc three_frames))))) = 0"
proof -
  have "frames_of three_frames - used_of three_frames = {0x2000, 0x3000}"
    by (auto simp: frames_of_def used_of_alt three_frames_def)
  then have c: "card (frames_of three_frames - used_of three_frames) = 2" by simp
  note run = conjunct1 [OF phys_mem_alloc_run [OF three_frames_wf], rule_format]
  from run [of 1] run [of 2] c show ?thesis by (simp add: numeral_2_eq_2)
qed

text \<open>
  An allocation takes the lowest-numbered free frame: it returns that frame's address, marks
  the frame in use, counts one more reference to it, and leaves the flags of all other frames and
  the descriptors behind it alone.
\<close>

theorem phys_mem_alloc_first_fit:
  assumes "free_page_list s \<noteq> NULL" and "i < length (page_array s)"
    and "\<not> in_use (page_array s ! i)" and "\<forall>j < i. in_use (page_array s ! j)"
  shows "let (a, t) = phys_mem_alloc s in
      a = phys_addr_of_page (page_array s ! i) \<and>
      page_array t ! i = (page_array s ! i)\<lparr>is_free_page := 1,
        reference_count := reference_count (page_array s ! i) + 1\<rparr> \<and>
      (\<forall>j. j \<noteq> i \<longrightarrow> j < length (page_array s) \<longrightarrow>
         is_free_page (page_array t ! j) = is_free_page (page_array s ! j)) \<and>
      drop (Suc i) (page_array t) = drop (Suc i) (page_array s)"
proof -
  let ?ps = "page_array s"
  have split: "?ps = take i ?ps @ ?ps ! i # drop (Suc i) ?ps"
    using assms(2) by (rule id_take_nth_drop)
  have "\<forall>q \<in> set (take i ?ps). in_use q"
    using assms(2,4) by (auto simp: in_set_conv_nth)
  from phys_mem_alloc_split [OF assms(1) split this assms(3)]
  show ?thesis
    using assms(2) by (auto simp: nth_append take_frame_def Let_def nth_Cons' min_def)
qed

theorem phys_mem_alloc_first_fit_witness:
  "fst (phys_mem_alloc three_frames) = 0x2000 \<and>
   drop 2 (page_array (snd (phys_mem_alloc three_frames))) = drop 2 (page_array three_frames)"
proof -
  have "free_page_list three_frames \<noteq> NULL" "1 < length (page_array three_frames)"
    "\<not> in_use (page_array three_frames ! 1)" "\<forall>j < 1. in_use (page_array three_frames ! j)"
    by (simp_all add: three_frames_def)
  from phys_mem_alloc_first_fit [OF this] show ?thesis
    by (simp add: Let_def case_prod_beta numeral_2_eq_2) (simp add: three_frames_def)
qed

text \<open>
  C20: Freeing a frame just allocated restores the set of frames in use, and the next allocation
  returns the same frame, provided free frames carry no references.
\<close>

theorem alloc_free_roundtrip:
  assumes "pages_wf s" and "\<forall>p \<in> set (page_array s). \<not> in_use p \<longrightarrow> reference_count p = 0"
    and "phys_mem_alloc s = (a, t)" and "a \<noteq> 0"
  shows "used_of (phys_mem_free a t) = used_of s \<and> fst (phys_mem_alloc (phys_mem_free a t)) = a"
proof (cases "page_array s" rule: page_list_cases)
  case full
  with assms show ?thesis by (simp add: pages_wf_def phys_mem_alloc_full)
next
  case (free us p qs)
  from assms(1) have nn: "free_page_list s \<noteq> NULL"
    and d: "distinct (map phys_addr_of_page (page_array s))" by (simp_all add: pages_wf_def)
  from phys_mem_alloc_split [OF nn free] assms(3) have a: "a = phys_addr_of_page p"
    and t: "t = (retag_free_page_list s)\<lparr>page_array := map touch us @ take_frame p # qs\<rparr>" by auto
  have rc: "reference_count p = 0" using assms(2) free by simp
  let ?p = "drop_frame (take_frame p)"
  have p': "\<not> in_use ?p" "phys_addr_of_page ?p = a"
    using rc a by (simp_all add: drop_frame_def take_frame_def)
  have "a \<notin> phys_addr_of_page ` set us" and "a \<notin> phys_addr_of_page ` set qs"
    using d by (simp_all add: free(1) a)
  then have other: "\<forall>q \<in> set us. phys_addr_of_page q \<noteq> a" "\<forall>q \<in> set qs. phys_addr_of_page q \<noteq> a"
    by blast+
  have dt: "distinct (map phys_addr_of_page (page_array t))"
    using d free(1) t by (simp add: comp_def)
  have ft: "page_array (phys_mem_free a t) = map touch us @ ?p # qs"
    using other a t dt by (auto simp: phys_mem_free_def Let_def free_loop_map intro!: map_idI)
  have nt: "free_page_list (phys_mem_free a t) \<noteq> NULL"
    using nn t by (simp add: phys_mem_free_def Let_def)
  have "\<forall>q \<in> set (map touch us). in_use q" using free(2) by simp
  from phys_mem_alloc_split [OF nt ft this p'(1)] p'(2)
  have "fst (phys_mem_alloc (phys_mem_free a t)) = a" by simp
  moreover have "used_of (phys_mem_free a t) = used_of s"
    using p'(1) free unfolding used_of_alt ft by (simp add: filter_map comp_def image_image)
  ultimately show ?thesis by simp
qed

theorem alloc_free_roundtrip_witness:
  "used_of (phys_mem_free 0x2000 (snd (phys_mem_alloc three_frames))) = used_of three_frames"
proof -
  have a: "phys_mem_alloc three_frames = (0x2000, snd (phys_mem_alloc three_frames))"
    by (simp add: phys_mem_alloc_def phys_addr_of_first_free_page_def retag_free_page_list_def three_frames_def)
  have "\<forall>p \<in> set (page_array three_frames). \<not> in_use p \<longrightarrow> reference_count p = 0"
    by (simp add: three_frames_def)
  from alloc_free_roundtrip [OF three_frames_wf this a] show ?thesis by simp
qed

subsection \<open>Freeing and reference counts\<close>

lemma phys_mem_free_tagged:
  assumes "pages_wf s"
  shows "page_array (phys_mem_free (a OR KERNBASE) s) = page_array s"
proof -
  have "a OR KERNBASE \<notin> phys_addr_of_page ` set (page_array s)"
  proof
    assume "a OR KERNBASE \<in> phys_addr_of_page ` set (page_array s)"
    with assms have "frame_addr (a OR KERNBASE)" by (auto simp: pages_wf_def)
    then have "a OR KERNBASE < 0x80000000" by (simp add: frame_addr_def)
    moreover have "KERNBASE \<le> a OR KERNBASE"
      using le_word_or2 [of KERNBASE a] by (simp add: or.commute)
    ultimately have "KERNBASE < 0x80000000" by (rule le_less_trans [rotated])
    then show False by (simp add: KERNBASE_def)
  qed
  then show ?thesis by (simp add: phys_mem_free_def Let_def free_loop_no_match)
qed

text \<open>
  Freeing by a kernel virtual address (the physical address with the kernel base or-ed in, which
  is what most callers pass) changes no descriptor: the frame stays in use for ever.
\<close>

theorem phys_mem_free_kernel_address_leaks:
  assumes "pages_wf s"
  shows "page_array (phys_mem_free (a OR KERNBASE) s) = page_array s"
  using assms by (rule phys_mem_free_tagged)

theorem phys_mem_free_kernel_address_leaks_witness:
  "page_array (phys_mem_free (0x1000 OR KERNBASE) three_frames) = page_array three_frames"
  by (rule phys_mem_free_kernel_address_leaks [OF three_frames_wf])

text \<open>
  Freeing a frame in use drops one reference; the frame becomes available exactly when that was
  the last one. A frame in use with no reference recorded, as the frames reserved at boot have, is
  not released: its count wraps around to the largest value.
\<close>

theorem phys_mem_free_reference:
  assumes "pages_wf s" and "p \<in> set (page_array s)" and "in_use p"
  shows "\<exists>p' \<in> set (page_array (phys_mem_free (phys_addr_of_page p) s)).
      phys_addr_of_page p' = phys_addr_of_page p \<and>
      unat (reference_count p') =
        (if reference_count p = 0 then 2 ^ 32 - 1 else unat (reference_count p) - 1) \<and>
      (in_use p' \<longleftrightarrow> reference_count p \<noteq> 1)"
proof -
  have "distinct (map phys_addr_of_page (page_array s))"
    using assms(1) by (simp add: pages_wf_def)
  then have "drop_frame p \<in> set (page_array (phys_mem_free (phys_addr_of_page p) s))"
    using assms(2) by (force simp: phys_mem_free_def Let_def free_loop_map)
  moreover have "unat (reference_count p - 1) =
      (if reference_count p = 0 then 2 ^ 32 - 1 else unat (reference_count p) - 1)"
    by (simp add: unat_minus_one unsigned_minus_1_eq_mask mask_eq_exp_minus_1)
  ultimately show ?thesis
    using assms(3) by (intro bexI [of _ "drop_frame p"]) (auto simp: drop_frame_def)
qed

theorem phys_mem_free_reference_witness:
  "\<exists>p' \<in> set (page_array (phys_mem_free 0x1000 three_frames)). phys_addr_of_page p' = 0x1000 \<and> \<not> in_use p'"
proof -
  have "page_array three_frames ! 0 \<in> set (page_array three_frames)" "in_use (page_array three_frames ! 0)"
    by (simp_all add: three_frames_def)
  from phys_mem_free_reference [OF three_frames_wf this]
  have "\<exists>p' \<in> set (page_array (phys_mem_free (phys_addr_of_page (page_array three_frames ! 0)) three_frames)).
      phys_addr_of_page p' = phys_addr_of_page (page_array three_frames ! 0) \<and>
      (in_use p' \<longleftrightarrow> reference_count (page_array three_frames ! 0) \<noteq> 1)" by blast
  moreover have "phys_addr_of_page (page_array three_frames ! 0) = 0x1000"
    "reference_count (page_array three_frames ! 0) = 1" by (simp_all add: three_frames_def)
  ultimately show ?thesis by simp
qed

subsection \<open>Blocks of pages\<close>

lemma set_free_page_list_Ok:
  "i < length (page_array s) \<Longrightarrow> i < 2 ^ 64 \<Longrightarrow> set_free_page_list (of_nat i) s =
    Ok ((), s\<lparr>page_array := (page_array s)[i := (page_array s ! i)\<lparr>is_free_page := 1\<rparr>]\<rparr>)"
  by (simp add: set_free_page_list_def unat_of_nat take_bit_nat_eq_self)

text \<open>Marking the frames \<open>j, ..., j + m - 1\<close> one after the other.\<close>

lemma mark_frames:
  assumes "j + m \<le> length (page_array s)" and "length (page_array s) < 2 ^ 64"
  shows "for_each [0..<m] (\<lambda>k. set_free_page_list (of_nat j + of_nat k)) s =
    Ok ((), s\<lparr>page_array := take j (page_array s) @
      map (is_free_page_update (\<lambda>_. 1)) (take m (drop j (page_array s))) @ drop (j + m) (page_array s)\<rparr>)"
  using assms
proof (induction m)
  case 0
  then show ?case by simp
next
  case (Suc m)
  let ?ps = "page_array s"
  let ?t = "s\<lparr>page_array := take j ?ps @ map (is_free_page_update (\<lambda>_. 1)) (take m (drop j ?ps)) @ drop (j + m) ?ps\<rparr>"
  have IH: "for_each [0..<m] (\<lambda>k. set_free_page_list (of_nat j + of_nat k)) s = Ok ((), ?t)"
    using Suc by simp
  have len: "length (page_array ?t) = length ?ps" using Suc.prems by simp
  have nth: "page_array ?t ! (j + m) = ?ps ! (j + m)"
    using Suc.prems by (simp add: nth_append)
  have "set_free_page_list (of_nat (j + m)) ?t =
      Ok ((), ?t\<lparr>page_array := (page_array ?t)[j + m := (page_array ?t ! (j + m))\<lparr>is_free_page := 1\<rparr>]\<rparr>)"
    using Suc.prems len by (intro set_free_page_list_Ok) simp_all
  also have "(page_array ?t)[j + m := (page_array ?t ! (j + m))\<lparr>is_free_page := 1\<rparr>] =
      take j ?ps @ map (is_free_page_update (\<lambda>_. 1)) (take (Suc m) (drop j ?ps)) @ drop (j + Suc m) ?ps"
    unfolding nth using Suc.prems
    by (simp add: list_update_append take_Suc_conv_app_nth Cons_nth_drop_Suc [of "j + m" ?ps, symmetric])
  finally show ?case using IH by (simp add: for_each_append bnd_Ok)
qed

lemma first_free_index:
  assumes "page_array s = us @ p # ps" and "\<forall>q \<in> set us. in_use q" and "\<not> in_use p"
    and "free_page_list s \<noteq> NULL"
  shows "get_index_of_first_free_page s = (of_nat (length us), s)"
  using assms by (simp add: get_index_of_first_free_page_def Let_def takeWhile_append)

text \<open>
  \<open>phys_mem_alloc_more\<close> marks one frame fewer than it is asked for: after a request for \<open>n\<close>
  pages out of a run of \<open>n\<close> free frames, the last frame of the block is still free and is what the
  next allocation returns.
\<close>

theorem phys_mem_alloc_more_last_frame_free:
  assumes "free_page_list s \<noteq> NULL" and "page_array s = us @ fs @ ps"
    and "\<forall>q \<in> set us. in_use q" and "\<forall>q \<in> set fs. \<not> in_use q"
    and "fs \<noteq> []" and "length (page_array s) < 2 ^ 31"
  shows "\<exists>t. phys_mem_alloc_more (int (length fs)) s = Ok (phys_addr_of_page (hd fs), t) \<and>
    fst (phys_mem_alloc t) = phys_addr_of_page (last fs)"
proof -
  obtain f gs where fs: "fs = f # gs" using assms(5) by (cases fs) auto
  let ?r = "retag_free_page_list s"
  have ix: "get_index_of_first_free_page ?r = (of_nat (length us), ?r)"
    using assms(1-4) fs by (intro first_free_index [where p = f and ps = "gs @ ps"]) simp_all
  have "length us < 2 ^ 31" using assms(2,6) by simp
  then have sx: "scast (of_nat (length us) :: u32) = (of_nat (length us) :: u64)"
    by (rule scast_of_nat_small)
  have ux: "unat (of_nat (length us) :: u64) = length us"
    using assms(2,6) by (simp add: unat_of_nat take_bit_nat_eq_self)
  let ?m = "nat (int (length fs) - 1)"
  have m: "?m = length gs" using fs by simp
  let ?t = "?r\<lparr>page_array := us @ map (is_free_page_update (\<lambda>_. 1)) (butlast fs) @ last fs # ps\<rparr>"
  have "take ?m (fs @ ps) = butlast fs" "drop ?m (fs @ ps) = last fs # ps"
    unfolding m by (simp_all only: fs split_at_last)
  moreover have "length us + ?m \<le> length (page_array ?r)" using assms(2) m fs by simp
  ultimately have "for_each [0..<?m] (\<lambda>k. set_free_page_list (of_nat (length us) + of_nat k)) ?r = Ok ((), ?t)"
    using mark_frames [of "length us" ?m ?r] assms(2,6) by simp
  moreover have "(us @ fs @ ps) ! length us = hd fs" using fs by simp
  ultimately have run: "phys_mem_alloc_more (int (length fs)) s = Ok (phys_addr_of_page (hd fs), ?t)"
    using ix sx ux assms(2,5) by (simp add: phys_mem_alloc_more_def bnd_Ok)
  have "fst (phys_mem_alloc ?t) = phys_addr_of_page (last fs)"
    using assms by (subst phys_mem_alloc_split [where us = "us @ map (is_free_page_update (\<lambda>_. 1)) (butlast fs)"
        and p = "last fs" and ps = ps]) auto
  with run show ?thesis by blast
qed

theorem phys_mem_alloc_more_last_frame_free_witness:
  "\<exists>t. phys_mem_alloc_more 2 three_frames = Ok (0x2000, t) \<and> fst (phys_mem_alloc t) = 0x3000"
proof -
  let ?ps = "page_array three_frames"
  have "free_page_list three_frames \<noteq> NULL" "?ps = [?ps ! 0] @ [?ps ! 1, ?ps ! 2] @ []"
    "\<forall>q \<in> set [?ps ! 0]. in_use q" "\<forall>q \<in> set [?ps ! 1, ?ps ! 2]. \<not> in_use q"
    "[?ps ! 1, ?ps ! 2] \<noteq> []" "length ?ps < 2 ^ 31"
    by (simp_all add: three_frames_def)
  from phys_mem_alloc_more_last_frame_free [OF this] show ?thesis
    by (simp add: three_frames_def)
qed

subsection \<open>The descriptor array at boot\<close>

lemma reserved_pages_eq: "n \<le> 2 ^ 19 \<Longrightarrow> nat (reserved_pages n) = n * 16 div 4096"
proof -
  assume "n \<le> 2 ^ 19"
  then have "sint (of_nat (n * 16) :: u32) = int (n * 16)"
    by (intro sint_of_nat_small) simp
  then have "reserved_pages n = int (n * 16 div 4096)"
    by (simp only: reserved_pages_def zdiv_int of_nat_numeral)
      (cases "n = 0", simp_all add: signed_divide_int_def sgn_mult)
  then show ?thesis by simp
qed

definition boot_array :: "u64 \<Rightarrow> nat \<Rightarrow> page list" where
  "boot_array base n =
     map (\<lambda>i. \<lparr>phys_addr_of_page = base + of_nat i * PAGE_BLOCK_SIZE, reference_count = 0,
               is_free_page = (if i < n * 16 div 4096 then 1 else 0)\<rparr>) [0..<n]"

lemma initialize_free_list_Ok:
  assumes "n \<le> 2 ^ 19"
  shows "initialize_free_list base n s =
    Ok ((), s\<lparr>free_page_list := base, page_array := boot_array base n\<rparr>)"
proof -
  let ?ps = "map (\<lambda>i. \<lparr>phys_addr_of_page = base + of_nat i * PAGE_BLOCK_SIZE,
                     reference_count = 0, is_free_page = 0\<rparr>) [0..<n]"
  let ?s = "s\<lparr>free_page_list := base, page_array := ?ps\<rparr>"
  let ?m = "n * 16 div 4096"
  have "for_each [0..<?m] (\<lambda>k. set_free_page_list (of_nat k)) ?s =
      Ok ((), ?s\<lparr>page_array := map (is_free_page_update (\<lambda>_. 1)) (take ?m ?ps) @ drop ?m ?ps\<rparr>)"
    using mark_frames [of 0 ?m ?s] assms by simp
  moreover have "map (is_free_page_update (\<lambda>_. 1)) (take ?m ?ps) @ drop ?m ?ps = boot_array base n"
    by (rule nth_equalityI) (auto simp: boot_array_def nth_append)
  ultimately show ?thesis
    using assms by (simp add: initialize_free_list_def reserved_pages_eq)
qed

lemma define_free_list_Ok:
  assumes "base = phys_start + 0x1000" and "n = unat ((phys_end - base) div PAGE_BLOCK_SIZE)"
    and "n \<le> 2 ^ 19"
  shows "define_free_list phys_start phys_end s =
    Ok ((), s\<lparr>free_page_list := base, page_array := boot_array base n\<rparr>)"
proof -
  have "n < 2 ^ 31" using assms(3) by simp
  with initialize_free_list_Ok [OF assms(3)] show ?thesis
    unfolding define_free_list_def Let_def assms(1) [symmetric] assms(2) [symmetric] by simp
qed

lemma boot_addr:
  assumes "base AND 0xFFF = 0" and "base \<noteq> 0" and "unat base + n * 4096 \<le> 2 ^ 31" and "i < n"
  shows "unat (base + of_nat i * PAGE_BLOCK_SIZE) = unat base + i * 4096"
    and "frame_addr (base + of_nat i * PAGE_BLOCK_SIZE)"
proof -
  have i: "i * 4096 < 2 ^ 31" "unat base + i * 4096 < 2 ^ 31" using assms(3,4) by linarith+
  have "unat (of_nat i * PAGE_BLOCK_SIZE) = i * 4096"
    using i by (simp add: PAGE_BLOCK_SIZE_def unat_word_ariths unat_of_nat take_bit_nat_eq_self)
  then show u: "unat (base + of_nat i * PAGE_BLOCK_SIZE) = unat base + i * 4096"
    using i by (simp add: unat_word_ariths)
  have "4096 dvd unat base"
    using assms(1) by (simp only: page_aligned_iff)
  then have "4096 dvd unat (base + of_nat i * PAGE_BLOCK_SIZE)" unfolding u by simp
  then have "(base + of_nat i * PAGE_BLOCK_SIZE) AND 0xFFF = 0" by (simp only: page_aligned_iff)
  moreover have "base + of_nat i * PAGE_BLOCK_SIZE < 0x80000000"
    using u i by (simp add: word_less_nat_alt)
  moreover have "base + of_nat i * PAGE_BLOCK_SIZE \<noteq> 0"
    using u assms(2) by (metis add_is_0 unat_eq_zero unsigned_0)
  ultimately show "frame_addr (base + of_nat i * PAGE_BLOCK_SIZE)" by (simp add: frame_addr_def)
qed

text \<open>
  \<open>define_free_list\<close> leaves a well-formed allocator: one descriptor for each page-sized frame of
  the range, in address order, with the frames the array was taken to need marked in use.
\<close>

theorem define_free_list_wf:
  assumes "base = phys_start + 0x1000" and "n = unat ((phys_end - base) div PAGE_BLOCK_SIZE)"
    and "base AND 0xFFF = 0" and "base \<noteq> 0" and "unat base + n * 4096 \<le> 2 ^ 31"
  shows "\<exists>t. define_free_list phys_start phys_end s = Ok ((), t) \<and> pages_wf t \<and>
    length (page_array t) = n \<and>
    (\<forall>i < n. unat (phys_addr_of_page (page_array t ! i)) = unat base + i * 4096 \<and>
      (in_use (page_array t ! i) \<longleftrightarrow> i < n * 16 div 4096))"
proof -
  have n: "n \<le> 2 ^ 19" using assms(5) by simp
  let ?t = "s\<lparr>free_page_list := base, page_array := boot_array base n\<rparr>"
  have "define_free_list phys_start phys_end s = Ok ((), ?t)"
    using assms(1,2) n by (rule define_free_list_Ok)
  moreover note addr = boot_addr [OF assms(3,4,5)]
  have inj: "inj_on (\<lambda>i. base + of_nat i * PAGE_BLOCK_SIZE) {0..<n}"
  proof (rule inj_onI)
    fix i j assume ij: "i \<in> {0..<n}" "j \<in> {0..<n}"
      and eq: "base + of_nat i * PAGE_BLOCK_SIZE = base + of_nat j * PAGE_BLOCK_SIZE"
    have "unat base + i * 4096 = unat base + j * 4096"
      using addr(1) [of i] addr(1) [of j] ij eq by (metis atLeastLessThan_iff)
    then show "i = j" by simp
  qed
  have "pages_wf ?t"
    unfolding pages_wf_def using assms(4) addr(2) inj
    by (auto simp: boot_array_def distinct_map comp_def)
  moreover have "\<forall>i < n. unat (phys_addr_of_page (boot_array base n ! i)) = unat base + i * 4096"
    by (simp add: boot_array_def addr(1))
  ultimately show ?thesis by (intro exI [of _ ?t]) (simp add: boot_array_def)
qed

theorem define_free_list_wf_witness:
  "\<exists>t. define_free_list 0x1000 0x4000 three_frames = Ok ((), t) \<and> pages_wf t \<and> length (page_array t) = 2"
proof -
  have "(0x2000 :: u64) = 0x1000 + 0x1000" "2 = unat ((0x4000 - 0x2000 :: u64) div PAGE_BLOCK_SIZE)"
    "(0x2000 :: u64) AND 0xFFF = 0" "(0x2000 :: u64) \<noteq> 0" "unat (0x2000 :: u64) + 2 * 4096 \<le> 2 ^ 31"
    by (simp_all add: PAGE_BLOCK_SIZE_def)
  from define_free_list_wf [OF this, of three_frames] show ?thesis by blast
qed

text \<open>
  The number of frames reserved for the array is rounded down. Unless the number of frames is a
  multiple of 256, the first allocation after \<open>define_free_list\<close> returns a frame that still holds
  descriptors.
\<close>

theorem first_allocation_overlaps_descriptors:
  assumes "base = phys_start + 0x1000" and "n = unat ((phys_end - base) div PAGE_BLOCK_SIZE)"
    and "base AND 0xFFF = 0" and "base \<noteq> 0" and "unat base + n * 4096 \<le> 2 ^ 31" and "0 < n"
  shows "\<exists>t a. define_free_list phys_start phys_end s = Ok ((), t) \<and> fst (phys_mem_alloc t) = a \<and>
    unat base \<le> unat a \<and> (unat a < unat base + n * 16 \<longleftrightarrow> \<not> 256 dvd n)"
proof -
  have n: "n \<le> 2 ^ 19" using assms(5) by simp
  let ?t = "s\<lparr>free_page_list := base, page_array := boot_array base n\<rparr>"
  let ?m = "n * 16 div 4096"
  have m: "?m < n" using assms(6) by simp
  have run: "define_free_list phys_start phys_end s = Ok ((), ?t)"
    using assms(1,2) n by (rule define_free_list_Ok)
  have "?m < length (boot_array base n)" using m by (simp add: boot_array_def)
  then have arr: "boot_array base n = take ?m (boot_array base n) @ boot_array base n ! ?m # drop (Suc ?m) (boot_array base n)"
    by (rule id_take_nth_drop)
  have split: "page_array ?t = take ?m (boot_array base n) @ boot_array base n ! ?m # drop (Suc ?m) (boot_array base n)"
    by (rule trans [OF _ arr]) simp
  have "fst (phys_mem_alloc ?t) = phys_addr_of_page (boot_array base n ! ?m)"
    by (subst phys_mem_alloc_split [OF _ split])
      (use assms(4) m in \<open>auto simp: boot_array_def in_set_conv_nth\<close>)
  also have "\<dots> = base + of_nat ?m * PAGE_BLOCK_SIZE" using m by (simp add: boot_array_def)
  finally have a: "unat (fst (phys_mem_alloc ?t)) = unat base + ?m * 4096"
    using boot_addr(1) [OF assms(3,4,5) m] by simp
  have "?m * 4096 < n * 16 \<longleftrightarrow> \<not> 256 dvd n"
  proof -
    have "?m = n div 256" by simp
    then show ?thesis
      unfolding dvd_eq_mod_eq_0 neq0_conv using mult_div_mod_eq [of 256 n] by linarith
  qed
  with run a show ?thesis by (intro exI [of _ ?t] exI) auto
qed

theorem first_allocation_overlaps_descriptors_witness:
  "\<exists>t a. define_free_list 0x1000 0x4000 three_frames = Ok ((), t) \<and> fst (phys_mem_alloc t) = a \<and>
     unat a < unat (0x2000 :: u64) + 2 * 16"
proof -
  have "(0x2000 :: u64) = 0x1000 + 0x1000" "2 = unat ((0x4000 - 0x2000 :: u64) div PAGE_BLOCK_SIZE)"
    "(0x2000 :: u64) AND 0xFFF = 0" "(0x2000 :: u64) \<noteq> 0" "unat (0x2000 :: u64) + 2 * 4096 \<le> 2 ^ 31"
    "(0 :: nat) < 2"
    by (simp_all add: PAGE_BLOCK_SIZE_def)
  from first_allocation_overlaps_descriptors [OF this, of three_frames] show ?thesis
    by (auto simp: nat_dvd_not_less)
qed

end
