(* ===== verification/Util.thy ===== *)
theory Util
  imports Phys_Mmgr
begin

text \<open>
  The utility functions of \<^verbatim>\<open>sys/util.c\<close>: page arithmetic, and the string and memory functions,
  which read and write a byte memory through pointers. The theory adds that memory, the static
  variables of the tokenizer and the process-id counter to the kernel state.
\<close>

section \<open>State\<close>

record util_state = phys_state +
  kmem :: "ptr \<Rightarrow> u8"
  nextS :: ptr
  strtok_done :: u32
  last_pid :: u32

section \<open>Page arithmetic\<close>

text \<open>The names and the effects are exchanged in the source: \<open>page_round_up\<close> clears the offset bits.\<close>

definition page_round_up :: "u64 \<Rightarrow> u64" where
  "page_round_up addr = (if addr < 4096 then addr else addr AND NOT 0xFFF)"

definition page_round_down :: "u64 \<Rightarrow> u64" where
  "page_round_down addr = (addr + 0xFFF) AND NOT 0xFFF"

definition page_mask :: "u64 \<Rightarrow> u64" where
  "page_mask addr = addr AND NOT (PAGE_BLOCK_SIZE - 1)"

section \<open>Bytes in memory\<close>

definition load :: "ptr \<Rightarrow> ('z util_state_scheme, u8) kop" where
  "load p = deref p (gets (\<lambda>s. kmem s p))"

definition store :: "ptr \<Rightarrow> u8 \<Rightarrow> ('z util_state_scheme, unit) kop" where
  "store p b = deref p (modify (\<lambda>s. s\<lparr>kmem := (kmem s)(p := b)\<rparr>))"

text \<open>\<open>*c - '0'\<close> is an \<^verbatim>\<open>int\<close>, sign-extended when it is added to the 64-bit sum.\<close>

definition oct2dec :: "ptr \<Rightarrow> u8 \<Rightarrow> ('z util_state_scheme, u64) kop" where
  "oct2dec data sz =
     loopM (\<lambda>(sz, n, c).
       if sz = (0 :: u8) then ret (Inr n)
       else bnd (load c) (\<lambda>b. ret (Inl (sz - 1, n * 8 + (ucast b - 48), c + 1))))
     (sz, 0, data)"

text \<open>The differences of the bytes are added up in an \<^verbatim>\<open>int\<close>.\<close>

definition my_memcmp :: "ptr \<Rightarrow> ptr \<Rightarrow> int \<Rightarrow> ('z util_state_scheme, int) kop" where
  "my_memcmp s1 s2 n =
     loopM (\<lambda>(n, diff, t1, t2).
       if 0 < n then
         bnd (load t1) (\<lambda>a. bnd (load t2) (\<lambda>b.
           ret (Inl (n - 1, diff + ((uint a - 48) - (uint b - 48)), t1 + 1, t2 + 1))))
       else ret (Inr diff))
     (n, 0, s1, s2)"

text \<open>
  The loop index of \<open>my_memset\<close> is an \<^verbatim>\<open>int\<close>, compared with an unsigned 64-bit length; the byte
  stored last, behind the \<open>n\<close> bytes, is the statement after the loop.
\<close>

definition my_memset :: "ptr \<Rightarrow> u8 \<Rightarrow> u64 \<Rightarrow> ('z util_state_scheme, unit) kop" where
  "my_memset p c n =
     (if n = 0 \<or> p = NULL then ret ()
      else if 2 ^ 31 \<le> unat n then fail SignedOverflow
      else bnd (for_each [0..<unat n] (\<lambda>i. store (p + of_nat i) c)) (\<lambda>_. store (p + n) 0))"

definition my_strlen :: "ptr \<Rightarrow> ('z util_state_scheme, u32) kop" where
  "my_strlen p =
     loopM (\<lambda>i. bnd (load (p + ucast i)) (\<lambda>b.
       if b = 0 then ret (Inr i)
       else if i = 0x7FFFFFFF then fail SignedOverflow
       else ret (Inl (i + 1)))) (0 :: u32)"

definition my_memcpy :: "ptr \<Rightarrow> ptr \<Rightarrow> int \<Rightarrow> ('z util_state_scheme, unit) kop" where
  "my_memcpy dest src n =
     for_each [0..<nat n] (\<lambda>i. bnd (load (src + of_nat i)) (\<lambda>b. store (dest + of_nat i) b))"

definition my_strcpy :: "ptr \<Rightarrow> ptr \<Rightarrow> ('z util_state_scheme, unit) kop" where
  "my_strcpy s t =
     bnd (loopM (\<lambda>(s, t). bnd (load t) (\<lambda>b.
            if b = 0 then ret (Inr s) else bnd (store s b) (\<lambda>_. ret (Inl (s + 1, t + 1))))) (s, t))
       (\<lambda>s. store s 0)"

text \<open>\<open>c\<close> is a character of the caller, so the comparison is one of bytes.\<close>

definition my_strchr :: "ptr \<Rightarrow> u8 \<Rightarrow> ('z util_state_scheme, ptr) kop" where
  "my_strchr cs c =
     (if cs = NULL then ret NULL
      else loopM (\<lambda>p. bnd (load p) (\<lambda>b.
        if b = 0 then ret (Inr NULL) else if b = c then ret (Inr p) else ret (Inl (p + 1)))) cs)"

text \<open>The scan shared by the two halves of \<open>my_strtok\<close>: \<open>nextS\<close> moves to the next delimiter or the end.\<close>

definition strtok_scan :: "ptr \<Rightarrow> ('z util_state_scheme, unit) kop" where
  "strtok_scan ct =
     bnd (loopM (\<lambda>_ :: unit. bnd (gets nextS) (\<lambda>q. bnd (load q) (\<lambda>b. bnd (my_strchr ct b) (\<lambda>r.
            if r = NULL \<and> b \<noteq> 0 then bnd (modify (\<lambda>s. s\<lparr>nextS := q + 1\<rparr>)) (\<lambda>_. ret (Inl ()))
            else ret (Inr ()))))) ()) (\<lambda>_.
     bnd (gets nextS) (\<lambda>q. bnd (load q) (\<lambda>b.
     bnd (modify (\<lambda>s. s\<lparr>strtok_done := (if b = 0 then 1 else 0)\<rparr>)) (\<lambda>_. store q 0))))"

definition my_strtok :: "ptr \<Rightarrow> ptr \<Rightarrow> ('z util_state_scheme, ptr) kop" where
  "my_strtok p ct =
     (if p \<noteq> NULL then
        bnd (load p) (\<lambda>b.
          if b = 0 then bnd (modify (\<lambda>s. s\<lparr>strtok_done := 1\<rparr>)) (\<lambda>_. ret NULL)
          else bnd (modify (\<lambda>s. s\<lparr>nextS := p\<rparr>)) (\<lambda>_. bnd (strtok_scan ct) (\<lambda>_. ret p)))
      else
        bnd (gets strtok_done) (\<lambda>d.
          if d \<noteq> 0 then ret NULL
          else bnd (modify (\<lambda>s. s\<lparr>nextS := nextS s + 1\<rparr>)) (\<lambda>_.
               bnd (gets nextS) (\<lambda>q. bnd (strtok_scan ct) (\<lambda>_. ret q)))))"

text \<open>The copy loops of \<open>my_strcat\<close>: from \<open>src\<close> to position \<open>i\<close> of the new string.\<close>

definition strcat_copy :: "ptr \<Rightarrow> ptr \<Rightarrow> ('z util_state_scheme, ptr) kop" where
  "strcat_copy d src =
     loopM (\<lambda>(d, p). bnd (load p) (\<lambda>b.
       if b = 0 then ret (Inr d) else bnd (store d b) (\<lambda>_. ret (Inl (d + 1, p + 1))))) (d, src)"

definition my_strcat :: "ptr \<Rightarrow> ptr \<Rightarrow> ('z util_state_scheme, ptr) kop" where
  "my_strcat dest src =
     bnd (call phys_mem_alloc) (\<lambda>a.
     let newS = a OR KERNBASE in
     bnd (strcat_copy newS dest) (\<lambda>d.
     bnd (strcat_copy d src) (\<lambda>e.
     bnd (store e 0) (\<lambda>_. ret newS))))"

text \<open>The counter has 32 bits, the returned process id 16.\<close>

definition get_pid :: "('z util_state_scheme, u16) kop" where
  "get_pid = bnd (modify (\<lambda>s. s\<lparr>last_pid := last_pid s + 1\<rparr>)) (\<lambda>_. gets (\<lambda>s. ucast (last_pid s)))"

text \<open>\<open>itoa\<close> stores the digits in a freshly allocated page and returns its kernel address.\<close>

definition itoa :: "u32 \<Rightarrow> ('z util_state_scheme, ptr) kop" where
  "itoa i =
     bnd (call phys_mem_alloc) (\<lambda>a.
     let p = a OR KERNBASE in
     case itoa_chars i of
       Ok ds \<Rightarrow> bnd (for_each [0..<length ds] (\<lambda>k. store (p + of_nat k) (ds ! k)))
                  (\<lambda>_. bnd (store (p + of_nat (length ds)) 0) (\<lambda>_. ret p))
     | Fault e \<Rightarrow> fail e
     | Diverge \<Rightarrow> (\<lambda>s. Diverge))"

section \<open>A concrete memory\<close>

text \<open>A state with a given memory and all pages in use, for instances of the properties.\<close>

definition memory_state :: "(ptr \<Rightarrow> u8) \<Rightarrow> util_state" where
  "memory_state m =
     \<lparr>x_pos = 0, y_pos = 0, vgamemory = 0, vga = (\<lambda>_. 0), color = 0x0A, is_paging = 1,
      free_page_list = 0x1000, page_array = [], tarfs_sb = 0, dentry_cache_array = 0,
      kmem = m, nextS = 0, strtok_done = 1, last_pid = 0\<rparr>"

lemma kmem_memory_state [simp]: "kmem (memory_state m) = m"
  by (simp add: memory_state_def)

text \<open>The bytes \<open>cs\<close> and a NUL from address \<open>p\<close> on, and zero elsewhere.\<close>

definition text_at :: "ptr \<Rightarrow> string \<Rightarrow> ptr \<Rightarrow> u8" where
  "text_at p cs = (\<lambda>a. if unat (a - p) < length cs then ch (cs ! unat (a - p)) else 0)"

section \<open>Contracts of the byte loops\<close>

lemma kmem_unchanged [simp]: "s\<lparr>kmem := kmem s\<rparr> = (s :: 'z util_state_scheme)"
  by simp

text \<open>Addresses \<open>p, ..., p + n - 1\<close> that neither wrap around nor include the null pointer.\<close>

definition valid_range :: "ptr \<Rightarrow> nat \<Rightarrow> bool" where
  "valid_range p n \<longleftrightarrow> p \<noteq> 0 \<and> unat p + n \<le> 2 ^ 64"

lemma valid_range_nonnull: "valid_range p n \<Longrightarrow> i < n \<Longrightarrow> p + of_nat i \<noteq> 0"
proof
  assume v: "valid_range p n" and "i < n" and z: "p + of_nat i = 0"
  then have "unat (p + of_nat i) = unat p + i"
    by (intro unat_add_of_nat) (simp add: valid_range_def)
  with z v show False
    by (simp add: valid_range_def unat_eq_zero)
qed

lemma valid_range_mono: "valid_range p n \<Longrightarrow> m \<le> n \<Longrightarrow> valid_range p m"
  by (simp add: valid_range_def)

text \<open>Memory after \<open>f 0, ..., f (n - 1)\<close> have been stored from \<open>p\<close> on.\<close>

definition fill :: "(ptr \<Rightarrow> u8) \<Rightarrow> ptr \<Rightarrow> nat \<Rightarrow> (nat \<Rightarrow> u8) \<Rightarrow> ptr \<Rightarrow> u8" where
  "fill m p n f = (\<lambda>a. if unat (a - p) < n then f (unat (a - p)) else m a)"

lemma fill_0 [simp]: "fill m p 0 f = m"
  by (simp add: fill_def)

lemma fill_at: "i < n \<Longrightarrow> n \<le> 2 ^ 64 \<Longrightarrow> fill m p n f (p + of_nat i) = f i"
  by (simp add: fill_def unat_of_nat take_bit_nat_eq_self)

lemma fill_outside: "n \<le> unat (a - p) \<Longrightarrow> fill m p n f a = m a"
  by (simp add: fill_def)

lemma fill_Suc: "n < 2 ^ 64 \<Longrightarrow> (fill m p n f)(p + of_nat n := f n) = fill m p (Suc n) f"
proof
  fix a assume n: "n < 2 ^ 64"
  have "unat (a - p) = n \<longleftrightarrow> a = p + of_nat n"
  proof
    assume "unat (a - p) = n"
    then have "a - p = of_nat n" by auto
    then show "a = p + of_nat n" by (simp add: algebra_simps)
  qed (use n in \<open>simp add: unat_of_nat take_bit_nat_eq_self\<close>)
  then show "((fill m p n f)(p + of_nat n := f n)) a = fill m p (Suc n) f a"
    using n by (auto simp: fill_def less_Suc_eq unat_of_nat take_bit_nat_eq_self)
qed

lemma store_range:
  assumes "valid_range p n"
  shows "for_each [0..<n] (\<lambda>i. store (p + of_nat i) (f i)) s = Ok ((), s\<lparr>kmem := fill (kmem s) p n f\<rparr>)"
  using assms
proof (induction n)
  case 0
  then show ?case by simp
next
  case (Suc n)
  then have "n < 2 ^ 64" by (auto simp: valid_range_def)
  moreover have "p + of_nat n \<noteq> 0" using Suc.prems by (rule valid_range_nonnull) simp
  ultimately show ?case
    using Suc valid_range_mono [OF Suc.prems, of n]
    by (simp add: for_each_append bnd_Ok store_def fill_Suc)
qed

lemma my_memset_run:
  assumes "valid_range p (unat n + 1)" and "0 < unat n" and "unat n < 2 ^ 31"
  shows "my_memset p c n s = Ok ((), s\<lparr>kmem := (fill (kmem s) p (unat n) (\<lambda>_. c))(p + n := 0)\<rparr>)"
proof -
  have "p + of_nat (unat n) \<noteq> 0" using assms(1) by (rule valid_range_nonnull) simp
  then have pn: "p + n \<noteq> 0" by simp
  have n: "\<not> (n = 0 \<or> p = NULL)" "\<not> 2 ^ 31 \<le> unat n"
    using assms by (auto simp: valid_range_def)
  have "valid_range p (unat n)" using assms(1) by (rule valid_range_mono) simp
  from store_range [OF this, of "\<lambda>_. c" s] show ?thesis
    unfolding my_memset_def if_not_P [OF n(1)] if_not_P [OF n(2)]
    by (simp add: bnd_Ok store_def pn)
qed

text \<open>
  \<open>my_memset\<close> fills the \<open>n\<close> bytes at \<open>p\<close>, and then writes a NUL byte behind them; nothing else
  changes. Every caller that clears a whole page therefore also clears the first byte of the next.
\<close>

theorem my_memset_effect:
  assumes "valid_range p (unat n + 1)" and "0 < unat n" and "unat n < 2 ^ 31"
  shows "\<exists>t. my_memset p c n s = Ok ((), t) \<and>
    (\<forall>i < unat n. kmem t (p + of_nat i) = c) \<and> kmem t (p + n) = 0 \<and>
    (\<forall>a. unat n < unat (a - p) \<longrightarrow> kmem t a = kmem s a)"
proof -
  have "p + of_nat i \<noteq> p + n" if "i < unat n" for i
    using that assms(3) unat_of_nat_u64 [of i] by auto
  with my_memset_run [OF assms, of c s] show ?thesis
    using assms(3) by (auto simp: fill_at fill_outside)
qed

theorem my_memset_effect_witness:
  "\<exists>t. my_memset 0x100 7 2 (memory_state (\<lambda>_. 9)) = Ok ((), t) \<and> kmem t 0x102 = 0"
proof -
  have "valid_range 0x100 (unat (2 :: u64) + 1)" "0 < unat (2 :: u64)" "unat (2 :: u64) < 2 ^ 31"
    by (simp_all add: valid_range_def)
  from my_memset_effect [OF this, of 7 "memory_state (\<lambda>_. 9)"] show ?thesis by auto
qed

subsection \<open>Operations that write bytes only\<close>

definition bytes_only :: "('z util_state_scheme, 'a) kop \<Rightarrow> bool" where
  "bytes_only m \<longleftrightarrow> (\<forall>s r t. m s = Ok (r, t) \<longrightarrow> (\<exists>k. t = s\<lparr>kmem := k\<rparr>))"

lemma bytes_onlyD: "bytes_only m \<Longrightarrow> m s = Ok (r, t) \<Longrightarrow> \<exists>k. t = s\<lparr>kmem := k\<rparr>"
  by (simp add: bytes_only_def)

lemma bytes_only_bnd: "bytes_only m \<Longrightarrow> (\<And>x. bytes_only (f x)) \<Longrightarrow> bytes_only (bnd m f)"
  unfolding bytes_only_def bnd_eq_Ok_iff by fastforce

lemma kmem_same: "\<exists>k. s = s\<lparr>kmem := k\<rparr>"
  by (rule exI [of _ "kmem s"]) simp

lemma bytes_only_basic:
  "bytes_only (ret x)" "bytes_only (fail e)" "bytes_only (load p)" "bytes_only (store p b)"
  by (auto simp: bytes_only_def load_def store_def deref_def intro: kmem_same)

lemma bytes_only_for_each: "(\<And>x. bytes_only (f x)) \<Longrightarrow> bytes_only (for_each xs f)"
  by (induction xs) (auto intro: bytes_only_bnd bytes_only_basic)

lemma bytes_only_my_memset: "bytes_only (my_memset p c n)"
  unfolding my_memset_def by (auto intro!: bytes_only_bnd bytes_only_basic bytes_only_for_each)

lemma bytes_only_my_memcpy: "bytes_only (my_memcpy d p n)"
  unfolding my_memcpy_def by (auto intro!: bytes_only_bnd bytes_only_basic bytes_only_for_each)

lemma bytes_only_loop:
  assumes "\<And>c. bytes_only (body c)"
  shows "bytes_only (loopM body c)"
  unfolding bytes_only_def
proof (intro allI impI)
  fix s r t assume run: "loopM body c s = Ok (r, t)"
  let ?P = "\<lambda>v. \<forall>x u. v = Ok (x, u) \<longrightarrow> (\<exists>k. u = s\<lparr>kmem := k\<rparr>)"
  obtain v where w: "while_option loop_goes_on (loop_step body) (Ok (Inl c, s)) = Some v" and v: "v = Ok (Inr r, t)"
    using run by (auto simp: loopM_def split: option.splits outcome.splits sum.splits prod.splits)
  have step: "?P (loop_step body v)" if P: "?P v" and go: "loop_goes_on v" for v
  proof -
    obtain d u where v: "v = Ok (Inl d, u)"
      using go by (auto simp: loop_goes_on_def split: outcome.splits sum.splits)
    show ?thesis
    proof (intro allI impI)
      fix x u' assume "loop_step body v = Ok (x, u')"
      then have "body d u = Ok (x, u')" by (simp add: v loop_step_def)
      from bytes_onlyD [OF assms this] P v show "\<exists>k. u' = s\<lparr>kmem := k\<rparr>" by fastforce
    qed
  qed
  have "?P v"
    by (rule while_option_rule [where P = ?P, OF step w]) (auto intro: kmem_same)
  with v show "\<exists>k. t = s\<lparr>kmem := k\<rparr>" by blast
qed

section \<open>Strings\<close>

text \<open>\<open>cstr m p cs\<close>: the string at \<open>p\<close> is \<open>cs\<close>, followed by its NUL.\<close>

fun cstr :: "(ptr \<Rightarrow> u8) \<Rightarrow> ptr \<Rightarrow> bytes \<Rightarrow> bool" where
  "cstr m p [] \<longleftrightarrow> p \<noteq> 0 \<and> m p = 0"
| "cstr m p (c # cs) \<longleftrightarrow> p \<noteq> 0 \<and> c \<noteq> 0 \<and> m p = c \<and> cstr m (p + 1) cs"

lemma load_nonnull [simp]: "p \<noteq> 0 \<Longrightarrow> load p s = Ok (kmem s p, s)"
  by (simp add: load_def)

lemma bnd_load [simp]: "p \<noteq> 0 \<Longrightarrow> bnd (load p) f s = f (kmem s p) s"
  by (simp add: load_def)

lemma store_nonnull [simp]: "p \<noteq> 0 \<Longrightarrow> store p b s = Ok ((), s\<lparr>kmem := (kmem s)(p := b)\<rparr>)"
  by (simp add: store_def)

lemma bnd_store [simp]: "p \<noteq> 0 \<Longrightarrow> bnd (store p b) f s = f () (s\<lparr>kmem := (kmem s)(p := b)\<rparr>)"
  by (simp add: store_def)

lemma my_strlen_run:
  assumes "cstr (kmem s) p cs" and "length cs < 2 ^ 31"
  shows "my_strlen p s = Ok (of_nat (length cs), s)"
proof -
  let ?body = "\<lambda>i :: u32. bnd (load (p + ucast i)) (\<lambda>b. if b = 0 then ret (Inr i)
       else if i = 0x7FFFFFFF then fail SignedOverflow else ret (Inl (i + 1)))"
  have "cstr (kmem s) (p + of_nat i) cs \<Longrightarrow> i + length cs < 2 ^ 31 \<Longrightarrow>
      loopM ?body (of_nat i) s = Ok (of_nat (i + length cs), s)" for i
  proof (induction cs arbitrary: i)
    case Nil
    then have "(ucast (of_nat i :: u32) :: u64) = of_nat i" by (intro ucast_of_nat_small) simp
    with Nil show ?case by (subst loopM_unfold) simp
  next
    case (Cons c cs)
    have u: "(ucast (of_nat i :: u32) :: u64) = of_nat i"
      using Cons.prems by (intro ucast_of_nat_small) simp
    have "unat (of_nat i :: u32) = i"
      using Cons.prems by (simp add: unat_of_nat take_bit_nat_eq_self)
    then have "(of_nat i :: u32) \<noteq> 0x7FFFFFFF" using Cons.prems by auto
    then have "?body (of_nat i) s = Ok (Inl (of_nat (Suc i)), s)"
      using Cons.prems(1) u by (simp add: add.commute)
    moreover have "loopM ?body (of_nat (Suc i)) s = Ok (of_nat (Suc i + length cs), s)"
      using Cons.prems by (intro Cons.IH) (simp_all add: add.commute add.left_commute)
    ultimately show ?case by (simp add: loopM_continue)
  qed
  from this [of 0] show ?thesis using assms by (simp add: my_strlen_def)
qed

section \<open>Copying and comparing\<close>

definition bytes_at :: "(ptr \<Rightarrow> u8) \<Rightarrow> ptr \<Rightarrow> nat \<Rightarrow> bytes" where
  "bytes_at m p n = map (\<lambda>i. m (p + of_nat i)) [0..<n]"

lemma bytes_at_Suc: "bytes_at m p (Suc n) = m p # bytes_at m (p + 1) n"
  unfolding bytes_at_def upt_conv_Cons [OF zero_less_Suc] map_Suc_upt [symmetric]
  by (simp add: comp_def add.commute add.left_commute)

lemma valid_range_step: "valid_range p (Suc (Suc n)) \<Longrightarrow> valid_range (p + 1) (Suc n)"
proof -
  assume v: "valid_range p (Suc (Suc n))"
  then have "unat (p + of_nat 1) = unat p + 1" by (intro unat_add_of_nat) (simp add: valid_range_def)
  moreover have "p + of_nat 1 \<noteq> 0" using v by (rule valid_range_nonnull) simp
  ultimately show ?thesis using v by (simp add: valid_range_def)
qed

lemma my_memcpy_run:
  assumes "valid_range dest n" and "valid_range src n"
    and "\<forall>i < n. n \<le> unat (src + of_nat i - dest)"
  shows "my_memcpy dest src (int n) s =
    Ok ((), s\<lparr>kmem := fill (kmem s) dest n (\<lambda>i. kmem s (src + of_nat i))\<rparr>)"
proof -
  let ?f = "\<lambda>i. kmem s (src + of_nat i)"
  have "k \<le> n \<Longrightarrow> for_each [0..<k] (\<lambda>i. bnd (load (src + of_nat i)) (\<lambda>b. store (dest + of_nat i) b)) s =
      Ok ((), s\<lparr>kmem := fill (kmem s) dest k ?f\<rparr>)" for k
  proof (induction k)
    case (Suc k)
    then have "src + of_nat k \<noteq> 0" "dest + of_nat k \<noteq> 0"
      using valid_range_nonnull [OF assms(1)] valid_range_nonnull [OF assms(2)] by simp_all
    moreover have "fill (kmem s) dest k ?f (src + of_nat k) = ?f k"
      using assms(3) Suc.prems by (intro fill_outside) (meson Suc_le_lessD le_trans less_imp_le)
    moreover have "k < 2 ^ 64" using Suc.prems assms(1) by (auto simp: valid_range_def)
    ultimately show ?case
      using Suc fill_Suc [of k "kmem s" dest ?f] by (simp add: for_each_append bnd_Ok)
  qed simp
  from this [of n] show ?thesis by (simp add: my_memcpy_def)
qed

text \<open>
  \<open>my_memcpy\<close> copies the \<open>n\<close> bytes at \<open>src\<close> to \<open>dest\<close> when the destination does not overlap the
  source, and changes no other byte.
\<close>

theorem my_memcpy_correct:
  assumes "valid_range dest n" and "valid_range src n"
    and "\<forall>i < n. n \<le> unat (src + of_nat i - dest)"
  shows "\<exists>t. my_memcpy dest src (int n) s = Ok ((), t) \<and>
    bytes_at (kmem t) dest n = bytes_at (kmem s) src n \<and>
    (\<forall>a. n \<le> unat (a - dest) \<longrightarrow> kmem t a = kmem s a)"
proof -
  have "n \<le> 2 ^ 64" using assms(1) by (simp add: valid_range_def)
  with my_memcpy_run [OF assms, of s] show ?thesis by (auto simp: bytes_at_def fill_at fill_outside)
qed

theorem my_memcpy_correct_witness:
  "\<exists>t. my_memcpy 0x200 0x100 (int 3) (memory_state (text_at 0x100 ''bin'')) = Ok ((), t) \<and>
     bytes_at (kmem t) 0x200 3 = bytes_of ''bin''"
proof -
  have "valid_range 0x200 3" "valid_range 0x100 3" by (simp_all add: valid_range_def)
  moreover have "\<forall>i < 3. 3 \<le> unat (0x100 + of_nat i - 0x200 :: u64)"
    by (auto simp: less_Suc_eq numeral_3_eq_3)
  ultimately obtain t where "my_memcpy 0x200 0x100 (int 3) (memory_state (text_at 0x100 ''bin'')) = Ok ((), t)"
    "bytes_at (kmem t) 0x200 3 = bytes_at (text_at 0x100 ''bin'') 0x100 3"
    using my_memcpy_correct [of "0x200" 3 "0x100" "memory_state (text_at 0x100 ''bin'')"]
    unfolding kmem_memory_state by blast
  moreover have "bytes_at (text_at 0x100 ''bin'') 0x100 3 = bytes_of ''bin''"
    by (simp add: bytes_at_def text_at_def bytes_of_def upt_rec)
  ultimately show ?thesis by auto
qed

lemma my_memcmp_run:
  assumes "valid_range p (Suc n)" and "valid_range q (Suc n)"
  shows "my_memcmp p q (int n) s =
    Ok (sum_list (map uint (bytes_at (kmem s) p n)) - sum_list (map uint (bytes_at (kmem s) q n)), s)"
proof -
  let ?body = "\<lambda>(n :: int, diff :: int, t1 :: ptr, t2 :: ptr).
       if 0 < n then bnd (load t1) (\<lambda>a. bnd (load t2) (\<lambda>b.
           ret (Inl (n - 1, diff + ((uint a - 48) - (uint b - 48)), t1 + 1, t2 + 1)))) else ret (Inr diff)"
  have "valid_range p (Suc n) \<Longrightarrow> valid_range q (Suc n) \<Longrightarrow> loopM ?body (int n, d, p, q) s =
      Ok (d + (sum_list (map uint (bytes_at (kmem s) p n)) - sum_list (map uint (bytes_at (kmem s) q n))), s)" for d
  proof (induction n arbitrary: d p q)
    case 0
    then show ?case by (subst loopM_unfold) (simp add: bytes_at_def)
  next
    case (Suc n)
    then have "p \<noteq> 0" "q \<noteq> 0" by (simp_all add: valid_range_def)
    then have "?body (int (Suc n), d, p, q) s =
        Ok (Inl (int n, d + (uint (kmem s p) - uint (kmem s q)), p + 1, q + 1), s)" by simp
    then have "loopM ?body (int (Suc n), d, p, q) s =
        loopM ?body (int n, d + (uint (kmem s p) - uint (kmem s q)), p + 1, q + 1) s"
      by (rule loopM_continue)
    also note Suc.IH [OF valid_range_step [OF Suc.prems(1)] valid_range_step [OF Suc.prems(2)]]
    finally show ?case by (simp add: bytes_at_Suc)
  qed
  from this [of 0] assms show ?thesis by (simp add: my_memcmp_def)
qed

text \<open>
  \<open>my_memcmp\<close> returns the difference of the byte sums of the two regions. It returns 0 for equal
  regions, and also for any two regions with the same sum, such as those holding the same bytes in
  another order.
\<close>

theorem my_memcmp_sum:
  assumes "valid_range p (Suc n)" and "valid_range q (Suc n)"
  shows "my_memcmp p q (int n) s =
    Ok (sum_list (map uint (bytes_at (kmem s) p n)) - sum_list (map uint (bytes_at (kmem s) q n)), s)"
  using assms by (rule my_memcmp_run)

theorem my_memcmp_sum_witness:
  "my_memcmp 0x100 0x103 (int 3) (memory_state (text_at 0x100 ''catact'')) =
     Ok (0, memory_state (text_at 0x100 ''catact''))"
proof -
  have "valid_range 0x100 (Suc 3)" "valid_range 0x103 (Suc 3)" by (simp_all add: valid_range_def)
  from my_memcmp_sum [OF this, of "memory_state (text_at 0x100 ''catact'')"] show ?thesis
    by (simp add: bytes_at_def text_at_def upt_rec)
qed

section \<open>Octal numbers\<close>

definition octal_value :: "bytes \<Rightarrow> nat" where
  "octal_value ds = foldl (\<lambda>v d. v * 8 + (unat d - 48)) 0 ds"

lemma octal_value_snoc: "octal_value (ds @ [d]) = octal_value ds * 8 + (unat d - 48)"
  by (simp add: octal_value_def)

lemma octal_value_bound:
  "\<forall>d \<in> set ds. 48 \<le> unat d \<and> unat d < 56 \<Longrightarrow> octal_value ds < 8 ^ length ds"
proof (induction ds rule: rev_induct)
  case (snoc d ds)
  then have "octal_value ds + 1 \<le> 8 ^ length ds" "unat d - 48 < 8" by auto
  then show ?case by (simp add: octal_value_snoc)
qed (simp add: octal_value_def)

text \<open>
  \<open>oct2dec\<close> reads a field of up to 21 octal digits, such as a tar size field, as the number it
  denotes.
\<close>

theorem oct2dec_correct:
  assumes "valid_range data (Suc (unat sz))"
    and "\<forall>d \<in> set (bytes_at (kmem s) data (unat sz)). 48 \<le> unat d \<and> unat d < 56" and "unat sz \<le> 21"
  shows "\<exists>r. oct2dec data sz s = Ok (r, s) \<and> unat r = octal_value (bytes_at (kmem s) data (unat sz))"
proof -
  let ?body = "\<lambda>(sz :: u8, n :: u64, c :: ptr). if sz = 0 then ret (Inr n)
       else bnd (load c) (\<lambda>b. ret (Inl (sz - 1, n * 8 + (ucast b - 48), c + 1)))"
  have "valid_range c (Suc k) \<Longrightarrow> k < 256 \<Longrightarrow> \<forall>d \<in> set (bytes_at (kmem s) c k). 48 \<le> unat d \<Longrightarrow>
      loopM ?body (of_nat k, of_nat (octal_value ds), c) s =
        Ok (of_nat (octal_value (ds @ bytes_at (kmem s) c k)), s)" for k c ds
  proof (induction k arbitrary: c ds)
    case 0
    then show ?case by (subst loopM_unfold) (simp add: bytes_at_def)
  next
    case (Suc k)
    let ?b = "kmem s c"
    have b: "48 \<le> unat ?b" "c \<noteq> 0" using Suc.prems by (simp_all add: bytes_at_Suc valid_range_def)
    have nz: "(of_nat (Suc k) :: u8) \<noteq> 0"
      using Suc.prems(2) unat_of_nat_u8 [of "Suc k"] by (metis nat.distinct(1) unsigned_0)
    have pred: "(of_nat (Suc k) :: u8) - 1 = of_nat k" by simp
    have "?body (of_nat (Suc k), of_nat (octal_value ds), c) s =
        Ok (Inl (of_nat k, of_nat (octal_value (ds @ [?b])), c + 1), s)"
      unfolding prod.case if_not_P [OF nz] pred using b
      by (simp add: octal_value_snoc of_nat_diff)
    then have "loopM ?body (of_nat (Suc k), of_nat (octal_value ds), c) s =
        loopM ?body (of_nat k, of_nat (octal_value (ds @ [?b])), c + 1) s"
      by (rule loopM_continue)
    also have "\<dots> = Ok (of_nat (octal_value ((ds @ [?b]) @ bytes_at (kmem s) (c + 1) k)), s)"
      using Suc.prems by (intro Suc.IH valid_range_step) (simp_all add: bytes_at_Suc)
    finally show ?case by (simp add: bytes_at_Suc)
  qed
  from this [of data "unat sz" "[]"]
  have "oct2dec data sz s = Ok (of_nat (octal_value (bytes_at (kmem s) data (unat sz))), s)"
    using assms unsigned_less [of sz] by (simp add: oct2dec_def octal_value_def)
  moreover have "octal_value (bytes_at (kmem s) data (unat sz)) < 2 ^ 64"
  proof -
    have "octal_value (bytes_at (kmem s) data (unat sz)) < 8 ^ unat sz"
      using octal_value_bound [OF assms(2)] by (simp add: bytes_at_def)
    also have "(8 :: nat) ^ unat sz \<le> 8 ^ 21" using assms(3) by (intro power_increasing) simp_all
    finally show ?thesis by simp
  qed
  ultimately show ?thesis using unat_of_nat_u64 by auto
qed

theorem oct2dec_correct_witness:
  "\<exists>r. oct2dec 0x100 3 (memory_state (text_at 0x100 ''017'')) = Ok (r, memory_state (text_at 0x100 ''017'')) \<and>
     unat r = 15"
proof -
  let ?s = "memory_state (text_at 0x100 ''017'')"
  have b: "bytes_at (kmem ?s) 0x100 (unat (3 :: u8)) = bytes_of ''017''"
    by (simp add: bytes_at_def text_at_def bytes_of_def upt_rec)
  have "valid_range 0x100 (Suc (unat (3 :: u8)))" by (simp add: valid_range_def)
  moreover have "\<forall>d \<in> set (bytes_at (kmem ?s) 0x100 (unat (3 :: u8))). 48 \<le> unat d \<and> unat d < 56"
    unfolding b by (simp add: bytes_of_def)
  moreover have "unat (3 :: u8) \<le> 21" by simp
  ultimately have "\<exists>r. oct2dec 0x100 3 ?s = Ok (r, ?s) \<and>
      unat r = octal_value (bytes_at (kmem ?s) 0x100 (unat (3 :: u8)))" by (rule oct2dec_correct)
  then show ?thesis unfolding b by (simp add: octal_value_def bytes_of_def)
qed

section \<open>Page arithmetic and process ids\<close>

lemma unat_page_base: "unat ((a :: u64) AND - 4096) = unat a - unat a mod 4096"
proof -
  have "(a AND m) AND (a AND NOT m) = 0" "(a AND m) OR (a AND NOT m) = a" for m
    by (simp_all add: bit_eq_iff bit_simps) blast+
  then have "(a AND m) + (a AND NOT m) = a" for m
    using word_plus_and_or [of "a AND m" "a AND NOT m"] by simp
  from this [of "0xFFF"] have "(a AND 0xFFF) + (a AND - 4096) = a" by simp
  then have "a AND - 4096 = a - (a AND 0xFFF)" by (simp add: eq_diff_eq add.commute)
  moreover have "a AND 0xFFF \<le> a" by (rule word_and_le2)
  ultimately show ?thesis by (simp add: unat_sub unat_page_offset)
qed

text \<open>
  The two rounding functions have each other's names: \<open>page_round_up\<close> returns the start of the
  page an address lies in (and leaves addresses in the first page unrounded), \<open>page_round_down\<close>
  returns the first page boundary at or above the address.
\<close>

theorem page_rounding_exchanged:
  "unat (page_round_up a) = (if unat a < 4096 then unat a else unat a - unat a mod 4096) \<and>
   (unat a + 0xFFF < 2 ^ 64 \<longrightarrow>
      4096 dvd unat (page_round_down a) \<and> unat a \<le> unat (page_round_down a) \<and>
      unat (page_round_down a) < unat a + 4096)"
proof (intro conjI impI)
  show "unat (page_round_up a) = (if unat a < 4096 then unat a else unat a - unat a mod 4096)"
    by (simp add: page_round_up_def unat_page_base word_less_nat_alt)
  assume "unat a + 0xFFF < 2 ^ 64"
  then have "unat (a + of_nat 0xFFF) = unat a + 0xFFF" by (rule unat_add_of_nat)
  then have "unat (page_round_down a) = (unat a + 0xFFF) - (unat a + 0xFFF) mod 4096"
    by (simp add: page_round_down_def unat_page_base)
  then have d: "unat (page_round_down a) = (unat a + 0xFFF) div 4096 * 4096"
    by (simp add: minus_mod_eq_div_mult)
  then show "4096 dvd unat (page_round_down a)" by simp
  show "unat a \<le> unat (page_round_down a)" "unat (page_round_down a) < unat a + 4096"
    unfolding d using div_mult_mod_eq [of "unat a + 0xFFF" 4096] mod_less_divisor [of 4096 "unat a + 0xFFF"]
    by linarith+
qed

theorem page_rounding_exchanged_witness:
  "unat (page_round_up 0x1234) = 0x1000 \<and> 4096 dvd unat (page_round_down 0x1234)"
  using page_rounding_exchanged [of "0x1234"] by simp

lemma ucast_add_of_nat: "ucast (x + of_nat n :: u32) = (ucast x + of_nat n :: u16)"
proof -
  have "(of_nat (m mod 2 ^ 32) :: u16) = of_nat m" for m :: nat
    by (simp add: word_of_nat_eq_iff take_bit_eq_mod mod_mod_cancel)
  then have "(of_nat ((unat x + n) mod 2 ^ 32) :: u16) = of_nat (unat x + n)" .
  moreover have "unat (x + of_nat n) = (unat x + n) mod 2 ^ 32"
    by (simp add: unat_word_ariths unat_of_nat take_bit_eq_mod mod_simps)
  ultimately have "(of_nat (unat (x + of_nat n)) :: u16) = of_nat (unat x + n)" by (simp only:)
  then show ?thesis by simp
qed

text \<open>
  Process ids come from a 32-bit counter cut to 16 bits: the ids returned by the \<open>i\<close>-th and the
  \<open>j\<close>-th next call are equal exactly if \<open>i\<close> and \<open>j\<close> agree modulo 65536, whether or not the first
  process is still alive.
\<close>

theorem get_pid_repeats:
  "\<exists>a b. get_pid (s\<lparr>last_pid := last_pid s + of_nat i\<rparr>) = Ok (a, s\<lparr>last_pid := last_pid s + of_nat (Suc i)\<rparr>) \<and>
     get_pid (s\<lparr>last_pid := last_pid s + of_nat j\<rparr>) = Ok (b, s\<lparr>last_pid := last_pid s + of_nat (Suc j)\<rparr>) \<and>
     (a = b \<longleftrightarrow> i mod 65536 = j mod 65536)"
proof -
  have run: "get_pid (s\<lparr>last_pid := last_pid s + of_nat k\<rparr>) =
      Ok (ucast (last_pid s) + of_nat (Suc k), s\<lparr>last_pid := last_pid s + of_nat (Suc k)\<rparr>)" for k
    using ucast_add_of_nat [of "last_pid s" "Suc k"] by (simp add: get_pid_def add_ac)
  have "(ucast (last_pid s) + of_nat (Suc i) :: u16) = ucast (last_pid s) + of_nat (Suc j) \<longleftrightarrow>
      (of_nat i :: u16) = of_nat j" by simp
  also have "\<dots> \<longleftrightarrow> i mod 65536 = j mod 65536"
    by (simp add: word_of_nat_eq_iff take_bit_eq_mod)
  finally show ?thesis using run by blast
qed

end
