(* ===== verification/Virt_Mmgr.thy ===== *)
theory Virt_Mmgr
  imports Util
begin

text \<open>
  The four-level page tables, \<^verbatim>\<open>sys/virt_mmgr.c\<close>: translation, mapping, changing flags, copying and
  freeing address spaces, and the kernel's own mapping at boot. Page tables live in physical
  memory, which the code reads and writes through kernel virtual addresses (physical address or-ed
  with the kernel base).
\<close>

section \<open>State\<close>

text \<open>
  \<open>pmem\<close> is physical memory by 8-byte words, \<open>cr3_reg\<close> and \<open>cr0_reg\<close> the control registers,
  \<open>pml4_ptr\<close> the global \<^verbatim>\<open>pml4\<close>. The kernel's direct map is taken to cover every address the code uses.
\<close>

record virt_state = util_state +
  pmem :: "u64 \<Rightarrow> u64"
  cr3_reg :: u64
  cr0_reg :: u64
  pml4_ptr :: u64

section \<open>Flags and indices\<close>

definition PRESENT :: u64 where
  "PRESENT = 0x1"

definition READWRITE :: u64 where
  "READWRITE = 0x2"

definition USERSUPERVISOR :: u64 where
  "USERSUPERVISOR = 0x4"

text \<open>The address field of an entry, the same mask at all four levels.\<close>

definition ENTRY_ADDRESS :: u64 where
  "ENTRY_ADDRESS = 0x000FFFFFFFFFF000"

definition present :: "u64 \<Rightarrow> bool" where
  "present e \<longleftrightarrow> e AND PRESENT = PRESENT"

definition get_index_of_pml4 :: "u64 \<Rightarrow> u16" where
  "get_index_of_pml4 virt = ucast (drop_bit 39 virt AND 0x1FF)"

definition get_index_of_pdpt :: "u64 \<Rightarrow> u16" where
  "get_index_of_pdpt virt = ucast (drop_bit 30 virt AND 0x1FF)"

definition get_index_of_pdt :: "u64 \<Rightarrow> u16" where
  "get_index_of_pdt virt = ucast (drop_bit 21 virt AND 0x1FF)"

definition get_index_of_pt :: "u64 \<Rightarrow> u16" where
  "get_index_of_pt virt = ucast (drop_bit 12 virt AND 0x1FF)"

definition get_kpa :: "u64 \<Rightarrow> u64" where
  "get_kpa virt_addr = NOT KERNBASE AND virt_addr"

text \<open>Where entry \<open>i\<close> of the table at physical address \<open>tbl\<close> is, when reached through the kernel base.\<close>

definition entry :: "u64 \<Rightarrow> u16 \<Rightarrow> u64" where
  "entry tbl i = get_kpa ((tbl OR KERNBASE) + 8 * ucast i)"

definition get_physical_address :: "u64 \<Rightarrow> u64" where
  "get_physical_address e = e AND ENTRY_ADDRESS"

section \<open>Operations\<close>

definition get_pml4 :: "'z virt_state_scheme \<Rightarrow> u64" where
  "get_pml4 s = pml4_ptr s"

text \<open>The or on \<^verbatim>\<open>eax\<close> clears the upper half of the register that is written back to \<^verbatim>\<open>cr0\<close>.\<close>

definition set_pml4 :: "u64 \<Rightarrow> 'z virt_state_scheme \<Rightarrow> 'z virt_state_scheme" where
  "set_pml4 phys_addr s = s\<lparr>cr3_reg := phys_addr, cr0_reg := ucast (ucast (cr0_reg s) OR 0x80000001 :: u32)\<rparr>"

definition write_entry :: "u64 \<Rightarrow> u16 \<Rightarrow> u64 \<Rightarrow> 'z virt_state_scheme \<Rightarrow> 'z virt_state_scheme" where
  "write_entry tbl i e s = s\<lparr>pmem := (pmem s)(entry tbl i := e)\<rparr>"

text \<open>
  \<open>my_memset(table, 0, 4096)\<close> on words: the page is zeroed and, by the byte stored after the loop,
  the low byte of the word behind it.
\<close>

definition clear_words :: "u64 \<Rightarrow> (u64 \<Rightarrow> u64) \<Rightarrow> u64 \<Rightarrow> u64" where
  "clear_words p m =
     (\<lambda>a. if unat p \<le> unat a \<and> unat a < unat p + 4096 then 0
          else if a = p + 4096 then m a AND NOT 0xFF else m a)"

definition clear_table :: "u64 \<Rightarrow> 'z virt_state_scheme \<Rightarrow> 'z virt_state_scheme" where
  "clear_table p s = s\<lparr>pmem := clear_words (get_kpa p) (pmem s)\<rparr>"

definition walk_pml4 :: "u64 \<Rightarrow> u64 \<Rightarrow> 'z virt_state_scheme \<Rightarrow> u64" where
  "walk_pml4 cr3 virt_addr s =
     (let pml_entry = pmem s (entry cr3 (get_index_of_pml4 virt_addr)) in
      if \<not> present pml_entry then - 1
      else let pdpt = get_physical_address pml_entry;
               pdpt_entry = pmem s (entry pdpt (get_index_of_pdpt virt_addr)) in
      if \<not> present pdpt_entry then - 1
      else let pdt = get_physical_address pdpt_entry;
               pdt_entry = pmem s (entry pdt (get_index_of_pdt virt_addr)) in
      if \<not> present pdt_entry then - 1
      else let pt = get_physical_address pdt_entry;
               pt_entry = pmem s (entry pt (get_index_of_pt virt_addr)) in
      get_physical_address pt_entry)"

text \<open>
  One level of \<open>map_virtual_address_to_physical_address\<close>: a missing entry gets a new cleared table.
  The result is the table the entry points to afterwards.
\<close>

definition ensure_table :: "u64 \<Rightarrow> u16 \<Rightarrow> u32 \<Rightarrow> 'z virt_state_scheme \<Rightarrow> u64 \<times> 'z virt_state_scheme" where
  "ensure_table tbl i flags s =
     (if \<not> present (pmem s (entry tbl i)) then
        (let (a, s1) = phys_mem_alloc s;
             s2 = clear_table (a OR KERNBASE) s1;
             e = (pmem s2 (entry tbl i) AND NOT ENTRY_ADDRESS) OR a;
             s3 = write_entry tbl i (e OR ucast flags) s2
         in (get_physical_address (e OR ucast flags), s3))
      else (get_physical_address (pmem s (entry tbl i)), s))"

definition map_virtual_address_to_physical_address ::
  "u64 \<Rightarrow> u64 \<Rightarrow> u32 \<Rightarrow> u64 \<Rightarrow> bool \<Rightarrow> 'z virt_state_scheme \<Rightarrow> 'z virt_state_scheme" where
  "map_virtual_address_to_physical_address virt phys flags cr3 is_reference s =
     (if virt AND 4095 \<noteq> 0 then s
      else if phys AND 4095 \<noteq> 0 then s
      else
        let (pdpt, s1) = ensure_table cr3 (get_index_of_pml4 virt) flags s;
            (pdt, s2) = ensure_table pdpt (get_index_of_pdpt virt) flags s1;
            (pt, s3) = ensure_table pdt (get_index_of_pdt virt) flags s2;
            i = get_index_of_pt virt;
            e = (pmem s3 (entry pt i) AND NOT ENTRY_ADDRESS) OR phys;
            s4 = (if \<not> is_reference then write_entry pt i (e OR ucast flags) s3 else s3)
        in set_pml4 cr3 s4)"

text \<open>The result is always 0.\<close>

definition change_flags_in_parent_page_tables ::
  "u64 \<Rightarrow> u64 \<Rightarrow> u64 \<Rightarrow> 'z virt_state_scheme \<Rightarrow> u32 \<times> 'z virt_state_scheme" where
  "change_flags_in_parent_page_tables virt cr3 flags s =
     (let i4 = get_index_of_pml4 virt; e4 = pmem s (entry cr3 i4) in
      if \<not> present e4 then (0, s)
      else let s1 = write_entry cr3 i4 (e4 OR flags) s;
               pdpt = get_physical_address (e4 OR flags);
               i3 = get_index_of_pdpt virt; e3 = pmem s1 (entry pdpt i3) in
      if \<not> present e3 then (0, s1)
      else let s2 = write_entry pdpt i3 (e3 OR flags) s1;
               pdt = get_physical_address (e3 OR flags);
               i2 = get_index_of_pdt virt; e2 = pmem s2 (entry pdt i2) in
      if \<not> present e2 then (0, s2)
      else let s3 = write_entry pdt i2 (e2 OR flags) s2;
               pt = get_physical_address (e2 OR flags);
               i1 = get_index_of_pt virt;
               s4 = write_entry pt i1 (pmem s3 (entry pt i1) OR flags) s3 in
      (0, set_pml4 cr3 s4))"

definition find_page_from_virt :: "u64 \<Rightarrow> u64 \<Rightarrow> 'z virt_state_scheme \<Rightarrow> page \<times> 'z virt_state_scheme" where
  "find_page_from_virt addr cr3 s = get_page_from_phys_addr (walk_pml4 cr3 addr s) s"

text \<open>
  \<open>copy_page_tables\<close>, by level. At levels 2 to 4 each non-zero entry is copied and then followed; the
  value of the recursive call is dropped. Only level 4 returns the copy.
\<close>

primrec copy_page_tables :: "nat \<Rightarrow> u64 \<Rightarrow> 'z virt_state_scheme \<Rightarrow> u64 \<times> 'z virt_state_scheme" where
  "copy_page_tables 0 tbl s = (- 1, kmsg ''wrong level\<newline>'' s)"
| "copy_page_tables (Suc l) tbl s =
     (if 4 \<le> l then (- 1, kmsg ''wrong level\<newline>'' s)
      else
        let (a, s1) = phys_mem_alloc s;
            s2 = fold (\<lambda>i s.
                   let s' = write_entry a (of_nat i) (pmem s (entry tbl (of_nat i))) s;
                       e = pmem s' (entry tbl (of_nat i))
                   in if 0 < l \<and> e \<noteq> 0 then snd (copy_page_tables l (get_physical_address e) s') else s')
                 [0..<512] s1
        in (if l = 3 then NOT KERNBASE AND (a OR KERNBASE) else 0, s2))"

text \<open>
  \<open>free_page_range\<close>: \<open>addr\<close> is the local variable, which keeps its value from one round to the next.
  Levels 4 and 3 follow the present entries; levels 2 and 1 test for entries that are not present.
\<close>

primrec free_page_range :: "nat \<Rightarrow> u64 \<Rightarrow> 'z virt_state_scheme \<Rightarrow> 'z virt_state_scheme" where
  "free_page_range 0 tbl s = kmsg ''wrong level value\<newline>'' s"
| "free_page_range (Suc l) tbl s =
     (if 4 \<le> l then kmsg ''wrong level value\<newline>'' s
      else snd (fold (\<lambda>i (addr, s).
        let e = pmem s (entry tbl (of_nat i));
            (addr', s') =
              (if e \<noteq> 0 \<and> (if 2 \<le> l then present e else \<not> present e) then
                 (if l = 0 then
                    (let a = get_physical_address e OR KERNBASE in (a, phys_mem_free a s))
                  else
                    (let a = get_physical_address e in (a, free_page_range l a s)))
               else (addr, s))
        in (addr', if addr' \<noteq> 0 then phys_mem_free (addr' OR KERNBASE) s' else s'))
       [0..<512] (0, s)))"

text \<open>
  The kernel's address space at boot. \<open>fill_kernel_table\<close> is one of the three loops that fill a page
  table with 512 consecutive frames.
\<close>

definition fill_kernel_table :: "u64 \<Rightarrow> u64 \<Rightarrow> u64 \<Rightarrow> 'z virt_state_scheme \<Rightarrow> 'z virt_state_scheme" where
  "fill_kernel_table pt virt phys =
     fold (\<lambda>k. write_entry pt (get_index_of_pt (virt + of_nat k * 4096))
                 (((PRESENT OR READWRITE) AND NOT ENTRY_ADDRESS) OR (phys + of_nat k * 4096))) [0..<512]"

definition link_table :: "u64 \<Rightarrow> u16 \<Rightarrow> u64 \<Rightarrow> 'z virt_state_scheme \<Rightarrow> 'z virt_state_scheme" where
  "link_table tbl i sub s =
     write_entry tbl i (((pmem s (entry tbl i) AND NOT ENTRY_ADDRESS) OR sub) OR PRESENT OR READWRITE) s"

text \<open>An allocation followed by clearing the page; a failed one makes the caller return.\<close>

definition alloc_table :: "(u64 \<Rightarrow> 'z virt_state_scheme \<Rightarrow> 'z virt_state_scheme) \<Rightarrow>
    'z virt_state_scheme \<Rightarrow> 'z virt_state_scheme" where
  "alloc_table k s =
     (let (a, s1) = phys_mem_alloc s in if a = 0 then s1 else k a (clear_table a s1))"

definition init_setup_virtual_memory :: "'z virt_state_scheme \<Rightarrow> 'z virt_state_scheme" where
  "init_setup_virtual_memory =
     alloc_table (\<lambda>pt. alloc_table (\<lambda>pt2. alloc_table (\<lambda>pt3. alloc_table (\<lambda>pdt. alloc_table (\<lambda>pdpt s.
       let (pml4, s1) = phys_mem_alloc s; s1 = s1\<lparr>pml4_ptr := pml4\<rparr> in
       if pml4 = 0 then s1
       else
         let s2 = clear_table pml4 s1;
             s3 = fill_kernel_table pt 0xFFFFFFFF80200000 0x200000 s2;
             s4 = link_table pdt (get_index_of_pdt 0xFFFFFFFF80200000) pt s3;
             s5 = link_table pdpt (get_index_of_pdpt 0xFFFFFFFF80200000) pdt s4;
             s6 = link_table pml4 (get_index_of_pml4 0xFFFFFFFF80200000) pdpt s5;
             s7 = (set_pml4 pml4 s6)\<lparr>is_paging := 1\<rparr>;
             s8 = fill_kernel_table pt2 0xFFFFFFFF80000000 0 s7;
             s9 = link_table pdt (get_index_of_pdt 0xFFFFFFFF80000000) pt2 s8;
             s10 = fill_kernel_table pt3 0xFFFFFFFF80400000 0x400000 s9
         in link_table pdt (get_index_of_pdt 0xFFFFFFFF80400000) pt3 s10)))))"

section \<open>Addresses and entries\<close>

lemma unat_ucast_u32: "unat (ucast (x :: u32) :: u64) = unat x"
proof -
  have "unat x < 2 ^ 32" using unsigned_less [of x] by simp
  then show ?thesis by (simp add: unsigned_ucast_eq take_bit_nat_eq_self)
qed

lemma KERNBASE_mask: "KERNBASE = NOT (mask 31)"
  by (simp add: KERNBASE_def mask_eq_exp_minus_1)

lemma ENTRY_ADDRESS_mask: "ENTRY_ADDRESS = mask 52 AND NOT (mask 12)"
  by (simp add: ENTRY_ADDRESS_def mask_eq_exp_minus_1)

lemma low_and_KERNBASE: "x < 2 ^ 31 \<Longrightarrow> x AND KERNBASE = 0" for x :: u64
proof -
  assume "x < 2 ^ 31"
  then have "take_bit 31 x = x" by (intro take_bit_self) (simp add: word_less_nat_alt)
  then have "x AND KERNBASE = take_bit 31 x AND NOT (mask 31)" by (simp add: KERNBASE_mask)
  also have "\<dots> = 0" by (simp add: bit_eq_iff bit_simps)
  finally show ?thesis .
qed

lemma low_or_KERNBASE: "x < 2 ^ 31 \<Longrightarrow> x OR KERNBASE = x + KERNBASE" for x :: u64
  using word_plus_and_or [of x KERNBASE] low_and_KERNBASE [of x] by simp

lemma kpa_low: "x < 2 ^ 31 \<Longrightarrow> get_kpa x = x"
proof -
  assume "x < 2 ^ 31"
  then have "take_bit 31 x = x" by (intro take_bit_self) (simp add: word_less_nat_alt)
  then show ?thesis by (simp add: get_kpa_def KERNBASE_mask take_bit_eq_mask and.commute)
qed

lemma kpa_or_KERNBASE [simp]: "get_kpa (x OR KERNBASE) = get_kpa x"
  by (simp add: get_kpa_def bit_eq_iff bit_simps) blast

lemma kpa_direct_map: "x < 2 ^ 31 \<Longrightarrow> get_kpa (x + KERNBASE) = x"
  using kpa_low [of x] kpa_or_KERNBASE [of x] low_or_KERNBASE [of x] by simp

text \<open>A page below 2 GB; the frames of the allocator are such pages, and so is page 0.\<close>

definition low_page :: "u64 \<Rightarrow> bool" where
  "low_page t \<longleftrightarrow> t AND 0xFFF = 0 \<and> t < 0x80000000"

lemma frame_low_page [simp]: "frame_addr t \<Longrightarrow> low_page t" "low_page 0"
  by (simp_all add: frame_addr_def low_page_def)

lemma low_page_nat:
  assumes "low_page t"
  shows "unat t + 4096 \<le> 2 ^ 31" and "4096 dvd unat t"
proof -
  have d: "4096 dvd unat t" and "t < 0x80000000"
    using assms by (simp_all add: low_page_def page_aligned_iff)
  then have "unat t < 2 ^ 31" by (simp add: word_less_nat_alt)
  moreover obtain k where "unat t = 4096 * k" using d by (rule dvdE)
  ultimately show "unat t + 4096 \<le> 2 ^ 31" by simp
  show "4096 dvd unat t" by fact
qed

lemma unat_entry:
  assumes "low_page t" and "unat i < 512"
  shows "unat (entry t i) = unat t + 8 * unat i"
proof -
  note t = low_page_nat [OF assms(1)]
  let ?x = "t + of_nat (8 * unat i)"
  have x: "unat ?x = unat t + 8 * unat i"
    using t(1) assms(2) by (intro unat_add_of_nat) simp
  have e8: "8 * ucast i = (of_nat (8 * unat i) :: u64)" by simp
  have "t < 2 ^ 31" using t(1) by (simp add: word_less_nat_alt)
  then have "(t OR KERNBASE) + 8 * ucast i = ?x + KERNBASE"
    unfolding e8 by (simp only: low_or_KERNBASE) (simp only: add.assoc add.commute add.left_commute)
  moreover have "?x < 2 ^ 31"
    unfolding word_less_nat_alt x using t(1) assms(2) by simp
  ultimately have "entry t i = ?x" by (simp only: entry_def kpa_direct_map)
  then show ?thesis using x by simp
qed

lemma entry_inject:
  assumes "low_page t" and "low_page u" and "unat i < 512" and "unat j < 512"
  shows "entry t i = entry u j \<longleftrightarrow> t = u \<and> i = j"
proof
  assume "entry t i = entry u j"
  then have eq: "unat t + 8 * unat i = unat u + 8 * unat j"
    using unat_entry assms by metis
  obtain k l where kl: "unat t = 4096 * k" "unat u = 4096 * l"
    using low_page_nat(2) [OF assms(1)] low_page_nat(2) [OF assms(2)] by (auto elim!: dvdE)
  have "k = l" using eq kl assms(3,4) by linarith
  then show "t = u \<and> i = j" using eq kl by (simp add: word_unat_eq_iff)
qed simp

lemma index_bounds [simp]:
  "unat (get_index_of_pml4 v) < 512" "unat (get_index_of_pdpt v) < 512"
  "unat (get_index_of_pdt v) < 512" "unat (get_index_of_pt v) < 512"
proof -
  have "unat (ucast (x AND 0x1FF) :: u16) < 512" for x :: u64
  proof -
    have "x AND 0x1FF = take_bit 9 x" by (simp add: take_bit_eq_mask mask_eq_exp_minus_1)
    then have "unat (x AND 0x1FF) < 512" by (simp add: take_bit_eq_mod unat_mod)
    then show ?thesis by (simp add: unsigned_ucast_eq take_bit_nat_eq_self unsigned_take_bit_eq)
  qed
  then show "unat (get_index_of_pml4 v) < 512" "unat (get_index_of_pdpt v) < 512"
    "unat (get_index_of_pdt v) < 512" "unat (get_index_of_pt v) < 512"
    by (simp_all add: get_index_of_pml4_def get_index_of_pdpt_def get_index_of_pdt_def get_index_of_pt_def)
qed

lemma frame_in_field: "frame_addr a \<Longrightarrow> a AND ENTRY_ADDRESS = a"
proof -
  assume f: "frame_addr a"
  then have "take_bit 52 a = a"
    by (intro take_bit_self) (simp add: frame_addr_def word_less_nat_alt)
  moreover have "take_bit 12 a = 0"
    using f by (simp add: frame_addr_def take_bit_eq_mask mask_eq_exp_minus_1)
  ultimately show ?thesis
    by (simp add: ENTRY_ADDRESS_mask bit_eq_iff bit_simps) blast
qed

lemma flags_not_in_field: "unat (f :: u64) < 4096 \<Longrightarrow> f AND ENTRY_ADDRESS = 0"
proof -
  assume "unat f < 4096"
  then have "take_bit 12 f = f" by (intro take_bit_self) simp
  then show ?thesis by (simp add: ENTRY_ADDRESS_mask bit_eq_iff bit_simps) blast
qed

lemma new_entry_field:
  assumes "p AND ENTRY_ADDRESS = p" and "unat f < 4096"
  shows "get_physical_address (((x AND NOT ENTRY_ADDRESS) OR p) OR f) = p"
proof -
  have "get_physical_address (((x AND NOT ENTRY_ADDRESS) OR p) OR f) =
      (p AND ENTRY_ADDRESS) OR (f AND ENTRY_ADDRESS)"
    by (simp add: get_physical_address_def bit_eq_iff bit_simps) blast
  then show ?thesis using assms by (simp add: flags_not_in_field)
qed

lemmas new_entry_address = new_entry_field [OF frame_in_field]

lemma present_bit: "present e \<longleftrightarrow> bit e 0"
  by (simp add: present_def PRESENT_def and_one_eq bit_0 odd_iff_mod_2_eq_one)

lemma present_or [simp]: "present (x OR y) \<longleftrightarrow> present x \<or> present y"
  by (simp add: present_bit bit_or_iff)

lemma not_present_0 [simp]: "\<not> present 0"
  by (simp add: present_bit)

section \<open>Address spaces as trees of tables\<close>

text \<open>Following a list of indices from a table.\<close>

fun tblwalk :: "(u64 \<Rightarrow> u64) \<Rightarrow> u64 \<Rightarrow> u16 list \<Rightarrow> u64 option" where
  "tblwalk m t [] = Some t"
| "tblwalk m t (i # is) =
     (if present (m (entry t i)) then tblwalk m (get_physical_address (m (entry t i))) is else None)"

lemma tblwalk_append: "tblwalk m t (is @ js) = Option.bind (tblwalk m t is) (\<lambda>u. tblwalk m u js)"
  by (induction "is" arbitrary: t) simp_all

definition table_path :: "u16 list \<Rightarrow> bool" where
  "table_path is \<longleftrightarrow> length is \<le> 3 \<and> (\<forall>i \<in> set is. unat i < 512)"

lemma table_path_snoc: "table_path (is @ [i]) \<longleftrightarrow> table_path is \<and> length is < 3 \<and> unat i < 512"
  by (auto simp: table_path_def)

text \<open>
  The tables reachable from the root \<open>r\<close> are frames of \<open>U\<close> and form a tree: no table is reached
  along two different paths.
\<close>

definition ptree :: "(u64 \<Rightarrow> u64) \<Rightarrow> u64 set \<Rightarrow> u64 \<Rightarrow> bool" where
  "ptree m U r \<longleftrightarrow>
     (\<forall>is t. table_path is \<longrightarrow> tblwalk m r is = Some t \<longrightarrow> t \<in> U) \<and>
     (\<forall>is js t. table_path is \<longrightarrow> table_path js \<longrightarrow> tblwalk m r is = Some t \<longrightarrow> tblwalk m r js = Some t \<longrightarrow> is = js)"

lemma ptree_in: "ptree m U r \<Longrightarrow> table_path is \<Longrightarrow> tblwalk m r is = Some t \<Longrightarrow> t \<in> U"
  by (simp add: ptree_def)

lemma ptree_inj:
  "ptree m U r \<Longrightarrow> table_path is \<Longrightarrow> table_path js \<Longrightarrow> tblwalk m r is = Some t \<Longrightarrow> tblwalk m r js = Some t \<Longrightarrow> is = js"
  by (simp add: ptree_def)

text \<open>Clearing a frame does not touch the entries of other frames, unless one lies just behind it.\<close>

lemma clear_words_other:
  assumes "frame_addr n" and "frame_addr t" and "t \<noteq> n" and "t \<noteq> n + 4096" and "unat i < 512"
  shows "clear_words n m (entry t i) = m (entry t i)"
proof -
  obtain k l where kl: "unat t = 4096 * k" "unat n = 4096 * l"
    using low_page_nat(2) [OF frame_low_page(1) [OF assms(1)]] low_page_nat(2) [OF frame_low_page(1) [OF assms(2)]] by (auto elim!: dvdE)
  have e: "unat (entry t i) = unat t + 8 * unat i" using assms by (simp add: unat_entry)
  have n4: "unat (n + 4096) = unat n + 4096"
    using unat_add_of_nat [of n 4096] low_page_nat(1) [OF frame_low_page(1) [OF assms(1)]] by simp
  have "k \<noteq> l" using assms(3) kl by (auto simp: word_unat_eq_iff)
  moreover have "k \<noteq> l + 1" using assms(4) kl n4 by (auto simp: word_unat_eq_iff)
  ultimately have "\<not> (unat n \<le> unat (entry t i) \<and> unat (entry t i) < unat n + 4096)"
    and "unat (entry t i) \<noteq> unat (n + 4096)"
    unfolding e n4 kl using assms(5) by linarith+
  then show ?thesis by (auto simp: clear_words_def)
qed

lemma clear_words_own: "frame_addr n \<Longrightarrow> unat i < 512 \<Longrightarrow> clear_words n m (entry n i) = 0"
  by (simp add: clear_words_def unat_entry)

text \<open>Linking the cleared frame \<open>n\<close> into entry \<open>i\<close> of the table reached by \<open>is\<close>.\<close>

lemma link_tblwalk:
  assumes tree: "ptree m U r" and U: "\<forall>u \<in> U. frame_addr u"
    and "is": "tblwalk m r is = Some t" "table_path (is @ [i])" "\<not> present (m (entry t i))"
    and n: "frame_addr n" "n \<notin> U" "n + 4096 \<notin> U"
    and e: "present e" "get_physical_address e = n"
    and m': "m' = (clear_words n m)(entry t i := e)"
  shows "table_path js \<Longrightarrow> tblwalk m' r js =
    (if js = is @ [i] then Some n else if \<exists>k ks. js = is @ i # k # ks then None else tblwalk m r js)"
proof -
  have isp: "table_path is" and i: "unat i < 512" using "is"(2) by (simp_all add: table_path_snoc)
  have tU: "t \<in> U" using ptree_in [OF tree isp "is"(1)] .
  have other: "m' (entry u j) = (if u = t \<and> j = i then e else m (entry u j))"
    if "u \<in> U" "unat j < 512" for u j
    using that U n tU i by (auto simp: m' entry_inject intro!: clear_words_other)
  have own: "m' (entry n j) = 0" if "unat j < 512" for j
    using that U n tU i by (auto simp: m' entry_inject clear_words_own)
  show "table_path js \<Longrightarrow> ?thesis"
  proof (induction js rule: rev_induct)
    case Nil
    then show ?case by simp
  next
    case (snoc k ks)
    then have ksp: "table_path ks" and k: "unat k < 512" by (simp_all add: table_path_snoc)
    note IH = snoc.IH [OF ksp]
    consider "ks = is" | "ks = is @ [i]" | "\<exists>a as. ks = is @ i # a # as"
      | "ks \<noteq> is" "ks \<noteq> is @ [i]" "\<not> (\<exists>a as. ks = is @ i # a # as)" by blast
    then show ?case
    proof cases
      case 1
      with IH "is"(1) other [OF tU k] e "is"(3) show ?thesis
        by (auto simp: tblwalk_append)
    next
      case 2
      with IH have "tblwalk m' r ks = Some n" by simp
      then have "tblwalk m' r (ks @ [k]) = None"
        using own [OF k] by (simp only: tblwalk_append [of m' r ks "[k]"]) simp
      with 2 show ?thesis by simp
    next
      case 3
      then obtain a as where ks: "ks = is @ i # a # as" by blast
      with IH have "tblwalk m' r ks = None" by auto
      then have "tblwalk m' r (ks @ [k]) = None" by (simp add: tblwalk_append)
      moreover have "\<exists>b bs. ks @ [k] = is @ i # b # bs" "ks @ [k] \<noteq> is @ [i]" using ks by auto
      ultimately show ?thesis by simp
    next
      case 4
      then have same: "tblwalk m' r ks = tblwalk m r ks" using IH by simp
      have "ks @ [k] \<noteq> is @ [i]" "\<not> (\<exists>a as. ks @ [k] = is @ i # a # as)"
        using 4 by (auto simp: append_eq_append_conv2 append_eq_Cons_conv Cons_eq_append_conv)
      moreover have "tblwalk m' r (ks @ [k]) = tblwalk m r (ks @ [k])"
      proof (cases "tblwalk m r ks")
        case None
        then show ?thesis by (simp add: tblwalk_append same)
      next
        case (Some u)
        have "u \<noteq> t" using ptree_inj [OF tree ksp isp Some] "is"(1) 4(1) by auto
        then have "m' (entry u k) = m (entry u k)"
          using other [OF ptree_in [OF tree ksp Some] k] by simp
        then show ?thesis by (simp add: tblwalk_append same Some)
      qed
      ultimately show ?thesis by auto
    qed
  qed
qed

lemma link_ptree:
  assumes tree: "ptree m U r" and U: "\<forall>u \<in> U. frame_addr u"
    and "is": "tblwalk m r is = Some t" "table_path (is @ [i])" "\<not> present (m (entry t i))"
    and n: "frame_addr n" "n \<notin> U" "n + 4096 \<notin> U"
    and e: "present e" "get_physical_address e = n"
    and m': "m' = (clear_words n m)(entry t i := e)"
  shows "ptree m' (insert n U) r"
proof -
  note walk = link_tblwalk [OF assms]
  have new: "js = is @ [i] \<and> u = n \<or> tblwalk m r js = Some u \<and> u \<in> U"
    if "table_path js" "tblwalk m' r js = Some u" for js u
    using that walk [OF that(1)] ptree_in [OF tree that(1)] by (auto split: if_splits)
  show ?thesis
    unfolding ptree_def
  proof (intro conjI allI impI)
    fix js u assume "table_path js" "tblwalk m' r js = Some u"
    then show "u \<in> insert n U" using new by blast
  next
    fix js ks u
    assume "table_path js" "table_path ks" "tblwalk m' r js = Some u" "tblwalk m' r ks = Some u"
    then show "js = ks" using new [of js u] new [of ks u] n(2) ptree_inj [OF tree] by blast
  qed
qed

text \<open>Writing an entry of a last-level table changes no path.\<close>

lemma leaf_tblwalk:
  assumes tree: "ptree m U r" and U: "\<forall>u \<in> U. frame_addr u"
    and p: "tblwalk m r p = Some t" "table_path p" "length p = 3" and i: "unat i < 512"
  shows "table_path js \<Longrightarrow> tblwalk (m(entry t i := e)) r js = tblwalk m r js"
proof (induction js rule: rev_induct)
  case (snoc k ks)
  then have ksp: "table_path ks" and k: "unat k < 512" and len: "length ks < 3"
    by (simp_all add: table_path_snoc)
  note IH = snoc.IH [OF ksp]
  show ?case
  proof (cases "tblwalk m r ks")
    case None
    then show ?thesis using IH by (simp add: tblwalk_append)
  next
    case (Some u)
    have "u \<noteq> t" using ptree_inj [OF tree ksp p(2) Some] p(1,3) len by auto
    moreover have "u \<in> U" "t \<in> U" using ptree_in [OF tree] ksp Some p by blast+
    ultimately have "entry u k \<noteq> entry t i" using U i k by (simp add: entry_inject)
    then show ?thesis using IH Some by (simp add: tblwalk_append)
  qed
qed simp

text \<open>
  The address space as the code means it: a partial map from page indices (one per level) to frames,
  as the hardware translates with it.
\<close>

definition page_key :: "u64 \<Rightarrow> u16 list \<times> u16" where
  "page_key v = ([get_index_of_pml4 v, get_index_of_pdpt v, get_index_of_pdt v], get_index_of_pt v)"

definition address_space :: "(u64 \<Rightarrow> u64) \<Rightarrow> u64 \<Rightarrow> u16 list \<times> u16 \<rightharpoonup> u64" where
  "address_space m r = (\<lambda>(is, i).
     if length is = 3 \<and> table_path is \<and> unat i < 512 then
       (case tblwalk m r is of
          Some t \<Rightarrow> if present (m (entry t i)) then Some (get_physical_address (m (entry t i))) else None
        | None \<Rightarrow> None)
     else None)"

lemma page_key_path [simp]: "table_path (fst (page_key v))" "length (fst (page_key v)) = 3"
  by (simp_all add: page_key_def table_path_def)

lemma walk_pml4_tblwalk:
  "walk_pml4 r v s =
     (case tblwalk (pmem s) r (fst (page_key v)) of
        None \<Rightarrow> - 1
      | Some t \<Rightarrow> get_physical_address (pmem s (entry t (snd (page_key v)))))"
  by (simp add: walk_pml4_def page_key_def Let_def)

lemma walk_cong: "pmem s = pmem t \<Longrightarrow> walk_pml4 r v s = walk_pml4 r v t"
  by (simp only: walk_pml4_def)

lemma leaf_address_space:
  assumes tree: "ptree m U r" and U: "\<forall>u \<in> U. frame_addr u"
    and p: "tblwalk m r p = Some t" "table_path p" "length p = 3" and i: "unat i < 512"
    and e: "present e"
  shows "address_space (m(entry t i := e)) r = (address_space m r)((p, i) \<mapsto> get_physical_address e)"
proof (rule ext, clarify)
  fix js j
  note walk = leaf_tblwalk [OF tree U p i]
  show "address_space (m(entry t i := e)) r (js, j) =
      ((address_space m r)((p, i) \<mapsto> get_physical_address e)) (js, j)"
  proof (cases "length js = 3 \<and> table_path js \<and> unat j < 512")
    case False
    then show ?thesis using p i by (auto simp: address_space_def)
  next
    case js: True
    show ?thesis
    proof (cases "tblwalk m r js")
      case None
      then show ?thesis using js p walk by (auto simp: address_space_def)
    next
      case (Some u)
      have "u \<in> U" "t \<in> U" using ptree_in [OF tree] js Some p by blast+
      then have "entry u j = entry t i \<longleftrightarrow> u = t \<and> j = i" using U i js by (simp add: entry_inject)
      moreover have "u = t \<longleftrightarrow> js = p" using ptree_inj [OF tree _ p(2) Some] js p(1) Some by auto
      ultimately show ?thesis using js p walk Some e by (auto simp: address_space_def)
    qed
  qed
qed

text \<open>Linking in an empty table maps nothing.\<close>

lemma link_address_space:
  assumes tree: "ptree m U r" and U: "\<forall>u \<in> U. frame_addr u"
    and "is": "tblwalk m r is = Some t" "table_path (is @ [i])" "\<not> present (m (entry t i))"
    and n: "frame_addr n" "n \<notin> U" "n + 4096 \<notin> U"
    and e: "present e" "get_physical_address e = n"
    and m': "m' = (clear_words n m)(entry t i := e)"
  shows "address_space m' r = address_space m r"
proof (rule ext, clarify)
  fix js j
  have isp: "table_path is" and len: "length is < 3" and i: "unat i < 512"
    using "is"(2) by (simp_all add: table_path_snoc)
  have tU: "t \<in> U" using ptree_in [OF tree isp "is"(1)] .
  show "address_space m' r (js, j) = address_space m r (js, j)"
  proof (cases "length js = 3 \<and> table_path js \<and> unat j < 512")
    case False
    then show ?thesis by (auto simp: address_space_def)
  next
    case js: True
    note walk = link_tblwalk [OF assms, of js]
    have none: "tblwalk m r (is @ i # ks) = None" for ks
      using "is" by (simp add: tblwalk_append)
    consider "js = is @ [i]" | "\<exists>k ks. js = is @ i # k # ks"
      | "js \<noteq> is @ [i]" "\<not> (\<exists>k ks. js = is @ i # k # ks)" by blast
    then show ?thesis
    proof cases
      case 1
      moreover have "m' (entry n j) = 0"
        using js U n tU i by (auto simp: m' entry_inject clear_words_own)
      ultimately show ?thesis using walk js none [of "[]"] by (simp add: address_space_def)
    next
      case 2
      then obtain k ks where "js = is @ i # k # ks" by blast
      then show ?thesis using walk js none by (simp add: address_space_def)
    next
      case 3
      then have same: "tblwalk m' r js = tblwalk m r js" using walk js by simp
      show ?thesis
      proof (cases "tblwalk m r js")
        case None
        then show ?thesis using same by (simp add: address_space_def)
      next
        case (Some u)
        have uU: "u \<in> U" using ptree_in [OF tree _ Some] js by blast
        have "u \<noteq> t" using ptree_inj [OF tree _ isp Some] "is"(1) js len by auto
        then have "m' (entry u j) = m (entry u j)"
          using js uU U n tU i by (auto simp: m' entry_inject intro!: clear_words_other)
        then show ?thesis using same Some by (simp add: address_space_def)
      qed
    qed
  qed
qed

section \<open>Mapping a page\<close>

lemma virt_of_phys_more:
  "phys_state.more t = phys_state.more s \<Longrightarrow> pmem t = pmem s \<and> cr3_reg t = cr3_reg s \<and>
    cr0_reg t = cr0_reg s \<and> pml4_ptr t = pml4_ptr s \<and> kmem t = kmem s \<and>
    virt_state.more t = virt_state.more s"
  by (cases t, cases s) simp

lemma kmsg_virt [frame, simp]:
  "pmem (kmsg m s) = pmem s" "cr3_reg (kmsg m s) = cr3_reg s"
  "virt_state.more (kmsg m s) = virt_state.more s"
  using virt_of_phys_more [of "kmsg m s" s] by simp_all

lemma kmsg_alloc [frame, simp]:
  "used_of (kmsg m s) = used_of s" "frames_of (kmsg m s) = frames_of s"
  "ascending (kmsg m s) = ascending s" "pages_wf (kmsg m s) = pages_wf s"
  by (simp_all add: used_of_def frames_of_def ascending_def pages_wf_def)

lemma phys_mem_alloc_virt [frame, simp]:
  "pmem (snd (phys_mem_alloc s)) = pmem s" "cr3_reg (snd (phys_mem_alloc s)) = cr3_reg s"
  "virt_state.more (snd (phys_mem_alloc s)) = virt_state.more s"
  using virt_of_phys_more [of "snd (phys_mem_alloc s)" s] by simp_all

lemma phys_mem_free_virt [frame, simp]:
  "pmem (phys_mem_free a s) = pmem s" "cr3_reg (phys_mem_free a s) = cr3_reg s"
  "virt_state.more (phys_mem_free a s) = virt_state.more s"
  using virt_of_phys_more [of "phys_mem_free a s" s] by simp_all

lemma alloc_of_pmem_update [simp]:
  "used_of (s\<lparr>pmem := m\<rparr>) = used_of s" "frames_of (s\<lparr>pmem := m\<rparr>) = frames_of s"
  "ascending (s\<lparr>pmem := m\<rparr>) = ascending s" "pages_wf (s\<lparr>pmem := m\<rparr>) = pages_wf s"
  by (simp_all add: used_of_def frames_of_def ascending_def pages_wf_def)

lemma alloc_of_set_pml4 [simp]:
  "used_of (set_pml4 c s) = used_of s" "frames_of (set_pml4 c s) = frames_of s"
  "ascending (set_pml4 c s) = ascending s" "pmem (set_pml4 c s) = pmem s"
  "cr3_reg (set_pml4 c s) = c"
  by (simp_all add: used_of_def frames_of_def ascending_def pages_wf_def set_pml4_def)

text \<open>An address space rooted at \<open>r\<close> in a well-formed kernel state.\<close>

definition space_ok :: "'z virt_state_scheme \<Rightarrow> u64 \<Rightarrow> bool" where
  "space_ok s r \<longleftrightarrow> ascending s \<and> ptree (pmem s) (used_of s) r"

definition free_frames :: "'z virt_state_scheme \<Rightarrow> nat" where
  "free_frames s = card (frames_of s - used_of s)"

lemma used_frame_addr: "ascending s \<Longrightarrow> \<forall>u \<in> used_of s. frame_addr u"
  by (auto simp: ascending_def pages_wf_def used_of_def)

lemma kpa_frame: "frame_addr a \<Longrightarrow> get_kpa a = a"
  by (intro kpa_low) (simp add: frame_addr_def word_less_nat_alt)

lemma ensure_table_spec:
  assumes ok: "space_ok s r" and "is": "tblwalk (pmem s) r is = Some t" "table_path (is @ [i])"
    and flags: "present (ucast flags)" "unat flags < 4096" and free: "0 < free_frames s"
  shows "\<exists>u s'. ensure_table t i flags s = (u, s') \<and> space_ok s' r \<and>
    tblwalk (pmem s') r (is @ [i]) = Some u \<and>
    address_space (pmem s') r = address_space (pmem s) r \<and> free_frames s \<le> Suc (free_frames s')"
proof (cases "present (pmem s (entry t i))")
  case True
  then show ?thesis using ok "is" by (simp add: ensure_table_def tblwalk_append)
next
  case False
  let ?a = "fst (phys_mem_alloc s)" and ?s1 = "snd (phys_mem_alloc s)"
  from ok have asc: "ascending s" and tree: "ptree (pmem s) (used_of s) r" by (simp_all add: space_ok_def)
  from asc have wf: "pages_wf s" by (simp add: ascending_def)
  have nf: "\<not> frames_of s \<subseteq> used_of s"
    using free by (auto simp: free_frames_def Diff_eq_empty_iff [THEN iffD2])
  note alloc = pa.alloc_fresh [OF wf nf] and asc1 = ascending_alloc [OF asc nf]
  let ?m1 = "clear_words ?a (pmem s)"
  let ?e = "((?m1 (entry t i) AND NOT ENTRY_ADDRESS) OR ?a) OR ucast flags"
  let ?m = "?m1(entry t i := ?e)"
  have "unat (ucast flags :: u64) < 4096" using flags(2) by (simp add: unat_ucast_u32)
  then have e: "present ?e" "get_physical_address ?e = ?a"
    using flags(1) by (simp_all only: new_entry_address [OF asc1(3)] present_or simp_thms)
  have run: "ensure_table t i flags s = (?a, ?s1\<lparr>pmem := ?m\<rparr>)"
    using False e by (simp add: ensure_table_def Let_def case_prod_beta clear_table_def
        write_entry_def kpa_frame [OF asc1(3)])
  have n: "?a \<notin> used_of s" "?a + 4096 \<notin> used_of s" using alloc asc1(2) by auto
  note link = tree used_frame_addr [OF asc] "is" False asc1(3) n e refl
  have "ptree ?m (used_of ?s1) r"
    using link_ptree [OF link] alloc by simp
  moreover have "tblwalk ?m r (is @ [i]) = Some ?a"
    using link_tblwalk [OF link "is"(2)] by simp
  moreover have "address_space ?m r = address_space (pmem s) r"
    by (rule link_address_space [OF link])
  moreover have "free_frames s \<le> Suc (free_frames (?s1\<lparr>pmem := ?m\<rparr>))"
    using pa.card_run [OF wf, of 1] pa.frames_alloc [OF wf] by (simp add: free_frames_def)
  ultimately show ?thesis using run asc1(1) by (simp add: space_ok_def)
qed

subsection \<open>A concrete machine\<close>

text \<open>
  Eight frames from 0x1000 on; the first is a top-level table whose entry 0 leads to the empty table
  in the second, the others are free.
\<close>

definition small_machine :: virt_state where
  "small_machine =
     \<lparr>x_pos = 0, y_pos = 0, vgamemory = 0, vga = (\<lambda>_. 0), color = 0x0A, is_paging = 1,
      free_page_list = 0x1000,
      page_array = map (\<lambda>i. \<lparr>phys_addr_of_page = 0x1000 + of_nat i * 0x1000, reference_count = (if i < 2 then 1 else 0),
                             is_free_page = (if i < 2 then 1 else 0)\<rparr>) [0..<8],
      tarfs_sb = 0, dentry_cache_array = 0, kmem = (\<lambda>_. 0), nextS = 0, strtok_done = 1, last_pid = 0,
      pmem = (\<lambda>_. 0)(entry 0x1000 0 := 0x2007), cr3_reg = 0x1000, cr0_reg = 0, pml4_ptr = 0x1000\<rparr>"

lemma small_machine_frames:
  "used_of small_machine = {0x1000, 0x2000}"
  "frames_of small_machine = {0x1000, 0x2000, 0x3000, 0x4000, 0x5000, 0x6000, 0x7000, 0x8000}"
  by (auto simp: small_machine_def used_of_alt frames_of_def upt_rec)

lemma small_machine_free: "free_frames small_machine = 6"
  by (simp add: free_frames_def small_machine_frames insert_Diff_if)

lemma small_machine_ascending: "ascending small_machine"
proof -
  have "pages_wf small_machine"
    by (simp add: small_machine_def pages_wf_def frame_addr_def upt_rec)
  moreover have "sorted (map phys_addr_of_page (page_array small_machine))"
    by (simp add: small_machine_def upt_rec)
  ultimately show ?thesis by (simp add: ascending_def small_machine_frames insert_Diff_if)
qed

lemma small_machine_entry:
  assumes "unat i < 512"
  shows "pmem small_machine (entry 0x1000 i) = (if i = 0 then 0x2007 else 0)"
    and "pmem small_machine (entry 0x2000 i) = 0"
proof -
  have f: "low_page 0x1000" "low_page 0x2000" by (simp_all add: low_page_def)
  show "pmem small_machine (entry 0x1000 i) = (if i = 0 then 0x2007 else 0)"
    using entry_inject [OF f(1) f(1) assms, of 0] by (simp add: small_machine_def)
  show "pmem small_machine (entry 0x2000 i) = 0"
    using entry_inject [OF f(2) f(1) assms, of 0] by (simp add: small_machine_def)
qed

lemma small_machine_walk:
  assumes "table_path is" and "tblwalk (pmem small_machine) 0x1000 is = Some t"
  shows "is = [] \<and> t = 0x1000 \<or> is = [0] \<and> t = 0x2000"
proof (cases "is")
  case (Cons i js)
  have i: "unat i < 512" using assms(1) Cons by (simp add: table_path_def)
  have "i = 0" using assms(2) Cons small_machine_entry(1) [OF i] by (auto split: if_splits)
  then have js: "tblwalk (pmem small_machine) 0x2000 js = Some t"
    using assms(2) Cons small_machine_entry(1) [OF i]
    by (simp add: get_physical_address_def ENTRY_ADDRESS_def split: if_splits)
  have "js = []"
  proof (cases js)
    case c: (Cons j ks)
    have "unat j < 512" using assms(1) Cons c by (simp add: table_path_def)
    then show ?thesis using js c small_machine_entry(2) by simp
  qed
  then show ?thesis using js \<open>i = 0\<close> Cons by simp
qed (use assms in simp)

lemma small_machine_ok: "space_ok small_machine 0x1000"
proof -
  have "ptree (pmem small_machine) (used_of small_machine) 0x1000"
    unfolding ptree_def small_machine_frames
  proof (intro conjI allI impI)
    fix "is" t assume "table_path is" "tblwalk (pmem small_machine) 0x1000 is = Some t"
    then show "t \<in> {0x1000, 0x2000}" by (auto dest: small_machine_walk)
  next
    fix "is" js t
    assume "table_path is" "table_path js" "tblwalk (pmem small_machine) 0x1000 is = Some t"
      and "tblwalk (pmem small_machine) 0x1000 js = Some t"
    then show "is = js" using small_machine_walk [of "is" t] small_machine_walk [of js t] by auto
  qed
  with small_machine_ascending show ?thesis by (simp add: space_ok_def)
qed

lemma map_spec:
  assumes "space_ok s r" and "3 \<le> free_frames s"
    and "virt AND 4095 = 0" and "phys AND 4095 = 0" and "phys AND ENTRY_ADDRESS = phys"
    and "present (ucast flags)" and "unat flags < 4096"
  shows "let t = map_virtual_address_to_physical_address virt phys flags r False s in
    space_ok t r \<and> cr3_reg t = r \<and>
    address_space (pmem t) r = (address_space (pmem s) r)(page_key virt \<mapsto> phys) \<and>
    walk_pml4 r virt t = phys"
proof -
  let ?i4 = "get_index_of_pml4 virt" and ?i3 = "get_index_of_pdpt virt"
    and ?i2 = "get_index_of_pdt virt" and ?i1 = "get_index_of_pt virt"
  have path: "table_path ([] @ [?i4])" "table_path ([?i4] @ [?i3])" "table_path ([?i4, ?i3] @ [?i2])"
    by (simp_all add: table_path_def)
  have f1: "0 < free_frames s" using assms(2) by simp
  have nil: "tblwalk (pmem s) r [] = Some r" by simp
  obtain pdpt s1 where s1: "ensure_table r ?i4 flags s = (pdpt, s1)" "space_ok s1 r"
      "tblwalk (pmem s1) r [?i4] = Some pdpt" "address_space (pmem s1) r = address_space (pmem s) r"
      "free_frames s \<le> Suc (free_frames s1)"
    using ensure_table_spec [OF assms(1) nil path(1) assms(6,7) f1] by auto
  have f2: "0 < free_frames s1" using assms(2) s1(5) by simp
  obtain pdt s2 where s2: "ensure_table pdpt ?i3 flags s1 = (pdt, s2)" "space_ok s2 r"
      "tblwalk (pmem s2) r [?i4, ?i3] = Some pdt" "address_space (pmem s2) r = address_space (pmem s) r"
      "free_frames s1 \<le> Suc (free_frames s2)"
    using ensure_table_spec [OF s1(2,3) path(2) assms(6,7) f2] s1(4) by auto
  have f3: "0 < free_frames s2" using assms(2) s1(5) s2(5) by simp
  obtain pt s3 where s3: "ensure_table pdt ?i2 flags s2 = (pt, s3)" "space_ok s3 r"
      "tblwalk (pmem s3) r (fst (page_key virt)) = Some pt"
      "address_space (pmem s3) r = address_space (pmem s) r"
    using ensure_table_spec [OF s2(2,3) path(3) assms(6,7) f3] s2(4) by (auto simp: page_key_def)
  let ?e = "((pmem s3 (entry pt ?i1) AND NOT ENTRY_ADDRESS) OR phys) OR ucast flags"
  let ?m = "(pmem s3)(entry pt ?i1 := ?e)"
  let ?t = "set_pml4 r (s3\<lparr>pmem := ?m\<rparr>)"
  have run: "map_virtual_address_to_physical_address virt phys flags r False s = ?t"
    using assms(3,4) s1(1) s2(1) s3(1)
    by (simp add: map_virtual_address_to_physical_address_def Let_def write_entry_def)
  from s3(2) have asc: "ascending s3" and tree: "ptree (pmem s3) (used_of s3) r" by (simp_all add: space_ok_def)
  have "unat (ucast flags :: u64) < 4096" using assms(7) by (simp add: unat_ucast_u32)
  then have e: "present ?e" "get_physical_address ?e = phys"
    using assms(6) by (simp_all only: new_entry_field [OF assms(5)] present_or simp_thms)
  note leaf = tree used_frame_addr [OF asc] s3(3) page_key_path(1) page_key_path(2) index_bounds(4)
  have "address_space ?m r = (address_space (pmem s) r)(page_key virt \<mapsto> phys)"
    using leaf_address_space [OF leaf e(1)] e(2) s3(4) by (simp add: page_key_def)
  moreover have same: "tblwalk ?m r js = tblwalk (pmem s3) r js" if "table_path js" for js
    by (rule leaf_tblwalk [OF leaf that])
  moreover have "ptree ?m (used_of s3) r"
    using tree by (simp add: ptree_def same)
  moreover have "walk_pml4 r virt ?t = phys"
    using same [OF page_key_path(1)] s3(3) e(2) by (simp add: walk_pml4_tblwalk page_key_def)
  ultimately show ?thesis
    unfolding run Let_def using asc by (simp add: space_ok_def)
qed

text \<open>
  C5: Mapping a page refines updating the address space as a map: with three frames to spare,
  \<open>map_virtual_address_to_physical_address\<close> makes the page translate to the frame given, leaves the
  translation of every other page alone, keeps the tables a tree, and \<open>walk_pml4\<close> then finds the frame.
\<close>

theorem map_refines_update:
  assumes "space_ok s r" and "3 \<le> free_frames s"
    and "virt AND 4095 = 0" and "phys AND 4095 = 0" and "phys AND ENTRY_ADDRESS = phys"
    and "present (ucast flags)" and "unat flags < 4096"
  shows "let t = map_virtual_address_to_physical_address virt phys flags r False s in
    space_ok t r \<and> cr3_reg t = r \<and>
    address_space (pmem t) r = (address_space (pmem s) r)(page_key virt \<mapsto> phys) \<and>
    walk_pml4 r virt t = phys"
  using assms by (rule map_spec)

theorem map_refines_update_witness:
  "walk_pml4 0x1000 0x400000 (map_virtual_address_to_physical_address 0x400000 0x8000 7 0x1000 False small_machine) = 0x8000"
proof -
  have "(0x400000 :: u64) AND 4095 = 0" "(0x8000 :: u64) AND 4095 = 0"
    "(0x8000 :: u64) AND ENTRY_ADDRESS = 0x8000" "present (ucast (7 :: u32))" "unat (7 :: u32) < 4096"
    by (simp_all add: ENTRY_ADDRESS_def present_def PRESENT_def)
  from map_refines_update [OF small_machine_ok _ this] show ?thesis
    by (simp add: small_machine_free Let_def)
qed

section \<open>Flags\<close>

text \<open>Every bit set in \<open>m\<close> is set in \<open>m'\<close>.\<close>

definition grows :: "(u64 \<Rightarrow> u64) \<Rightarrow> (u64 \<Rightarrow> u64) \<Rightarrow> bool" where
  "grows m m' \<longleftrightarrow> (\<forall>a. m a AND m' a = m a)"

lemma grows_refl: "grows m m"
  by (simp add: grows_def)

lemma grows_write: "grows m (pmem s) \<Longrightarrow> grows m (pmem (write_entry tbl i (pmem s (entry tbl i) OR f) s))"
proof -
  have "x AND y = x \<Longrightarrow> x AND (y OR f) = x" for x y :: u64
    by (simp add: bit_eq_iff bit_simps) blast
  then show "grows m (pmem s) \<Longrightarrow> ?thesis" by (simp add: grows_def write_entry_def)
qed

text \<open>
  \<open>change_flags_in_parent_page_tables\<close> only ever sets bits: no bit of any page-table entry, the
  write permission in particular, is cleared, whatever flags it is given. It cannot make a
  writable page read-only, which is what its callers use it for.
\<close>

theorem change_flags_never_clears:
  "pmem s a AND pmem (snd (change_flags_in_parent_page_tables virt cr3 flags s)) a = pmem s a"
proof -
  have "grows (pmem s) (pmem (snd (change_flags_in_parent_page_tables virt cr3 flags s)))"
    by (simp add: change_flags_in_parent_page_tables_def Let_def grows_write grows_refl)
  then show ?thesis by (simp add: grows_def)
qed

section \<open>Freeing an address space\<close>

lemma fold_invariant:
  "P x \<Longrightarrow> (\<And>i x. P x \<Longrightarrow> P (f i x)) \<Longrightarrow> P (fold f is x)"
  by (induction "is" arbitrary: x) auto

text \<open>
  \<open>free_page_range\<close>, which is to release the tables and pages of an address space, releases
  nothing: every frame keeps its flag and its reference count.
\<close>

theorem free_page_range_frees_nothing:
  assumes "pages_wf s"
  shows "page_array (free_page_range level tbl s) = page_array s"
proof -
  have "pages_wf s \<Longrightarrow> pages_wf (free_page_range level tbl s) \<and>
      page_array (free_page_range level tbl s) = page_array s" for s :: "'a virt_state_scheme"
  proof (induction level arbitrary: tbl s)
    case 0
    then show ?case by (simp add: pages_wf_def)
  next
    case (Suc l)
    define ok where "ok t \<longleftrightarrow> pages_wf t \<and> page_array t = page_array s" for t :: "'a virt_state_scheme"
    have ok_free: "ok t \<Longrightarrow> ok (phys_mem_free (a OR KERNBASE) t)" for a t
      by (simp add: ok_def phys_mem_free_tagged pa.wf_free)
    have ok_free_base: "ok t \<Longrightarrow> ok (phys_mem_free KERNBASE t)" for t
      using ok_free [of t 0] by simp
    have "KERNBASE \<noteq> 0" by (simp add: KERNBASE_def)
    note ok_frees = ok_free ok_free_base this
    have ok_rec: "ok t \<Longrightarrow> ok (free_page_range l a t)" for a t
      using Suc.IH [of t a] by (simp add: ok_def)
    let ?f = "\<lambda>i (addr, s). let e = pmem s (entry tbl (of_nat i));
        (addr', s') = (if e \<noteq> 0 \<and> (if 2 \<le> l then present e else \<not> present e) then
                 (if l = 0 then (let a = get_physical_address e OR KERNBASE in (a, phys_mem_free a s))
                  else (let a = get_physical_address e in (a, free_page_range l a s)))
               else (addr, s))
        in (addr', if addr' \<noteq> 0 then phys_mem_free (addr' OR KERNBASE) s' else s')"
    have step: "ok (snd (?f i x))" if "ok (snd x)" for i x
      using that by (cases x) (simp add: Let_def ok_frees ok_rec)
    have "ok (snd (fold ?f [0..<512] (0, s)))"
      by (rule fold_invariant [where P = "\<lambda>x. ok (snd x)", OF _ step]) (simp add: ok_def Suc.prems)
    then have "4 \<le> l \<or> ok (free_page_range (Suc l) tbl s)" by simp
    then show ?case using Suc.prems by (auto simp: pages_wf_def ok_def)
  qed
  with assms show ?thesis by blast
qed

theorem free_page_range_frees_nothing_witness:
  "page_array (free_page_range 4 0x1000 small_machine) = page_array small_machine"
  by (rule free_page_range_frees_nothing) (use small_machine_ascending in \<open>simp add: ascending_def\<close>)

section \<open>Copying an address space\<close>

lemma fold_invariant_in:
  "P x \<Longrightarrow> (\<And>i x. i \<in> set is \<Longrightarrow> P x \<Longrightarrow> P (f i x)) \<Longrightarrow> P (fold f is x)"
  by (induction "is" arbitrary: x) auto

lemma unat_of_nat_u16: "i < 512 \<Longrightarrow> unat (of_nat i :: u16) = i"
  by (simp add: unat_of_nat take_bit_nat_eq_self)

lemma alloc_low_page: "pages_wf s \<Longrightarrow> low_page (fst (phys_mem_alloc s))"
  using pa.alloc_full [of s] pa.alloc_fresh [of s]
  by (cases "frames_of s \<subseteq> used_of s") (auto simp: frames_of_def pages_wf_def)

lemma ascending_alloc_any: "ascending s \<Longrightarrow> ascending (snd (phys_mem_alloc s))"
proof (cases "frames_of s \<subseteq> used_of s")
  case True
  assume asc: "ascending s"
  then have wf: "pages_wf s" and nn: "free_page_list s \<noteq> NULL" by (simp_all add: ascending_def pages_wf_def)
  show ?thesis
    using asc pa.wf_alloc [OF wf] pa.frames_alloc [OF wf] pa.alloc_full [OF wf True]
    by (simp add: ascending_def alloc_addrs [OF nn])
qed (rule ascending_alloc)

text \<open>What every operation that only fills newly allocated tables keeps of the state \<open>s\<close>.\<close>

definition keeps :: "'z virt_state_scheme \<Rightarrow> 'z virt_state_scheme \<Rightarrow> bool" where
  "keeps s t \<longleftrightarrow> ascending t \<and> frames_of t = frames_of s \<and> used_of s \<subseteq> used_of t \<and>
     (\<forall>u \<in> used_of s. \<forall>i. unat i < 512 \<longrightarrow> pmem t (entry u i) = pmem s (entry u i))"

lemma keeps_refl: "ascending s \<Longrightarrow> keeps s s"
  by (simp add: keeps_def)

lemma keeps_trans: "keeps s t \<Longrightarrow> keeps t u \<Longrightarrow> keeps s u"
  by (auto simp: keeps_def)

lemma keeps_alloc: "ascending s \<Longrightarrow> keeps s (snd (phys_mem_alloc s))"
  using pa.used_alloc_mono [of s] pa.frames_alloc [of s] ascending_alloc_any [of s]
  by (auto simp: keeps_def ascending_def)

lemma keeps_write:
  assumes "keeps s t" and "low_page a" and "a \<notin> used_of s" and "unat i < 512"
  shows "keeps s (write_entry a i e t)"
proof -
  have "entry u j \<noteq> entry a i" if "u \<in> used_of s" "unat j < 512" for u j
  proof -
    have "u \<in> used_of t" and asc: "ascending t" using assms(1) that(1) by (auto simp: keeps_def)
    then have "low_page u" using used_frame_addr [OF asc] by simp
    then show ?thesis using assms(2-4) that by (auto simp: entry_inject)
  qed
  with assms(1) show ?thesis by (auto simp: keeps_def write_entry_def)
qed

abbreviation copy_step :: "nat \<Rightarrow> u64 \<Rightarrow> u64 \<Rightarrow> nat \<Rightarrow> 'z virt_state_scheme \<Rightarrow> 'z virt_state_scheme" where
  "copy_step l tbl a i s \<equiv>
     (let s' = write_entry a (of_nat i) (pmem s (entry tbl (of_nat i))) s;
          e = pmem s' (entry tbl (of_nat i))
      in if 0 < l \<and> e \<noteq> 0 then snd (copy_page_tables l (get_physical_address e) s') else s')"

lemma copy_keeps: "ascending s \<Longrightarrow> keeps s (snd (copy_page_tables l tbl s))"
proof (induction l arbitrary: tbl s)
  case 0
  then show ?case by (simp add: keeps_def)
next
  case (Suc l)
  show ?case
  proof (cases "4 \<le> l")
    case True
    then show ?thesis using Suc.prems by (simp add: keeps_def)
  next
    case False
    let ?a = "fst (phys_mem_alloc s)" and ?s1 = "snd (phys_mem_alloc s)"
    from Suc.prems have wf: "pages_wf s" by (simp add: ascending_def)
    have step: "keeps s (copy_step l tbl ?a i t)" if "i \<in> set [0..<512]" and t: "keeps s t" for i t
    proof -
      have i: "unat (of_nat i :: u16) < 512" using that(1) by (simp add: unat_of_nat_u16)
      have w: "keeps s (write_entry ?a (of_nat i) e t)" for e
        using t alloc_low_page [OF wf] pa.alloc_not_used [OF wf] i by (rule keeps_write)
      then have "ascending (write_entry ?a (of_nat i) e t)" for e by (simp add: keeps_def)
      then show ?thesis using w Suc.IH keeps_trans by (simp add: Let_def) blast
    qed
    have "keeps s (fold (copy_step l tbl ?a) [0..<512] ?s1)"
      using keeps_alloc [OF Suc.prems] step by (rule fold_invariant_in [where P = "keeps s"])
    with False show ?thesis by (simp add: case_prod_beta Let_def)
  qed
qed

lemma copy_step_keeps:
  assumes "keeps s t" and "low_page a" and "a \<notin> used_of s" and "i < 512"
  shows "keeps s (copy_step l tbl a i t)"
proof -
  have i: "unat (of_nat i :: u16) < 512" using assms(4) by (simp add: unat_of_nat_u16)
  have w: "keeps s (write_entry a (of_nat i) e t)" for e using assms(1-3) i by (rule keeps_write)
  then have "ascending (write_entry a (of_nat i) e t)" for e by (simp add: keeps_def)
  then show ?thesis using w copy_keeps keeps_trans by (simp add: Let_def) blast
qed

text \<open>The copy loop fills the new table with the entries of the old one.\<close>

lemma copy_entries:
  assumes "keeps s s1" and "low_page a" and "a \<notin> used_of s" and "a \<in> used_of s1" and "tbl \<in> used_of s"
    and "k \<le> 512"
  shows "keeps s (fold (copy_step l tbl a) [0..<k] s1) \<and> a \<in> used_of (fold (copy_step l tbl a) [0..<k] s1) \<and>
    (\<forall>j < k. pmem (fold (copy_step l tbl a) [0..<k] s1) (entry a (of_nat j)) = pmem s (entry tbl (of_nat j)))"
  using assms(6)
proof (induction k)
  case 0
  then show ?case using assms by simp
next
  case (Suc k)
  define t where "t = fold (copy_step l tbl a) [0..<k] s1"
  have IH: "keeps s t" "a \<in> used_of t" "\<forall>j < k. pmem t (entry a (of_nat j)) = pmem s (entry tbl (of_nat j))"
    using Suc by (simp_all add: t_def)
  have next_t: "fold (copy_step l tbl a) [0..<Suc k] s1 = copy_step l tbl a k t"
    by (simp add: t_def)
  have idx: "unat (of_nat j :: u16) = j" if "j \<le> k" for j using that Suc.prems by (simp add: unat_of_nat_u16)
  have src: "pmem t (entry tbl (of_nat k)) = pmem s (entry tbl (of_nat k))"
    using IH(1) assms(5) idx [of k] Suc.prems by (simp add: keeps_def)
  let ?w = "write_entry a (of_nat k) (pmem s (entry tbl (of_nat k))) t"
  have asc: "ascending ?w" and aw: "a \<in> used_of ?w" using IH by (simp_all add: keeps_def write_entry_def)
  have pw: "pmem ?w (entry a (of_nat j)) = pmem s (entry tbl (of_nat j))" if "j \<le> k" for j
  proof (cases "j = k")
    case False
    then have "(of_nat j :: u16) \<noteq> of_nat k" using idx [OF that] idx [of k] by auto
    then show ?thesis
      using IH(3) that False idx [OF that] idx [of k] assms(2) Suc.prems
      by (simp add: write_entry_def entry_inject)
  qed (simp add: write_entry_def)
  have "keeps ?w (copy_step l tbl a k t)"
    unfolding Let_def src using keeps_refl [OF asc] copy_keeps [OF asc] by simp
  then have "a \<in> used_of (copy_step l tbl a k t)"
    and "\<forall>j \<le> k. pmem (copy_step l tbl a k t) (entry a (of_nat j)) = pmem s (entry tbl (of_nat j))"
    using aw pw idx Suc.prems by (auto simp: keeps_def)
  moreover have "keeps s (copy_step l tbl a k t)"
    using IH(1) assms(2,3) Suc.prems by (intro copy_step_keeps) simp_all
  ultimately show ?case unfolding next_t less_Suc_eq_le by blast
qed

lemma copy_pml4_run:
  "copy_page_tables 4 r s =
     (NOT KERNBASE AND (fst (phys_mem_alloc s) OR KERNBASE),
      fold (copy_step 3 r (fst (phys_mem_alloc s))) [0..<512] (snd (phys_mem_alloc s)))"
proof -
  have four: "(4 :: nat) = Suc 3" by simp
  show ?thesis unfolding four by (subst copy_page_tables.simps(2)) (simp add: case_prod_beta Let_def)
qed

lemma copy_pml4_entries:
  assumes "space_ok s r" and "0 < free_frames s" and "copy_page_tables 4 r s = (c, t)"
  shows "keeps s t" and "frame_addr c" and "c \<notin> used_of s" and "c \<in> used_of t"
    and "unat i < 512 \<Longrightarrow> pmem t (entry c i) = pmem s (entry r i)"
proof -
  let ?a = "fst (phys_mem_alloc s)" and ?s1 = "snd (phys_mem_alloc s)"
  from assms(1) have asc: "ascending s" and tree: "ptree (pmem s) (used_of s) r" by (simp_all add: space_ok_def)
  from asc have wf: "pages_wf s" by (simp add: ascending_def)
  have nf: "\<not> frames_of s \<subseteq> used_of s"
    using assms(2) by (auto simp: free_frames_def Diff_eq_empty_iff [THEN iffD2])
  note alloc = pa.alloc_fresh [OF wf nf] and fa = ascending_alloc(3) [OF asc nf]
  have rin: "r \<in> used_of s" using ptree_in [OF tree, of "[]" r] by (simp add: table_path_def)
  have "NOT KERNBASE AND (?a OR KERNBASE) = ?a"
    using kpa_frame [OF fa] kpa_or_KERNBASE [of ?a] by (simp add: get_kpa_def)
  then have c: "c = ?a" and t: "t = fold (copy_step 3 r ?a) [0..<512] ?s1"
    using copy_pml4_run [of r s] assms(3) by (simp_all only: prod.inject)
  have all: "keeps s t \<and> ?a \<in> used_of t \<and> (\<forall>j < 512. pmem t (entry ?a (of_nat j)) = pmem s (entry r (of_nat j)))"
    unfolding t using alloc rin fa keeps_alloc [OF asc] by (intro copy_entries) simp_all
  then show "keeps s t" "c \<in> used_of t" by (simp_all add: c)
  show "frame_addr c" "c \<notin> used_of s" using fa alloc by (simp_all add: c)
  show "pmem t (entry c i) = pmem s (entry r i)" if "unat i < 512"
  proof -
    have "pmem t (entry ?a (of_nat (unat i))) = pmem s (entry r (of_nat (unat i)))" using all that by blast
    then show ?thesis by (simp add: c)
  qed
qed

lemma keeps_tblwalk:
  assumes "keeps s t" and "ptree (pmem s) (used_of s) r"
  shows "table_path js \<Longrightarrow> tblwalk (pmem t) r js = tblwalk (pmem s) r js"
proof (induction js rule: rev_induct)
  case (snoc k ks)
  then have ks: "table_path ks" "unat k < 512" by (simp_all add: table_path_snoc)
  show ?case
  proof (cases "tblwalk (pmem s) r ks")
    case None
    then show ?thesis using snoc.IH [OF ks(1)] by (simp add: tblwalk_append)
  next
    case (Some u)
    have "u \<in> used_of s" using ptree_in [OF assms(2) ks(1) Some] .
    then have "pmem t (entry u k) = pmem s (entry u k)" using assms(1) ks(2) by (simp add: keeps_def)
    then show ?thesis using snoc.IH [OF ks(1)] Some by (simp add: tblwalk_append)
  qed
qed simp

lemma keeps_space_ok: "keeps s t \<Longrightarrow> space_ok s r \<Longrightarrow> space_ok t r"
  using keeps_tblwalk [of s t r] by (auto simp: space_ok_def ptree_def keeps_def)

text \<open>Equal memory gives equal translations; only the last step depends on the root.\<close>

lemma ensure_present: "present (pmem s (entry r i)) \<Longrightarrow> ensure_table r i f s = (get_physical_address (pmem s (entry r i)), s)"
  by (simp add: ensure_table_def)

lemma map_same_entry:
  assumes "present (pmem s (entry r (get_index_of_pml4 virt)))"
    and "pmem s (entry c (get_index_of_pml4 virt)) = pmem s (entry r (get_index_of_pml4 virt))"
  shows "pmem (map_virtual_address_to_physical_address virt phys flags c ref s) =
         pmem (map_virtual_address_to_physical_address virt phys flags r ref s)"
  using assms
  by (simp add: map_virtual_address_to_physical_address_def ensure_present Let_def case_prod_beta)

text \<open>
  C28: \<open>copy_page_tables\<close>, which \<^verbatim>\<open>fork\<close> uses to give the child an address space of its own, copies
  only the top-level table: the copy translates as the original does, but every table below the
  top level is the same frame in both.
\<close>

theorem copy_page_tables_shares:
  assumes "space_ok s r" and "0 < free_frames s" and "copy_page_tables 4 r s = (c, t)"
  shows "c \<notin> used_of s \<and> space_ok t r \<and> address_space (pmem t) c = address_space (pmem s) r \<and>
    (\<forall>i is. table_path (i # is) \<longrightarrow> tblwalk (pmem t) c (i # is) = tblwalk (pmem t) r (i # is))"
proof -
  note cp = copy_pml4_entries [OF assms]
  have tree: "ptree (pmem s) (used_of s) r" using assms(1) by (simp add: space_ok_def)
  have rin: "r \<in> used_of s" using ptree_in [OF tree, of "[]" r] by (simp add: table_path_def)
  have same: "tblwalk (pmem t) c (i # is) = tblwalk (pmem t) r (i # is)" if "table_path (i # is)" for i "is"
  proof -
    have i: "unat i < 512" using that by (simp add: table_path_def)
    then have "pmem t (entry r i) = pmem s (entry r i)" using cp(1) rin by (simp add: keeps_def)
    then show ?thesis using cp(5) [OF i] by simp
  qed
  have "address_space (pmem t) c k = address_space (pmem s) r k" for k
  proof (cases k)
    case (Pair "is" j)
    show ?thesis
    proof (cases "length is = 3 \<and> table_path is \<and> unat j < 512")
      case True
      then obtain i is' where "is" : "is = i # is'" by (cases "is") auto
      have eq: "tblwalk (pmem t) c is = tblwalk (pmem s) r is"
        using same [of i is'] keeps_tblwalk [OF cp(1) tree, of "is"] True by (simp only: "is")
      show ?thesis
      proof (cases "tblwalk (pmem s) r is")
        case (Some u)
        then have "u \<in> used_of s" using ptree_in [OF tree] True by blast
        then have "pmem t (entry u j) = pmem s (entry u j)" using cp(1) True by (simp add: keeps_def)
        then show ?thesis using eq Some by (simp add: Pair address_space_def)
      qed (use eq in \<open>simp add: Pair address_space_def\<close>)
    qed (auto simp: Pair address_space_def)
  qed
  then show ?thesis using cp(3) same keeps_space_ok [OF cp(1) assms(1)] by blast
qed

theorem copy_page_tables_shares_witness:
  "\<exists>c t. copy_page_tables 4 0x1000 small_machine = (c, t) \<and>
     address_space (pmem t) c = address_space (pmem small_machine) 0x1000"
proof -
  obtain c t where ct: "copy_page_tables 4 0x1000 small_machine = (c, t)" by (rule prod.exhaust)
  from copy_page_tables_shares [OF small_machine_ok _ ct] ct show ?thesis
    by (auto simp: small_machine_free)
qed


subsection \<open>An instance\<close>

lemma copy_step_zero:
  assumes "keeps s t" and "low_page a" and "a \<notin> used_of s" and "tbl \<in> used_of s" and "i < 512"
    and "pmem s (entry tbl (of_nat i)) = 0"
  shows "keeps s (copy_step l tbl a i t) \<and> used_of (copy_step l tbl a i t) = used_of t"
proof -
  have i: "unat (of_nat i :: u16) < 512" using assms(5) by (simp add: unat_of_nat_u16)
  let ?w = "write_entry a (of_nat i) (pmem t (entry tbl (of_nat i))) t"
  have k: "keeps s ?w" using assms(1-3) i by (rule keeps_write)
  then have "pmem ?w (entry tbl (of_nat i)) = 0" using assms(4,6) i by (simp add: keeps_def)
  then show ?thesis using k by (simp add: Let_def) (simp add: write_entry_def)
qed

lemma copy_rows_zero:
  assumes "keeps s t" and "low_page a" and "a \<notin> used_of s" and "tbl \<in> used_of s"
    and "\<forall>i \<in> set is. i < 512 \<and> pmem s (entry tbl (of_nat i)) = 0"
  shows "keeps s (fold (copy_step l tbl a) is t) \<and> used_of (fold (copy_step l tbl a) is t) = used_of t"
  using assms(1,5)
proof (induction "is" arbitrary: t)
  case (Cons i "is")
  have step: "keeps s (copy_step l tbl a i t)" "used_of (copy_step l tbl a i t) = used_of t"
    using copy_step_zero [OF Cons.prems(1) assms(2-4), of i l] Cons.prems(2) by simp_all
  from Cons.IH [OF step(1)] Cons.prems(2) step(2) show ?case by simp
qed simp

lemma copy_empty_table:
  assumes "ascending s" and "tbl \<in> used_of s" and "\<forall>i < 512. pmem s (entry tbl (of_nat i)) = 0" and "l < 4"
  shows "used_of (snd (copy_page_tables (Suc l) tbl s)) \<subseteq> insert (fst (phys_mem_alloc s)) (used_of s)"
proof -
  let ?a = "fst (phys_mem_alloc s)" and ?s1 = "snd (phys_mem_alloc s)"
  from assms(1) have wf: "pages_wf s" by (simp add: ascending_def)
  have "used_of (fold (copy_step l tbl ?a) [0..<512] ?s1) = used_of ?s1"
    using copy_rows_zero [OF keeps_alloc [OF assms(1)] alloc_low_page [OF wf] pa.alloc_not_used [OF wf] assms(2)]
      assms(3) by simp
  moreover have "used_of ?s1 \<subseteq> insert ?a (used_of s)"
    using pa.alloc_full [OF wf] pa.alloc_fresh [OF wf] by (cases "frames_of s \<subseteq> used_of s") auto
  ultimately show ?thesis using assms(4) by (simp add: case_prod_beta Let_def)
qed

lemma small_machine_copy_free:
  assumes "copy_page_tables 4 0x1000 small_machine = (c, t)"
  shows "3 \<le> free_frames t"
proof -
  let ?s = small_machine and ?a = "fst (phys_mem_alloc small_machine)"
  let ?s1 = "snd (phys_mem_alloc ?s)"
  note asc = small_machine_ascending
  from asc have wf: "pages_wf ?s" by (simp add: ascending_def)
  define t1 where "t1 = write_entry ?a (of_nat 0) (pmem ?s1 (entry 0x1000 (of_nat 0))) ?s1"
  have in1: "0x1000 \<in> used_of ?s" "0x2000 \<in> used_of ?s" by (simp_all add: small_machine_frames)
  have k1: "keeps ?s t1"
    unfolding t1_def by (rule keeps_write [OF keeps_alloc [OF asc] alloc_low_page [OF wf] pa.alloc_not_used [OF wf]]) simp
  then have asc1: "ascending t1" and sub: "used_of ?s \<subseteq> used_of t1" by (simp_all add: keeps_def)
  have e0: "pmem t1 (entry 0x1000 (of_nat 0)) = 0x2007"
    using k1 in1 small_machine_entry(1) [of 0] by (simp add: keeps_def)
  have "\<forall>i < 512. pmem t1 (entry 0x2000 (of_nat i)) = 0"
    using k1 in1 small_machine_entry(2) unat_of_nat_u16 by (simp add: keeps_def)
  then have u2: "used_of (snd (copy_page_tables (Suc 2) 0x2000 t1)) \<subseteq> insert (fst (phys_mem_alloc t1)) (used_of t1)"
    using in1 sub by (intro copy_empty_table asc1) auto
  define t2 where "t2 = snd (copy_page_tables 3 0x2000 t1)"
  have first: "copy_step 3 0x1000 ?a 0 ?s1 = t2"
    unfolding Let_def t1_def [symmetric] e0 t2_def by (simp add: get_physical_address_def ENTRY_ADDRESS_def)
  have k2: "keeps ?s t2" unfolding t2_def by (rule keeps_trans [OF k1 copy_keeps [OF asc1]])
  have z: "\<forall>i \<in> set [1..<512]. i < 512 \<and> pmem ?s (entry 0x1000 (of_nat i)) = 0"
  proof
    fix i :: nat assume "i \<in> set [1..<512]"
    then have "i < 512" "unat (of_nat i :: u16) = i" "0 < i" by (simp_all add: unat_of_nat_u16)
    moreover from this have "(of_nat i :: u16) \<noteq> 0" by (metis less_irrefl unsigned_0)
    ultimately show "i < 512 \<and> pmem ?s (entry 0x1000 (of_nat i)) = 0"
      using small_machine_entry(1) [of "of_nat i"] by simp
  qed
  have "[0..<512] = 0 # [1..<512]" by (simp add: upt_rec [of 0])
  then have "fold (copy_step 3 0x1000 ?a) [0..<512] ?s1 = fold (copy_step 3 0x1000 ?a) [1..<512] t2"
    by (simp only: fold_simps(2) first)
  moreover have "t = fold (copy_step 3 0x1000 ?a) [0..<512] ?s1"
    using copy_pml4_run [of "0x1000" ?s] assms by (simp only: prod.inject)
  ultimately have teq: "t = fold (copy_step 3 0x1000 ?a) [1..<512] t2" by (rule trans [rotated])
  have kt: "keeps ?s t" and ut: "used_of t = used_of t2"
    using copy_rows_zero [OF k2 alloc_low_page [OF wf] pa.alloc_not_used [OF wf] in1(1) z, of 3]
    unfolding teq by blast+
  have "used_of t1 \<subseteq> insert ?a (used_of ?s)"
    using pa.alloc_full [OF wf] pa.alloc_fresh [OF wf]
    by (cases "frames_of ?s \<subseteq> used_of ?s") (auto simp: t1_def write_entry_def)
  then have "frames_of ?s - used_of ?s - {?a, fst (phys_mem_alloc t1)} \<subseteq> frames_of t - used_of t"
    using u2 ut kt by (auto simp: keeps_def t2_def)
  then have "card (frames_of ?s - used_of ?s - {?a, fst (phys_mem_alloc t1)}) \<le> free_frames t"
    unfolding free_frames_def by (rule card_mono [rotated]) (simp add: frames_of_def)
  moreover have "free_frames ?s - card {?a, fst (phys_mem_alloc t1)} \<le>
      card (frames_of ?s - used_of ?s - {?a, fst (phys_mem_alloc t1)})"
    unfolding free_frames_def by (rule diff_card_le_card_Diff) simp
  moreover have "card {?a, fst (phys_mem_alloc t1)} \<le> 2" by (simp add: card_insert_if)
  ultimately show ?thesis using small_machine_free by linarith
qed


end
