(* ===== verification/Process_State.thy ===== *)
theory Process_State
  imports Virt_Mmgr
begin

text \<open>
  The kernel's process structures, \<^verbatim>\<open>include/sys/process.h\<close>, \<^verbatim>\<open>include/sys/queue.h\<close> and
  \<^verbatim>\<open>include/sys/syscalls.h\<close>: the process control block, the address-space descriptors, the process
  lists and the scheduler queues, the part of the kernel state that holds them, and checked access to
  a structure through a pointer. Structures of each C type live in a store of their own, indexed by
  address; the words of kernel stacks are words of physical memory, reached through the kernel base.
\<close>

section \<open>Structures\<close>

datatype proc_flags = PF_UTHREAD | PF_KTHREAD

datatype proc_state_enum = NEW | NORMAL | ZOMBIE | DEAD

datatype thread_state_enum = RUNNING | BLOCKED | WAITING | SLEEPING | STOPPED

definition MAX_FD :: nat where
  "MAX_FD = 256"

definition STACK_START :: u64 where
  "STACK_START = 0x00007ffffffff000"

definition STACK_LIMIT :: u64 where
  "STACK_LIMIT = STACK_START - 4 * PAGE_BLOCK_SIZE"

text \<open>The page fault handlers a virtual memory area can name.\<close>

datatype fault_fn = NoFaultFn | DoAnonFault | DoFileFault

record vm_map_entry =
  start_addr :: u64
  end_addr :: u64
  filesize :: u64
  memsize :: u64
  fileoffset :: u64
  protection :: u64
  vma_file :: ptr
  vma_next :: ptr
  vma_prev :: ptr
  vma_fault :: fault_fn

record mm_struct =
  mm_vma :: ptr
  mm_exec :: u64
  mm_file :: ptr
  mm_rip :: u64
  mm_cr3 :: u64

record pcb =
  esp0 :: u64
  rsp :: u64
  kstack :: ptr
  pcb_flags :: proc_flags
  foreground :: u8
  is_sigkill_pending :: u8
  is_sigsegv_pending :: u8
  pid :: u16
  process_exit_status :: u32
  on_rq :: u8
  time_slice :: u64
  cwd :: ptr
  sleep_time :: u64
  pptr :: ptr
  cptr :: ptr
  command :: ptr
  process_state :: proc_state_enum
  next_in_queue :: ptr
  pcb_mm :: ptr
  pcb_fd :: "ptr list"
  thread_state :: thread_state_enum

record proc_list =
  pl_process :: ptr
  pl_next :: ptr

record queue_type =
  processes :: ptr
  queue_flags :: u32

text \<open>The four scheduler queues, each a global variable of \<^verbatim>\<open>queue.h\<close>.\<close>

datatype queue_id = run_queue | blocked_queue | sleeping_queue | waiting_queue

text \<open>What \<^verbatim>\<open>my_memset(p, 0, ...)\<close> leaves in a structure.\<close>

definition zero_pcb :: pcb where
  "zero_pcb = \<lparr>esp0 = 0, rsp = 0, kstack = NULL, pcb_flags = PF_UTHREAD, foreground = 0,
     is_sigkill_pending = 0, is_sigsegv_pending = 0, pid = 0, process_exit_status = 0, on_rq = 0,
     time_slice = 0, cwd = NULL, sleep_time = 0, pptr = NULL, cptr = NULL, command = NULL,
     process_state = NEW, next_in_queue = NULL, pcb_mm = NULL, pcb_fd = replicate MAX_FD NULL,
     thread_state = RUNNING\<rparr>"

definition zero_mm :: mm_struct where
  "zero_mm = \<lparr>mm_vma = NULL, mm_exec = 0, mm_file = NULL, mm_rip = 0, mm_cr3 = 0\<rparr>"

section \<open>State\<close>

text \<open>
  The registers the assembly routines save by hand. \<open>tss_rsp0\<close> is the kernel stack the processor
  loads on an interrupt, \<open>msrs\<close> the model-specific registers, and \<open>k_rsp\<close>, \<open>u_rsp\<close> the fields of the structure \<^verbatim>\<open>global_ds\<close> points to.
\<close>

record cpu_regs =
  cpu_rsp :: u64
  cpu_rbp :: u64
  cpu_rbx :: u64
  cpu_r12 :: u64
  cpu_r13 :: u64
  cpu_r14 :: u64
  cpu_r15 :: u64

record proc_state = virt_state +
  pcb_at :: "ptr \<Rightarrow> pcb"
  mm_at :: "ptr \<Rightarrow> mm_struct"
  vma_at :: "ptr \<Rightarrow> vm_map_entry"
  plist_at :: "ptr \<Rightarrow> proc_list"
  queues :: "queue_id \<Rightarrow> queue_type"
  current :: ptr
  idle_task :: ptr
  allproc :: ptr
  zombproc :: ptr
  global_ds :: ptr
  k_rsp :: u64
  u_rsp :: u64
  msrs :: "u32 \<Rightarrow> u64"
  tss_rsp0 :: u64
  cpu :: cpu_regs
  ticks :: u32

section \<open>Access through pointers\<close>

definition get_pcb :: "ptr \<Rightarrow> (pcb \<Rightarrow> 'a) \<Rightarrow> ('z proc_state_scheme, 'a) kop" where
  [kop_defs]: "get_pcb p f = deref p (gets (\<lambda>s. f (pcb_at s p)))"

definition upd_pcb :: "ptr \<Rightarrow> (pcb \<Rightarrow> pcb) \<Rightarrow> ('z proc_state_scheme, unit) kop" where
  [kop_defs]: "upd_pcb p f = deref p (modify (\<lambda>s. s\<lparr>pcb_at := (pcb_at s)(p := f (pcb_at s p))\<rparr>))"

definition get_mm :: "ptr \<Rightarrow> (mm_struct \<Rightarrow> 'a) \<Rightarrow> ('z proc_state_scheme, 'a) kop" where
  [kop_defs]: "get_mm p f = deref p (gets (\<lambda>s. f (mm_at s p)))"

definition upd_mm :: "ptr \<Rightarrow> (mm_struct \<Rightarrow> mm_struct) \<Rightarrow> ('z proc_state_scheme, unit) kop" where
  [kop_defs]: "upd_mm p f = deref p (modify (\<lambda>s. s\<lparr>mm_at := (mm_at s)(p := f (mm_at s p))\<rparr>))"

definition get_vma :: "ptr \<Rightarrow> (vm_map_entry \<Rightarrow> 'a) \<Rightarrow> ('z proc_state_scheme, 'a) kop" where
  [kop_defs]: "get_vma p f = deref p (gets (\<lambda>s. f (vma_at s p)))"

definition upd_vma :: "ptr \<Rightarrow> (vm_map_entry \<Rightarrow> vm_map_entry) \<Rightarrow> ('z proc_state_scheme, unit) kop" where
  [kop_defs]: "upd_vma p f = deref p (modify (\<lambda>s. s\<lparr>vma_at := (vma_at s)(p := f (vma_at s p))\<rparr>))"

definition get_plist :: "ptr \<Rightarrow> (proc_list \<Rightarrow> 'a) \<Rightarrow> ('z proc_state_scheme, 'a) kop" where
  [kop_defs]: "get_plist p f = deref p (gets (\<lambda>s. f (plist_at s p)))"

definition upd_plist :: "ptr \<Rightarrow> (proc_list \<Rightarrow> proc_list) \<Rightarrow> ('z proc_state_scheme, unit) kop" where
  [kop_defs]: "upd_plist p f = deref p (modify (\<lambda>s. s\<lparr>plist_at := (plist_at s)(p := f (plist_at s p))\<rparr>))"

definition get_current_process :: "('z proc_state_scheme, ptr) kop" where
  "get_current_process = gets current"

text \<open>A 64-bit word of kernel memory, such as a slot of a kernel stack.\<close>

definition kword :: "ptr \<Rightarrow> 'z virt_state_scheme \<Rightarrow> u64" where
  "kword p s = pmem s (get_kpa p)"

definition set_kword :: "ptr \<Rightarrow> u64 \<Rightarrow> 'z virt_state_scheme \<Rightarrow> 'z virt_state_scheme" where
  "set_kword p v s = s\<lparr>pmem := (pmem s)(get_kpa p := v)\<rparr>"

definition do_wrmsr :: "u32 \<Rightarrow> u32 \<Rightarrow> u32 \<Rightarrow> 'z proc_state_scheme \<Rightarrow> 'z proc_state_scheme" where
  "do_wrmsr msr_reg lo_data hi_data s =
     s\<lparr>msrs := (msrs s)(msr_reg := push_bit 32 (ucast hi_data) OR ucast lo_data)\<rparr>"

definition do_rdmsr :: "u32 \<Rightarrow> 'z proc_state_scheme \<Rightarrow> u32 \<times> u32" where
  "do_rdmsr msr_reg s = (ucast (msrs s msr_reg), ucast (drop_bit 32 (msrs s msr_reg)))"

text \<open>Copying a string literal, which the compiler places in read-only memory.\<close>

definition my_memcpy_literal :: "ptr \<Rightarrow> bytes \<Rightarrow> ('z util_state_scheme, unit) kop" where
  "my_memcpy_literal dest bs = for_each [0..<length bs] (\<lambda>i. store (dest + of_nat i) (bs ! i))"

text \<open>A page of kernel memory: the result of the allocator as the kernel addresses it.\<close>

definition kalloc :: "('z phys_state_scheme, ptr) kop" where
  "kalloc = bnd (call phys_mem_alloc) (\<lambda>p. ret (p OR KERNBASE))"

lemma bnd_access [simp]:
  "bnd (get_pcb p f) k1 s = (if p = NULL then Fault NullDeref else k1 (f (pcb_at s p)) s)"
  "bnd (upd_pcb p g) k2 s =
     (if p = NULL then Fault NullDeref else k2 () (s\<lparr>pcb_at := (pcb_at s)(p := g (pcb_at s p))\<rparr>))"
  by (simp_all add: get_pcb_def upd_pcb_def)

lemma bnd_access_mm [simp]:
  "bnd (get_mm p f) k1 s = (if p = NULL then Fault NullDeref else k1 (f (mm_at s p)) s)"
  "bnd (upd_mm p g) k2 s =
     (if p = NULL then Fault NullDeref else k2 () (s\<lparr>mm_at := (mm_at s)(p := g (mm_at s p))\<rparr>))"
  by (simp_all add: get_mm_def upd_mm_def)

lemma bnd_access_vma [simp]:
  "bnd (get_vma p f) k1 s = (if p = NULL then Fault NullDeref else k1 (f (vma_at s p)) s)"
  "bnd (upd_vma p g) k2 s =
     (if p = NULL then Fault NullDeref else k2 () (s\<lparr>vma_at := (vma_at s)(p := g (vma_at s p))\<rparr>))"
  by (simp_all add: get_vma_def upd_vma_def)

lemma bnd_access_plist [simp]:
  "bnd (get_plist p f) k1 s = (if p = NULL then Fault NullDeref else k1 (f (plist_at s p)) s)"
  "bnd (upd_plist p g) k2 s =
     (if p = NULL then Fault NullDeref else k2 () (s\<lparr>plist_at := (plist_at s)(p := g (plist_at s p))\<rparr>))"
  by (simp_all add: get_plist_def upd_plist_def)

lemma run_access [simp]:
  "get_pcb p f1 s = (if p = NULL then Fault NullDeref else Ok (f1 (pcb_at s p), s))"
  "upd_pcb p g1 s = (if p = NULL then Fault NullDeref else Ok ((), s\<lparr>pcb_at := (pcb_at s)(p := g1 (pcb_at s p))\<rparr>))"
  "get_mm p f2 s = (if p = NULL then Fault NullDeref else Ok (f2 (mm_at s p), s))"
  "upd_mm p g2 s = (if p = NULL then Fault NullDeref else Ok ((), s\<lparr>mm_at := (mm_at s)(p := g2 (mm_at s p))\<rparr>))"
  "get_vma p f3 s = (if p = NULL then Fault NullDeref else Ok (f3 (vma_at s p), s))"
  "upd_vma p g3 s = (if p = NULL then Fault NullDeref else Ok ((), s\<lparr>vma_at := (vma_at s)(p := g3 (vma_at s p))\<rparr>))"
  "get_plist p f4 s = (if p = NULL then Fault NullDeref else Ok (f4 (plist_at s p), s))"
  "upd_plist p g4 s = (if p = NULL then Fault NullDeref else Ok ((), s\<lparr>plist_at := (plist_at s)(p := g4 (plist_at s p))\<rparr>))"
  by (simp_all add: kop_defs)

lemma bnd_current [simp]: "bnd get_current_process f s = f (current s) s"
  by (simp add: get_current_process_def)

lemma bnd_kalloc [simp]:
  "bnd kalloc f s = f (fst (phys_mem_alloc s) OR KERNBASE) (snd (phys_mem_alloc s))"
  by (simp add: kalloc_def)

lemma kalloc_nonnull [simp]: "p OR KERNBASE \<noteq> NULL"
proof
  assume *: "p OR KERNBASE = NULL"
  have "bit (p OR KERNBASE) 63" by (simp add: bit_simps KERNBASE_def)
  with * show False by simp
qed

section \<open>What the lower layers leave alone\<close>

lemma proc_of_virt_more:
  "virt_state.more t = virt_state.more s \<Longrightarrow> pcb_at t = pcb_at s \<and> mm_at t = mm_at s \<and> vma_at t = vma_at s \<and>
    plist_at t = plist_at s \<and> queues t = queues s \<and> current t = current s \<and> idle_task t = idle_task s \<and>
    allproc t = allproc s \<and> zombproc t = zombproc s \<and> global_ds t = global_ds s \<and> cpu t = cpu s \<and>
    ticks t = ticks s \<and> proc_state.more t = proc_state.more s"
  by (cases t, cases s) simp

lemma virt_of_console_more:
  "console.more t = console.more s \<Longrightarrow> virt_state.more t = virt_state.more s"
  by (cases t, cases s) simp

lemma kmsg_proc [frame, simp]:
  "pcb_at (kmsg m s) = pcb_at s" "mm_at (kmsg m s) = mm_at s" "vma_at (kmsg m s) = vma_at s"
  "plist_at (kmsg m s) = plist_at s" "queues (kmsg m s) = queues s" "current (kmsg m s) = current s"
  "idle_task (kmsg m s) = idle_task s" "allproc (kmsg m s) = allproc s" "zombproc (kmsg m s) = zombproc s"
  "global_ds (kmsg m s) = global_ds s" "proc_state.more (kmsg m s) = proc_state.more s"
  using proc_of_virt_more [of "kmsg m s" s] by simp_all

lemma phys_mem_alloc_proc [frame, simp]:
  "pcb_at (snd (phys_mem_alloc s)) = pcb_at s" "mm_at (snd (phys_mem_alloc s)) = mm_at s"
  "vma_at (snd (phys_mem_alloc s)) = vma_at s" "plist_at (snd (phys_mem_alloc s)) = plist_at s"
  "queues (snd (phys_mem_alloc s)) = queues s" "current (snd (phys_mem_alloc s)) = current s"
  "idle_task (snd (phys_mem_alloc s)) = idle_task s" "allproc (snd (phys_mem_alloc s)) = allproc s"
  "zombproc (snd (phys_mem_alloc s)) = zombproc s" "global_ds (snd (phys_mem_alloc s)) = global_ds s"
  "proc_state.more (snd (phys_mem_alloc s)) = proc_state.more s"
  using proc_of_virt_more [of "snd (phys_mem_alloc s)" s] by simp_all

lemma phys_mem_free_proc [frame, simp]:
  "pcb_at (phys_mem_free a s) = pcb_at s" "mm_at (phys_mem_free a s) = mm_at s"
  "vma_at (phys_mem_free a s) = vma_at s" "plist_at (phys_mem_free a s) = plist_at s"
  "queues (phys_mem_free a s) = queues s" "current (phys_mem_free a s) = current s"
  "idle_task (phys_mem_free a s) = idle_task s" "allproc (phys_mem_free a s) = allproc s"
  "zombproc (phys_mem_free a s) = zombproc s" "global_ds (phys_mem_free a s) = global_ds s"
  "proc_state.more (phys_mem_free a s) = proc_state.more s"
  using proc_of_virt_more [of "phys_mem_free a s" s] by simp_all

section \<open>Kernel pages of a small machine\<close>

text \<open>
  The kernel is booted with frames below 80 MB (\<^verbatim>\<open>sys/main.c\<close>). Then a page the allocator returns can be
  cleared or filled through the kernel base without running off the end of the address space.
\<close>

definition low_frames :: "'z phys_state_scheme \<Rightarrow> bool" where
  "low_frames s \<longleftrightarrow> (\<forall>p\<in>set (page_array s). phys_addr_of_page p < 0x10000000)"

lemma first_free_loop_low:
  assumes "\<forall>p\<in>set ps. phys_addr_of_page p < b" "first_free_loop ps = (qs, r)"
  shows "(\<forall>p\<in>set qs. phys_addr_of_page p < b) \<and> (\<forall>a. r = Some a \<longrightarrow> a < b)"
  using assms by (induction ps arbitrary: qs r) (auto split: if_splits prod.splits)

lemma alloc_low:
  assumes "low_frames s"
  shows "fst (phys_mem_alloc s) < 0x10000000" "low_frames (snd (phys_mem_alloc s))"
proof -
  obtain qs r where "first_free_loop (page_array s) = (qs, r)" by fastforce
  moreover from this assms have "(\<forall>p\<in>set qs. phys_addr_of_page p < 0x10000000) \<and> (\<forall>a. r = Some a \<longrightarrow> a < 0x10000000)"
    by (intro first_free_loop_low) (simp_all add: low_frames_def)
  moreover have "page_array (retag_free_page_list s) = page_array s" by (simp add: retag_free_page_list_def)
  ultimately show "fst (phys_mem_alloc s) < 0x10000000" "low_frames (snd (phys_mem_alloc s))"
    using assms by (auto simp: phys_mem_alloc_def phys_addr_of_first_free_page_def low_frames_def split: option.split)
qed

lemma low_frames_update [simp]:
  "low_frames (s\<lparr>pcb_at := f\<rparr>) = low_frames s" "low_frames (s\<lparr>mm_at := g\<rparr>) = low_frames s"
  "low_frames (s\<lparr>vma_at := h\<rparr>) = low_frames s" "low_frames (s\<lparr>plist_at := l\<rparr>) = low_frames s"
  "low_frames (s\<lparr>current := p\<rparr>) = low_frames s" "low_frames (s\<lparr>idle_task := p\<rparr>) = low_frames s"
  "low_frames (s\<lparr>queues := q\<rparr>) = low_frames s" "low_frames (s\<lparr>allproc := p\<rparr>) = low_frames s"
  "low_frames (s\<lparr>zombproc := p\<rparr>) = low_frames s"
  by (simp_all add: low_frames_def)

lemma low_frames_clear_table [simp]: "low_frames (clear_table p s) = low_frames s"
  by (simp add: clear_table_def low_frames_def)

lemma low_frames_kmem [simp]: "low_frames (s\<lparr>kmem := k\<rparr>) = low_frames s"
  by (simp add: low_frames_def)

lemma kernel_page_range: "a < 0x10000000 \<Longrightarrow> valid_range (a OR KERNBASE) 4097"
proof -
  assume a: "a < 0x10000000"
  have "a AND KERNBASE = 0"
  proof (rule bit_word_eqI)
    fix n assume "n < LENGTH(64)"
    show "bit (a AND KERNBASE) n = bit 0 n"
    proof (cases "n < 31")
      case True
      then show ?thesis by (simp add: KERNBASE_mask bit_simps)
    next
      case False
      have "take_bit 31 a = a" using a by (intro take_bit_self) (simp add: word_less_nat_alt)
      then have "\<not> bit a n" using False by (metis bit_take_bit_iff)
      then show ?thesis by (simp add: bit_simps)
    qed
  qed
  then have plus: "a OR KERNBASE = KERNBASE + a"
    using word_plus_and_or [of a KERNBASE] by (simp add: add.commute)
  have k: "unat KERNBASE = 18446744071562067968" by (simp add: KERNBASE_def)
  have "unat a < unat (0x10000000 :: u64)" using a by (simp only: word_less_nat_alt)
  then have b: "unat a < 0x10000000" by simp
  have "unat (KERNBASE + of_nat (unat a)) = unat KERNBASE + unat a"
    by (rule unat_add_of_nat) (use b k in simp)
  then have "unat (a OR KERNBASE) = 18446744071562067968 + unat a" by (simp add: plus k)
  with b show ?thesis unfolding valid_range_def by simp
qed

lemma kernel_page_memset:
  assumes "a < 0x10000000"
  shows "my_memset (a OR KERNBASE) c PAGE_BLOCK_SIZE s =
    Ok ((), s\<lparr>kmem := (fill (kmem s) (a OR KERNBASE) 4096 (\<lambda>_. c))((a OR KERNBASE) + 4096 := 0)\<rparr>)"
  using my_memset_run [of "a OR KERNBASE" PAGE_BLOCK_SIZE c s] kernel_page_range [OF assms]
  by (simp add: PAGE_BLOCK_SIZE_def)

lemma kernel_page_literal:
  assumes "a < 0x10000000" "length bs \<le> 4097"
  shows "my_memcpy_literal (a OR KERNBASE) bs s = Ok ((), s\<lparr>kmem := fill (kmem s) (a OR KERNBASE) (length bs) ((!) bs)\<rparr>)"
  unfolding my_memcpy_literal_def
  by (rule store_range [OF valid_range_mono [OF kernel_page_range [OF assms(1)] assms(2)]])

end
