(* ===== verification/Queue.thy ===== *)
theory Queue
  imports Process_State
begin

text \<open>
  The scheduler queues, \<^verbatim>\<open>sys/queue.c\<close>: singly linked lists threaded through the process control
  blocks. Insertion at either end and removal of the head implement a list; removal of an arbitrary
  process works for the first two elements and loops forever beyond them.
\<close>

section \<open>Operations\<close>

definition queue_head :: "queue_id \<Rightarrow> ('z proc_state_scheme, ptr) kop" where
  "queue_head q = gets (\<lambda>s. processes (queues s q))"

definition set_queue_head :: "queue_id \<Rightarrow> ptr \<Rightarrow> ('z proc_state_scheme, unit) kop" where
  "set_queue_head q p = modify (\<lambda>s. s\<lparr>queues := (queues s)(q := (queues s q)\<lparr>processes := p\<rparr>)\<rparr>)"

definition empty_queue :: queue_type where
  "empty_queue = \<lparr>processes = NULL, queue_flags = 0\<rparr>"

definition init_scheduler_queues :: "'z proc_state_scheme \<Rightarrow> 'z proc_state_scheme" where
  "init_scheduler_queues s = s\<lparr>queues := (queues s)
     (run_queue := empty_queue, blocked_queue := empty_queue,
      sleeping_queue := empty_queue, waiting_queue := empty_queue)\<rparr>"

definition add_process_to_queue_front :: "queue_id \<Rightarrow> ptr \<Rightarrow> ('z proc_state_scheme, unit) kop" where
  "add_process_to_queue_front q proc =
     bnd (queue_head q) (\<lambda>h.
     if h = NULL then
       bnd (set_queue_head q proc) (\<lambda>_. upd_pcb proc (next_in_queue_update (\<lambda>_. NULL)))
     else
       bnd (set_queue_head q proc) (\<lambda>_. upd_pcb proc (next_in_queue_update (\<lambda>_. h))))"

definition last_in_queue :: "ptr \<Rightarrow> ('z proc_state_scheme, ptr) kop" where
  "last_in_queue =
     loopM (\<lambda>p. bnd (get_pcb p next_in_queue) (\<lambda>n. ret (if n \<noteq> NULL then Inl n else Inr p)))"

definition add_process_to_queue :: "queue_id \<Rightarrow> ptr \<Rightarrow> ('z proc_state_scheme, unit) kop" where
  "add_process_to_queue q proc =
     bnd (queue_head q) (\<lambda>h.
     if h = NULL then
       bnd (set_queue_head q proc) (\<lambda>_. upd_pcb proc (next_in_queue_update (\<lambda>_. NULL)))
     else
       bnd (last_in_queue h) (\<lambda>l.
       bnd (upd_pcb l (next_in_queue_update (\<lambda>_. proc))) (\<lambda>_.
       upd_pcb proc (next_in_queue_update (\<lambda>_. NULL)))))"

text \<open>The loop that looks behind the head never moves on: it has no loop variable.\<close>

definition remove_behind_head :: "queue_id \<Rightarrow> ptr \<Rightarrow> unit \<Rightarrow> ('z proc_state_scheme, unit + unit) kop" where
  "remove_behind_head q proc _ =
     bnd (queue_head q) (\<lambda>h.
     bnd (get_pcb h next_in_queue) (\<lambda>n.
     if n = NULL then ret (Inr ())
     else
       bnd (get_pcb n pid) (\<lambda>np.
       bnd (get_pcb proc pid) (\<lambda>cp.
       if np = cp then
         bnd (get_pcb n next_in_queue) (\<lambda>nn.
         bnd (upd_pcb h (next_in_queue_update (\<lambda>_. nn))) (\<lambda>_. ret (Inr ())))
       else ret (Inl ())))))"

definition remove_process_from_queue :: "queue_id \<Rightarrow> ptr \<Rightarrow> ('z proc_state_scheme, unit) kop" where
  "remove_process_from_queue q proc =
     bnd (queue_head q) (\<lambda>h.
     if h = NULL then ret ()
     else
       bnd (get_pcb h pid) (\<lambda>hp.
       bnd (get_pcb proc pid) (\<lambda>cp.
       if hp = cp then bnd (get_pcb h next_in_queue) (set_queue_head q)
       else loopM (remove_behind_head q proc) ())))"

definition select_first_process_from_queue :: "queue_id \<Rightarrow> ('z proc_state_scheme, ptr) kop" where
  "select_first_process_from_queue q =
     bnd (queue_head q) (\<lambda>h. if h = NULL then ret NULL else ret h)"

definition remove_first_process_from_queue :: "queue_id \<Rightarrow> ('z proc_state_scheme, ptr) kop" where
  "remove_first_process_from_queue q =
     bnd (queue_head q) (\<lambda>h.
     if h = NULL then ret NULL
     else bnd (remove_process_from_queue q h) (\<lambda>_. ret h))"

section \<open>The list a queue holds\<close>

definition next_of :: "'z proc_state_scheme \<Rightarrow> ptr \<Rightarrow> ptr" where
  "next_of s p = next_in_queue (pcb_at s p)"

definition holds :: "queue_id \<Rightarrow> 'z proc_state_scheme \<Rightarrow> ptr list \<Rightarrow> bool" where
  "holds q s ps \<longleftrightarrow> llist (next_of s) (processes (queues s q)) ps"

text \<open>The states the operations lead to, as functions.\<close>

definition link :: "ptr \<Rightarrow> ptr \<Rightarrow> 'z proc_state_scheme \<Rightarrow> 'z proc_state_scheme" where
  "link p n s = s\<lparr>pcb_at := (pcb_at s)(p := (pcb_at s p)\<lparr>next_in_queue := n\<rparr>)\<rparr>"

definition rehead :: "queue_id \<Rightarrow> ptr \<Rightarrow> 'z proc_state_scheme \<Rightarrow> 'z proc_state_scheme" where
  "rehead q p s = s\<lparr>queues := (queues s)(q := (queues s q)\<lparr>processes := p\<rparr>)\<rparr>"

lemma next_of_link [simp]: "next_of (link p n s) = (next_of s)(p := n)"
  by (auto simp: next_of_def link_def fun_eq_iff)

lemma next_of_rehead [simp]: "next_of (rehead q p s) = next_of s"
  by (auto simp: next_of_def rehead_def fun_eq_iff)

lemma head_link [simp]: "queues (link p n s) = queues s"
  by (simp add: link_def)

lemma head_rehead [simp]: "processes (queues (rehead q p s) q') = (if q' = q then p else processes (queues s q'))"
  by (simp add: rehead_def)

lemma pcb_field_link [simp]:
  "pid (pcb_at (link p n s) x) = pid (pcb_at s x)"
  "on_rq (pcb_at (link p n s) x) = on_rq (pcb_at s x)"
  "process_state (pcb_at (link p n s) x) = process_state (pcb_at s x)"
  "thread_state (pcb_at (link p n s) x) = thread_state (pcb_at s x)"
  by (simp_all add: link_def)

lemma pcb_rehead [simp]: "pcb_at (rehead q p s) = pcb_at s"
  by (simp add: rehead_def)

lemma sched_globals_link [simp]:
  "current (link p n s) = current s" "idle_task (link p n s) = idle_task s"
  "current (rehead q p s) = current s" "idle_task (rehead q p s) = idle_task s"
  by (simp_all add: link_def rehead_def)

lemma queue_head_run [simp]: "bnd (queue_head q) f s = f (processes (queues s q)) s"
  by (simp add: queue_head_def)

lemma set_queue_head_run [simp]:
  "set_queue_head q p s = Ok ((), rehead q p s)"
  "bnd (set_queue_head q p) f s = f () (rehead q p s)"
  by (simp_all add: set_queue_head_def rehead_def)

lemma holds_Nil_iff: "holds q s ps \<Longrightarrow> processes (queues s q) = NULL \<longleftrightarrow> ps = []"
  unfolding holds_def by (rule llist_head_iff)

lemma holds_Cons: "holds q s (p # ps) \<Longrightarrow> processes (queues s q) = p \<and> p \<noteq> NULL"
  by (simp add: holds_def)

lemma holds_distinct: "holds q s ps \<Longrightarrow> distinct ps"
  unfolding holds_def by (rule llist_distinct)

lemma holds_nonNULL: "holds q s ps \<Longrightarrow> p \<in> set ps \<Longrightarrow> p \<noteq> NULL"
  unfolding holds_def by (rule lseg_nonNULL)

text \<open>Which lists survive a change of a link or of a head.\<close>

lemma holds_link: "p \<notin> set ps \<Longrightarrow> holds q (link p n s) ps = holds q s ps"
  by (simp add: holds_def)

lemma holds_rehead_other: "q' \<noteq> q \<Longrightarrow> holds q' (rehead q p s) ps = holds q' s ps"
  by (simp add: holds_def)

lemma holds_cong:
  "processes (queues s' q) = processes (queues s q) \<Longrightarrow>
   (\<And>p. p \<in> set ps \<Longrightarrow> next_of s' p = next_of s p) \<Longrightarrow> holds q s' ps = holds q s ps"
  unfolding holds_def by (simp only:) (rule lseg_cong)

section \<open>Insertion and removal as list operations\<close>

lemma add_front_run:
  assumes "holds q s ps" "p \<noteq> NULL" "p \<notin> set ps"
  shows "add_process_to_queue_front q p s = Ok ((), link p (processes (queues s q)) (rehead q p s))"
    and "holds q (link p (processes (queues s q)) (rehead q p s)) (p # ps)"
proof -
  show "add_process_to_queue_front q p s = Ok ((), link p (processes (queues s q)) (rehead q p s))"
    using assms(2) by (simp add: add_process_to_queue_front_def link_def)
  show "holds q (link p (processes (queues s q)) (rehead q p s)) (p # ps)"
    using assms by (simp add: holds_def)
qed

lemma last_in_queue_run:
  "llist (next_of s) h (ps @ [l]) \<Longrightarrow> last_in_queue h s = Ok (l, s)"
proof (induction ps arbitrary: h)
  case Nil
  then show ?case
    unfolding last_in_queue_def by (intro loopM_exit) (simp add: next_of_def)
next
  case (Cons p ps)
  have h: "h = p" "p \<noteq> NULL" and rest: "llist (next_of s) (next_of s p) (ps @ [l])"
    using Cons.prems by auto
  then have "next_of s p \<noteq> NULL" by (cases ps) auto
  with h have "last_in_queue h s = last_in_queue (next_of s p) s"
    unfolding last_in_queue_def by (intro loopM_continue) (simp add: next_of_def)
  with Cons.IH [OF rest] show ?case by simp
qed

lemma add_back_run:
  assumes "holds q s ps" "p \<noteq> NULL" "p \<notin> set ps"
  shows "add_process_to_queue q p s
         = Ok ((), link p NULL (if ps = [] then rehead q p s else link (last ps) p s))"
    and "holds q (link p NULL (if ps = [] then rehead q p s else link (last ps) p s)) (ps @ [p])"
proof -
  show "add_process_to_queue q p s
         = Ok ((), link p NULL (if ps = [] then rehead q p s else link (last ps) p s))"
  proof (cases ps rule: rev_cases)
    case Nil
    with assms show ?thesis by (simp add: add_process_to_queue_def holds_def link_def)
  next
    case (snoc as l)
    with assms(1) have head: "processes (queues s q) \<noteq> NULL" "l \<noteq> NULL"
      using holds_Nil_iff [OF assms(1)] holds_nonNULL [OF assms(1), of l] by auto
    from assms(1) snoc have "last_in_queue (processes (queues s q)) s = Ok (l, s)"
      by (intro last_in_queue_run) (simp add: holds_def)
    with head snoc assms(2) show ?thesis
      by (simp add: add_process_to_queue_def bnd_Ok link_def)
  qed
  show "holds q (link p NULL (if ps = [] then rehead q p s else link (last ps) p s)) (ps @ [p])"
  proof (cases ps rule: rev_cases)
    case Nil
    with assms show ?thesis by (simp add: holds_def)
  next
    case (snoc as l)
    with assms show ?thesis
      using llist_snoc [of "next_of s" _ as l p] by (simp add: holds_def)
  qed
qed

lemma remove_head_run:
  assumes "holds q s (p # ps)" "c \<noteq> NULL" "pid (pcb_at s p) = pid (pcb_at s c)"
  shows "remove_process_from_queue q c s = Ok ((), rehead q (next_of s p) s)"
    and "holds q (rehead q (next_of s p) s) ps"
  using assms by (simp_all add: remove_process_from_queue_def holds_def next_of_def)

lemma remove_second_run:
  assumes "holds q s (a # p # ps)" "c \<noteq> NULL"
    and "pid (pcb_at s a) \<noteq> pid (pcb_at s c)" "pid (pcb_at s p) = pid (pcb_at s c)"
  shows "remove_process_from_queue q c s = Ok ((), link a (next_of s p) s)"
    and "holds q (link a (next_of s p) s) (a # ps)"
proof -
  have h: "processes (queues s q) = a" "a \<noteq> NULL" "next_in_queue (pcb_at s a) = p" "p \<noteq> NULL"
    using assms(1) by (auto simp: holds_def next_of_def)
  then have "remove_behind_head q c () s = Ok (Inr (), link a (next_of s p) s)"
    using assms by (simp add: remove_behind_head_def next_of_def link_def)
  with h assms show "remove_process_from_queue q c s = Ok ((), link a (next_of s p) s)"
    by (simp add: remove_process_from_queue_def loopM_exit)
  show "holds q (link a (next_of s p) s) (a # ps)"
    using assms(1) llist_unlink [of "next_of s" _ "[]" a p ps] by (simp add: holds_def)
qed

lemma remove_deeper_diverges:
  assumes "holds q s (a # b # ps)" "c \<noteq> NULL"
    and "pid (pcb_at s a) \<noteq> pid (pcb_at s c)" "pid (pcb_at s b) \<noteq> pid (pcb_at s c)"
  shows "remove_process_from_queue q c s = Diverge"
proof -
  have h: "processes (queues s q) = a" "a \<noteq> NULL" "next_in_queue (pcb_at s a) = b" "b \<noteq> NULL"
    using assms(1) by (auto simp: holds_def next_of_def)
  then have "remove_behind_head q c () s = Ok (Inl (), s)"
    using assms by (simp add: remove_behind_head_def)
  then have "loopM (remove_behind_head q c) () s = Diverge"
    by (intro loopM_diverges [where I = "\<lambda>_ t. t = s"]) auto
  with h assms show ?thesis by (simp add: remove_process_from_queue_def)
qed

lemma remove_absent_run:
  assumes "holds q s ps" "c \<noteq> NULL" "length ps \<le> 1"
    and "\<forall>p\<in>set ps. pid (pcb_at s p) \<noteq> pid (pcb_at s c)"
  shows "remove_process_from_queue q c s = Ok ((), s)"
proof (cases ps)
  case Nil
  with assms show ?thesis by (simp add: remove_process_from_queue_def holds_def)
next
  case (Cons a as)
  with assms have "as = []" by simp
  with Cons assms have h: "processes (queues s q) = a" "a \<noteq> NULL" "next_in_queue (pcb_at s a) = NULL"
    by (auto simp: holds_def next_of_def)
  then have "remove_behind_head q c () s = Ok (Inr (), s)"
    by (simp add: remove_behind_head_def)
  with h Cons assms show ?thesis by (simp add: remove_process_from_queue_def loopM_exit)
qed

section \<open>The contract of a first-in first-out queue\<close>

text \<open>The results of running an operation \<open>n\<close> times.\<close>

primrec repeat_op :: "nat \<Rightarrow> ('s, 'x) kop \<Rightarrow> ('s, 'x list) kop" where
  "repeat_op 0 m = ret []"
| "repeat_op (Suc n) m = bnd m (\<lambda>x. bnd (repeat_op n m) (\<lambda>xs. ret (x # xs)))"

text \<open>
  \<open>enq\<close> and \<open>deq\<close> are the operations, \<open>repr s xs\<close> says that the queue of state \<open>s\<close> holds \<open>xs\<close>,
  and \<open>item\<close> is what may be put in.
\<close>

locale fifo_queue =
  fixes repr :: "'s \<Rightarrow> 'x list \<Rightarrow> bool"
    and enq :: "'x \<Rightarrow> ('s, unit) kop"
    and deq :: "('s, 'x) kop"
    and item :: "'x \<Rightarrow> bool"
  assumes enq_repr: "repr s xs \<Longrightarrow> item x \<Longrightarrow> x \<notin> set xs \<Longrightarrow> \<exists>t. enq x s = Ok ((), t) \<and> repr t (xs @ [x])"
    and deq_repr: "repr s (x # xs) \<Longrightarrow> \<exists>t. deq s = Ok (x, t) \<and> repr t xs"
begin

lemma enq_all:
  "repr s xs \<Longrightarrow> \<forall>y\<in>set ys. item y \<Longrightarrow> distinct (xs @ ys) \<Longrightarrow>
   \<exists>t. for_each ys enq s = Ok ((), t) \<and> repr t (xs @ ys)"
proof (induction ys arbitrary: s xs)
  case Nil
  then show ?case by simp
next
  case (Cons y ys)
  obtain t where t: "enq y s = Ok ((), t)" "repr t (xs @ [y])"
    using enq_repr [of s xs y] Cons.prems by auto
  obtain u where "for_each ys enq t = Ok ((), u)" "repr u ((xs @ [y]) @ ys)"
    using Cons.IH [of t "xs @ [y]"] t Cons.prems by auto
  with t show ?case by (simp add: bnd_Ok)
qed

lemma deq_all: "repr s (xs @ ys) \<Longrightarrow> \<exists>t. repeat_op (length xs) deq s = Ok (xs, t) \<and> repr t ys"
proof (induction xs arbitrary: s)
  case Nil
  then show ?case by simp
next
  case (Cons x xs)
  obtain t where t: "deq s = Ok (x, t)" "repr t (xs @ ys)"
    using deq_repr [of s x "xs @ ys"] Cons.prems by auto
  obtain u where "repeat_op (length xs) deq t = Ok (xs, u)" "repr u ys"
    using Cons.IH [OF t(2)] by auto
  with t show ?case by (auto simp: bnd_Ok)
qed

text \<open>What goes in comes out in the same order.\<close>

lemma fifo_order:
  assumes "repr s xs" "\<forall>y\<in>set ys. item y" "distinct (xs @ ys)"
  shows "\<exists>t. bnd (for_each ys enq) (\<lambda>_. repeat_op (length (xs @ ys)) deq) s = Ok (xs @ ys, t) \<and> repr t []"
proof -
  obtain t where t: "for_each ys enq s = Ok ((), t)" "repr t (xs @ ys)"
    using enq_all [OF assms] by auto
  then show ?thesis using deq_all [of t "xs @ ys" "[]"] by (simp add: bnd_Ok)
qed

end

lemma remove_first_run:
  assumes "holds q s (p # ps)"
  shows "remove_first_process_from_queue q s = Ok (p, rehead q (next_of s p) s)"
    and "holds q (rehead q (next_of s p) s) ps"
proof -
  have h: "processes (queues s q) = p" "p \<noteq> NULL" using holds_Cons [OF assms] by auto
  note rm = remove_head_run [OF assms, of p]
  from h rm(1) show "remove_first_process_from_queue q s = Ok (p, rehead q (next_of s p) s)"
    by (simp add: remove_first_process_from_queue_def bnd_Ok)
  from h rm(2) show "holds q (rehead q (next_of s p) s) ps" by simp
qed

interpretation pq: fifo_queue "holds q" "add_process_to_queue q" "remove_first_process_from_queue q" "\<lambda>p. p \<noteq> NULL"
  for q :: queue_id
proof unfold_locales
  fix s :: "'a proc_state_scheme" and xs x
  assume "holds q s xs" "x \<noteq> NULL" "x \<notin> set xs"
  then show "\<exists>t. add_process_to_queue q x s = Ok ((), t) \<and> holds q t (xs @ [x])"
    using add_back_run [of q s xs x] by blast
next
  fix s :: "'a proc_state_scheme" and xs x
  assume "holds q s (x # xs)"
  then show "\<exists>t. remove_first_process_from_queue q s = Ok (x, t) \<and> holds q t xs"
    using remove_first_run [of q s x xs] by blast
qed

section \<open>Properties\<close>

text \<open>
  Concrete machines: \<open>chain_pcbs n ps\<close> has control blocks at the addresses \<open>ps\<close>, with pids \<open>n\<close>,
  \<open>n + 1\<close> and so on, each linked to the next.
\<close>

definition idle_machine :: "(ptr \<Rightarrow> pcb) \<Rightarrow> proc_state" where
  "idle_machine pcbs =
     virt_state.extend (small_machine)
       \<lparr>pcb_at = pcbs, mm_at = (\<lambda>_. zero_mm),
        vma_at = (\<lambda>_. \<lparr>start_addr = 0, end_addr = 0, filesize = 0, memsize = 0, fileoffset = 0,
                       protection = 0, vma_file = NULL, vma_next = NULL, vma_prev = NULL,
                       vma_fault = NoFaultFn\<rparr>),
        plist_at = (\<lambda>_. \<lparr>pl_process = NULL, pl_next = NULL\<rparr>),
        queues = (\<lambda>_. empty_queue), current = NULL, idle_task = NULL, allproc = NULL, zombproc = NULL,
        global_ds = 0x1000, k_rsp = 0, u_rsp = 0, msrs = (\<lambda>_. 0), tss_rsp0 = 0,
        cpu = \<lparr>cpu_rsp = 0, cpu_rbp = 0, cpu_rbx = 0, cpu_r12 = 0, cpu_r13 = 0, cpu_r14 = 0, cpu_r15 = 0\<rparr>,
        ticks = 0\<rparr>"

fun chain_pcbs :: "u16 \<Rightarrow> ptr list \<Rightarrow> ptr \<Rightarrow> pcb" where
  "chain_pcbs n [] = (\<lambda>_. zero_pcb)"
| "chain_pcbs n (p # ps) = (chain_pcbs (n + 1) ps)
     (p := zero_pcb\<lparr>pid := n, process_state := NORMAL, thread_state := RUNNING, on_rq := 1,
                    time_slice := 1000, next_in_queue := (case ps of [] \<Rightarrow> NULL | r # _ \<Rightarrow> r)\<rparr>)"

definition queued_machine :: "queue_id \<Rightarrow> ptr list \<Rightarrow> proc_state" where
  "queued_machine q ps = rehead q (hd ps) (idle_machine (chain_pcbs 1 ps))"

lemma queued_machine_simps [simp]:
  "pcb_at (queued_machine q ps) = chain_pcbs 1 ps"
  "processes (queues (queued_machine q ps) q) = hd ps"
  "next_of (queued_machine q ps) p = next_in_queue (chain_pcbs 1 ps p)"
  by (simp_all add: queued_machine_def idle_machine_def virt_state.defs next_of_def rehead_def)

text \<open>
  C11: A scheduler queue is first in, first out. Started with any content, adding further processes
  with \<^verbatim>\<open>add_process_to_queue\<close> and then taking the first process off as often as there are processes
  returns all of them in the order in which they entered, and leaves the queue empty.
\<close>

theorem queue_fifo:
  assumes "holds q s ps" "NULL \<notin> set rs" "distinct (ps @ rs)"
  shows "\<exists>t. bnd (for_each rs (add_process_to_queue q))
               (\<lambda>_. repeat_op (length (ps @ rs)) (remove_first_process_from_queue q)) s
             = Ok (ps @ rs, t) \<and> holds q t []"
  using assms by (intro pq.fifo_order) auto

theorem queue_fifo_witness:
  "\<exists>t. bnd (for_each [0x3000, 0x4000] (add_process_to_queue sleeping_queue))
         (\<lambda>_. repeat_op (Suc 3) (remove_first_process_from_queue sleeping_queue))
         (queued_machine sleeping_queue [0x1000, 0x2000])
       = Ok ([0x1000, 0x2000, 0x3000, 0x4000], t) \<and> holds sleeping_queue t []"
  using queue_fifo [of sleeping_queue "queued_machine sleeping_queue [0x1000, 0x2000]" "[0x1000, 0x2000]" "[0x3000, 0x4000]"]
  by (simp add: holds_def numeral_3_eq_3)

text \<open>The list without its first process that carries the pid of \<open>c\<close>.\<close>

definition without_pid :: "'z proc_state_scheme \<Rightarrow> ptr \<Rightarrow> ptr list \<Rightarrow> ptr list" where
  "without_pid s c ps = takeWhile (\<lambda>p. pid (pcb_at s p) \<noteq> pid (pcb_at s c)) ps
                        @ tl (dropWhile (\<lambda>p. pid (pcb_at s p) \<noteq> pid (pcb_at s c)) ps)"

lemma remove_returns:
  assumes "holds q s ps" "c \<noteq> NULL"
    and "length ps \<le> 1 \<or> (\<exists>p\<in>set (take 2 ps). pid (pcb_at s p) = pid (pcb_at s c))"
  shows "\<exists>t. remove_process_from_queue q c s = Ok ((), t) \<and> holds q t (without_pid s c ps)"
proof -
  consider (none) "length ps \<le> 1" "\<forall>p\<in>set ps. pid (pcb_at s p) \<noteq> pid (pcb_at s c)"
    | (first) a as where "ps = a # as" "pid (pcb_at s a) = pid (pcb_at s c)"
    | (second) a b as where "ps = a # b # as" "pid (pcb_at s a) \<noteq> pid (pcb_at s c)"
        "pid (pcb_at s b) = pid (pcb_at s c)"
    using assms(3) by (cases ps; cases "tl ps") auto
  then show ?thesis
  proof cases
    case none
    then have "without_pid s c ps = ps" by (cases ps) (auto simp: without_pid_def)
    with none assms show ?thesis by (simp add: remove_absent_run)
  next
    case first
    with assms show ?thesis
      using remove_head_run [of q s a as c] by (simp add: without_pid_def)
  next
    case second
    with assms show ?thesis
      using remove_second_run [of q s a b as c] by (simp add: without_pid_def)
  qed
qed

text \<open>
  Removing a process from a queue by pid never returns when the queue has at least two
  processes and the pid is not among its first two: the search loop re-reads the head and does not
  advance. In every other case it returns, and the queue is the old list without the first process
  that has the pid.
\<close>

theorem remove_process_from_queue_outcome:
  assumes "holds q s ps" "c \<noteq> NULL"
  shows "if 2 \<le> length ps \<and> pid (pcb_at s c) \<notin> (\<lambda>p. pid (pcb_at s p)) ` set (take 2 ps)
         then remove_process_from_queue q c s = Diverge
         else \<exists>t. remove_process_from_queue q c s = Ok ((), t) \<and> holds q t (without_pid s c ps)"
proof (cases "2 \<le> length ps \<and> pid (pcb_at s c) \<notin> (\<lambda>p. pid (pcb_at s p)) ` set (take 2 ps)")
  case True
  then obtain a b as where "ps = a # b # as" by (cases ps; cases "tl ps") auto
  with True assms show ?thesis
    using remove_deeper_diverges [of q s a b as c] by auto
next
  case False
  then have "length ps \<le> 1 \<or> (\<exists>p\<in>set (take 2 ps). pid (pcb_at s p) = pid (pcb_at s c))"
    by auto
  with remove_returns [OF assms] have "\<exists>t. remove_process_from_queue q c s = Ok ((), t) \<and> holds q t (without_pid s c ps)"
    by blast
  with False show ?thesis by (simp only: if_False)
qed

theorem remove_process_from_queue_outcome_witness:
  "remove_process_from_queue run_queue 0x3000 (queued_machine run_queue [0x1000, 0x2000, 0x3000]) = Diverge
   \<and> (\<exists>t. remove_process_from_queue run_queue 0x2000 (queued_machine run_queue [0x1000, 0x2000, 0x3000]) = Ok ((), t)
        \<and> holds run_queue t [0x1000, 0x3000])"
  using remove_process_from_queue_outcome
      [of run_queue "queued_machine run_queue [0x1000, 0x2000, 0x3000]" "[0x1000, 0x2000, 0x3000]" "0x3000"]
    remove_process_from_queue_outcome
      [of run_queue "queued_machine run_queue [0x1000, 0x2000, 0x3000]" "[0x1000, 0x2000, 0x3000]" "0x2000"]
  by (simp add: holds_def without_pid_def)

end
