(* ===== verification/Scheduler.thy ===== *)
theory Scheduler
  imports Queue
begin

text \<open>
  The scheduler, \<^verbatim>\<open>sys/scheduler.c\<close> with the assembly routine \<^verbatim>\<open>sys/scheduler.s\<close>. A call of
  \<open>schedule\<close> ends in the stack of the process it switches to; its model is the kernel state at that
  moment. What the calling function does after the call runs when the caller is switched to again.
\<close>

section \<open>Switching stacks\<close>

definition push :: "(cpu_regs \<Rightarrow> u64) \<Rightarrow> 'z proc_state_scheme \<Rightarrow> 'z proc_state_scheme" where
  "push r s =
     (let sp = cpu_rsp (cpu s) - 8
      in set_kword sp (r (cpu s)) (s\<lparr>cpu := (cpu s)\<lparr>cpu_rsp := sp\<rparr>\<rparr>))"

definition pop :: "((u64 \<Rightarrow> u64) \<Rightarrow> cpu_regs \<Rightarrow> cpu_regs) \<Rightarrow> 'z proc_state_scheme \<Rightarrow> 'z proc_state_scheme" where
  "pop reg_update s =
     (let sp = cpu_rsp (cpu s); v = kword sp s
      in s\<lparr>cpu := (reg_update (\<lambda>_. v) (cpu s))\<lparr>cpu_rsp := sp + 8\<rparr>\<rparr>)"

definition push_callee_saved :: "'z proc_state_scheme \<Rightarrow> 'z proc_state_scheme" where
  "push_callee_saved s =
     push cpu_r15 (push cpu_r14 (push cpu_r13 (push cpu_r12 (push cpu_rbx (push cpu_rbp s)))))"

definition pop_callee_saved :: "'z proc_state_scheme \<Rightarrow> 'z proc_state_scheme" where
  "pop_callee_saved s =
     pop cpu_rbp_update (pop cpu_rbx_update (pop cpu_r12_update
       (pop cpu_r13_update (pop cpu_r14_update (pop cpu_r15_update s)))))"

definition set_tss_rsp :: "u64 \<Rightarrow> 'z proc_state_scheme \<Rightarrow> 'z proc_state_scheme" where
  "set_tss_rsp r s = s\<lparr>tss_rsp0 := r\<rparr>"

definition MSR_GS_KERNEL_BASE :: u32 where
  "MSR_GS_KERNEL_BASE = 0xC0000102"

definition set_gs_kernel_base :: "'z proc_state_scheme \<Rightarrow> 'z proc_state_scheme" where
  "set_gs_kernel_base s =
     do_wrmsr MSR_GS_KERNEL_BASE (ucast (global_ds s)) (ucast (drop_bit 32 (global_ds s))) s"

definition post_stack_switch :: "ptr \<Rightarrow> ptr \<Rightarrow> ('z proc_state_scheme, unit) kop" where
  "post_stack_switch prev next =
     bnd (modify (current_update (\<lambda>_. next))) (\<lambda>_.
     bnd (get_pcb next esp0) (\<lambda>e.
     bnd (modify (set_tss_rsp e)) (\<lambda>_.
     bnd (gets global_ds) (\<lambda>g.
     bnd (deref g (modify (\<lambda>s. s\<lparr>k_rsp := e, u_rsp := 0\<rparr>))) (\<lambda>_.
     modify set_gs_kernel_base)))))"

definition do_switch :: "ptr \<Rightarrow> ptr \<Rightarrow> ('z proc_state_scheme, unit) kop" where
  "do_switch prev next =
     bnd (modify push_callee_saved) (\<lambda>_.
     bnd (gets (\<lambda>s. cpu_rsp (cpu s))) (\<lambda>sp.
     bnd (upd_pcb prev (rsp_update (\<lambda>_. sp))) (\<lambda>_.
     bnd (get_pcb next rsp) (\<lambda>nsp.
     bnd (modify (\<lambda>s. s\<lparr>cpu := (cpu s)\<lparr>cpu_rsp := nsp\<rparr>\<rparr>)) (\<lambda>_.
     bnd (modify pop_callee_saved) (\<lambda>_.
     post_stack_switch prev next))))))"

definition switch_mm :: "ptr \<Rightarrow> ptr \<Rightarrow> ('z proc_state_scheme, unit) kop" where
  "switch_mm prev_mm next_mm = bnd (get_mm next_mm mm_cr3) (\<lambda>c. modify (set_pml4 c))"

definition switch_to :: "ptr \<Rightarrow> ptr \<Rightarrow> ('z proc_state_scheme, unit) kop" where
  "switch_to prev next = do_switch prev next"

definition context_switch :: "ptr \<Rightarrow> ptr \<Rightarrow> ('z proc_state_scheme, unit) kop" where
  "context_switch prev next =
     bnd (get_pcb prev pcb_mm) (\<lambda>prev_mm.
     bnd (get_pcb next pcb_mm) (\<lambda>next_mm.
     bnd (switch_mm prev_mm next_mm) (\<lambda>_. switch_to prev next)))"

section \<open>The scheduler\<close>

definition TIME_SLICE :: u64 where
  "TIME_SLICE = 1000"

definition pick_next_task :: "ptr \<Rightarrow> ('z proc_state_scheme, ptr) kop" where
  "pick_next_task c = select_first_process_from_queue run_queue"

text \<open>The three branches that move a process from the run queue to the queue it waits on.\<close>

definition requeue :: "queue_id \<Rightarrow> ptr \<Rightarrow> ('z proc_state_scheme, unit) kop" where
  "requeue q prev =
     bnd (get_pcb prev on_rq) (\<lambda>r.
     if r = 1 then
       bnd (remove_process_from_queue run_queue prev) (\<lambda>_.
       bnd (upd_pcb prev (on_rq_update (\<lambda>_. 0))) (\<lambda>_.
       add_process_to_queue q prev))
     else ret ())"

definition dequeue_prev :: "ptr \<Rightarrow> ('z proc_state_scheme, unit) kop" where
  "dequeue_prev prev =
     bnd (get_pcb prev process_state) (\<lambda>ps.
     bnd (get_pcb prev thread_state) (\<lambda>ts.
     if ps = ZOMBIE \<and> ts = STOPPED then
       bnd (get_pcb prev on_rq) (\<lambda>r.
       bnd (if r = 1 then remove_process_from_queue run_queue prev else ret ()) (\<lambda>_.
       upd_pcb prev (on_rq_update (\<lambda>_. 0))))
     else if ps = NORMAL \<and> ts = SLEEPING then requeue sleeping_queue prev
     else if ps = NORMAL \<and> ts = BLOCKED then requeue blocked_queue prev
     else if ps = NORMAL \<and> ts = WAITING then requeue waiting_queue prev
     else ret ()))"

definition switch_to_next :: "ptr \<Rightarrow> ptr \<Rightarrow> ('z proc_state_scheme, unit) kop" where
  "switch_to_next prev next =
     (if next = NULL then
        bnd (modify (\<lambda>s. s\<lparr>current := idle_task s\<rparr>)) (\<lambda>_.
        bnd (gets current) (context_switch prev))
      else if prev \<noteq> next then
        bnd (modify (current_update (\<lambda>_. next))) (\<lambda>_.
        bnd (get_pcb next sleep_time) (\<lambda>t.
        bnd (if t \<le> 0 then upd_pcb next (sleep_time_update (\<lambda>_. 0)) else ret ()) (\<lambda>_.
        context_switch prev next)))
      else ret ())"

definition schedule :: "('z proc_state_scheme, unit) kop" where
  "schedule =
     bnd get_current_process (\<lambda>prev.
     bnd (get_pcb prev time_slice) (\<lambda>t.
     bnd (if t \<le> 0 then upd_pcb prev (time_slice_update (\<lambda>_. TIME_SLICE)) else ret ()) (\<lambda>_.
     bnd (dequeue_prev prev) (\<lambda>_.
     bnd (pick_next_task prev) (\<lambda>next.
     bnd (get_pcb prev process_state) (\<lambda>ps.
     bnd (get_pcb prev thread_state) (\<lambda>ts.
     switch_to_next prev (if next = NULL \<and> ps = NORMAL \<and> ts = RUNNING then prev else next))))))))"

definition block_process :: "ptr \<Rightarrow> ('z proc_state_scheme, unit) kop" where
  "block_process process =
     (if process = NULL then ret ()
      else
        bnd (upd_pcb process (process_state_update (\<lambda>_. NORMAL))) (\<lambda>_.
        bnd (upd_pcb process (thread_state_update (\<lambda>_. BLOCKED))) (\<lambda>_.
        schedule)))"

definition try_to_wake_up :: "queue_id \<Rightarrow> ptr \<Rightarrow> ('z proc_state_scheme, unit) kop" where
  "try_to_wake_up queue process =
     (if process = NULL then ret ()
      else
        bnd (upd_pcb process (process_state_update (\<lambda>_. NORMAL))) (\<lambda>_.
        bnd (upd_pcb process (thread_state_update (\<lambda>_. RUNNING))) (\<lambda>_.
        bnd (remove_process_from_queue queue process) (\<lambda>_.
        bnd (get_pcb process on_rq) (\<lambda>r.
        if r = 0 then
          bnd (add_process_to_queue_front run_queue process) (\<lambda>_.
          upd_pcb process (on_rq_update (\<lambda>_. 1)))
        else ret ())))))"

text \<open>
  \<open>sys_sleep_process\<close> up to the call of the scheduler, where it is suspended (\<open>None\<close>), and what it does
  once it is switched to again.
\<close>

definition sys_sleep_process :: "u64 \<Rightarrow> ('z proc_state_scheme, u32 option) kop" where
  "sys_sleep_process seconds =
     (if seconds < 1 then
        bnd (modify (kmsg ''usage sleep <seconds> : where seconds is positive\<newline>'')) (\<lambda>_. ret (Some (- 1)))
      else
        bnd get_current_process (\<lambda>c.
        bnd (upd_pcb c (process_state_update (\<lambda>_. NORMAL))) (\<lambda>_.
        bnd (upd_pcb c (thread_state_update (\<lambda>_. SLEEPING))) (\<lambda>_.
        bnd (upd_pcb c (sleep_time_update (\<lambda>_. seconds * 1000))) (\<lambda>_.
        bnd (get_pcb c pid) (\<lambda>i.
        bnd (kprintf ''Process with pid %d going to sleep..\<newline>'' [VInt (ucast i)]) (\<lambda>_.
        bnd schedule (\<lambda>_. ret None))))))))"

definition sys_sleep_process_resumed :: "('z proc_state_scheme, u32) kop" where
  "sys_sleep_process_resumed = bnd (modify (kmsg ''Waking up from sleep...\<newline>'')) (\<lambda>_. ret 0)"

section \<open>Start-up\<close>

definition init_mm :: "('z proc_state_scheme, ptr) kop" where
  "init_mm =
     bnd kalloc (\<lambda>m.
     bnd (upd_mm m (mm_vma_update (\<lambda>_. NULL))) (\<lambda>_.
     bnd (upd_mm m (mm_exec_update (\<lambda>_. 0))) (\<lambda>_.
     bnd (upd_mm m (mm_file_update (\<lambda>_. NULL))) (\<lambda>_.
     bnd (upd_mm m (mm_rip_update (\<lambda>_. 0))) (\<lambda>_.
     bnd (gets get_pml4) (\<lambda>c.
     bnd (upd_mm m (mm_cr3_update (\<lambda>_. c))) (\<lambda>_.
     ret m)))))))"

text \<open>\<open>cpu_idle\<close> is the address of the idle loop, fixed by the linker.\<close>

definition init_idle :: "u64 \<Rightarrow> ('z proc_state_scheme, unit) kop" where
  "init_idle cpu_idle =
     bnd kalloc (\<lambda>i.
     bnd (modify (idle_task_update (\<lambda>_. i))) (\<lambda>_.
     bnd (upd_pcb i (on_rq_update (\<lambda>_. 0))) (\<lambda>_.
     bnd init_mm (\<lambda>m.
     bnd (upd_pcb i (pcb_mm_update (\<lambda>_. m))) (\<lambda>_.
     bnd kalloc (\<lambda>k.
     bnd (upd_pcb i (kstack_update (\<lambda>_. k))) (\<lambda>_.
     bnd (modify (clear_table k)) (\<lambda>_.
     bnd (upd_pcb i (\<lambda>t. t\<lparr>pcb_flags := PF_KTHREAD, esp0 := k + PAGE_BLOCK_SIZE,
                             is_sigkill_pending := 0, is_sigsegv_pending := 0\<rparr>)) (\<lambda>_.
     bnd kalloc (\<lambda>c.
     bnd (upd_pcb i (command_update (\<lambda>_. c))) (\<lambda>_.
     bnd (my_memset c 0 PAGE_BLOCK_SIZE) (\<lambda>_.
     bnd (my_memcpy_literal c (bytes_of ''Idle Task'' @ [0])) (\<lambda>_.
     bnd (upd_pcb i (\<lambda>t. t\<lparr>pid := 0, process_state := NORMAL, thread_state := RUNNING,
                             time_slice := TIME_SLICE, pptr := i\<rparr>)) (\<lambda>_.
     bnd (upd_mm m (mm_rip_update (\<lambda>_. cpu_idle))) (\<lambda>_.
     modify (current_update (\<lambda>_. i)))))))))))))))))"

definition scheduler_init :: "u64 \<Rightarrow> ('z proc_state_scheme, unit) kop" where
  "scheduler_init cpu_idle = bnd (modify init_scheduler_queues) (\<lambda>_. init_idle cpu_idle)"

section \<open>What a context switch changes\<close>

definition switched :: "ptr \<Rightarrow> ptr \<Rightarrow> 'z proc_state_scheme \<Rightarrow> 'z proc_state_scheme" where
  "switched prev next s =
     (let s1 = push_callee_saved s;
          s2 = s1\<lparr>pcb_at := (pcb_at s1)(prev := (pcb_at s1 prev)\<lparr>rsp := cpu_rsp (cpu s1)\<rparr>)\<rparr>;
          s3 = pop_callee_saved (s2\<lparr>cpu := (cpu s2)\<lparr>cpu_rsp := rsp (pcb_at s2 next)\<rparr>\<rparr>);
          e = esp0 (pcb_at s3 next)
      in set_gs_kernel_base ((set_tss_rsp e (s3\<lparr>current := next\<rparr>))\<lparr>k_rsp := e, u_rsp := 0\<rparr>))"

lemma push_frame [simp]:
  "pcb_at (push r s) = pcb_at s" "mm_at (push r s) = mm_at s" "queues (push r s) = queues s"
  "current (push r s) = current s" "idle_task (push r s) = idle_task s"
  "global_ds (push r s) = global_ds s" "cr3_reg (push r s) = cr3_reg s"
  "cpu_rsp (cpu (push r s)) = cpu_rsp (cpu s) - 8"
  by (simp_all add: push_def set_kword_def Let_def)

lemma pop_frame [simp]:
  "pcb_at (pop r s) = pcb_at s" "mm_at (pop r s) = mm_at s" "queues (pop r s) = queues s"
  "current (pop r s) = current s" "idle_task (pop r s) = idle_task s"
  "global_ds (pop r s) = global_ds s" "cr3_reg (pop r s) = cr3_reg s" "pmem (pop r s) = pmem s"
  by (simp_all add: pop_def Let_def)

lemma do_switch_run:
  "do_switch prev next s =
     (if prev = NULL \<or> next = NULL \<or> global_ds s = NULL then Fault NullDeref
      else Ok ((), switched prev next s))"
  by (auto simp: do_switch_def post_stack_switch_def switched_def Let_def push_callee_saved_def
      pop_callee_saved_def set_tss_rsp_def)

lemma context_switch_run:
  "context_switch prev next s =
     (if prev = NULL \<or> next = NULL \<or> pcb_mm (pcb_at s next) = NULL \<or> global_ds s = NULL then Fault NullDeref
      else Ok ((), switched prev next (set_pml4 (mm_cr3 (mm_at s (pcb_mm (pcb_at s next)))) s)))"
  by (auto simp: context_switch_def switch_mm_def switch_to_def do_switch_run set_pml4_def)

lemma switched_fields [simp]:
  "queues (switched prev next s) = queues s"
  "current (switched prev next s) = next"
  "idle_task (switched prev next s) = idle_task s"
  "pcb_at (switched prev next s) = (pcb_at s)(prev := (pcb_at s prev)\<lparr>rsp := cpu_rsp (cpu s) - 48\<rparr>)"
  "mm_at (switched prev next s) = mm_at s"
  "global_ds (switched prev next s) = global_ds s"
  "cr3_reg (switched prev next s) = cr3_reg s"
  "tss_rsp0 (switched prev next s) = esp0 (pcb_at s next)"
  "k_rsp (switched prev next s) = esp0 (pcb_at s next)"
  by (simp_all add: switched_def Let_def push_callee_saved_def pop_callee_saved_def set_gs_kernel_base_def
      do_wrmsr_def set_tss_rsp_def)

lemma set_pml4_fields [simp]:
  "queues (set_pml4 c s) = queues s" "current (set_pml4 c s) = current s"
  "idle_task (set_pml4 c s) = idle_task s" "pcb_at (set_pml4 c s) = pcb_at s"
  "mm_at (set_pml4 c s) = mm_at s" "global_ds (set_pml4 c s) = global_ds s"
  "cr3_reg (set_pml4 c s) = c" "cpu (set_pml4 c s) = cpu s" "pmem (set_pml4 c s) = pmem s"
  by (simp_all add: set_pml4_def)

section \<open>A saved context survives until it is resumed\<close>

lemma get_kpa_take_bit: "get_kpa v = take_bit 31 v"
  by (simp add: get_kpa_def KERNBASE_mask take_bit_eq_mask and.commute)

lemma take_bit_word_diff: "take_bit 31 (a - b :: u64) = take_bit 31 (take_bit 31 a - take_bit 31 b)"
proof -
  have u: "uint (take_bit 31 v) = uint v mod 2 ^ 31" for v :: u64
    unfolding unsigned_take_bit_eq by (rule take_bit_eq_mod)
  have d: "uint (x - y) mod 2 ^ 31 = (uint x - uint y) mod 2 ^ 31" for x y :: u64
    by (simp add: uint_word_ariths mod_mod_cancel)
  show ?thesis
    unfolding word_uint_eq_iff u d by (simp add: mod_diff_eq)
qed

lemma get_kpa_diff_eq_iff: "get_kpa (r - x) = get_kpa (r - y) \<longleftrightarrow> take_bit 31 x = take_bit 31 y"
proof
  assume eq: "get_kpa (r - x) = get_kpa (r - y)"
  have "take_bit 31 (r - (r - x)) = take_bit 31 (r - (r - y))"
    by (subst (1 2) take_bit_word_diff) (use eq in \<open>simp add: get_kpa_take_bit\<close>)
  then show "take_bit 31 x = take_bit 31 y" by simp
next
  assume eq: "take_bit 31 x = take_bit 31 y"
  show "get_kpa (r - x) = get_kpa (r - y)"
    unfolding get_kpa_take_bit
    by (subst (1 2) take_bit_word_diff) (simp add: eq)
qed

definition frame_word :: "u64 \<Rightarrow> nat \<Rightarrow> 'z proc_state_scheme \<Rightarrow> u64" where
  "frame_word r i s = kword (r - 8 * of_nat i) s"

lemma pushed_words:
  "pmem (push_callee_saved s) =
     (let r = cpu_rsp (cpu s) in (pmem s)
       (get_kpa (r - 8) := cpu_rbp (cpu s), get_kpa (r - 16) := cpu_rbx (cpu s),
        get_kpa (r - 24) := cpu_r12 (cpu s), get_kpa (r - 32) := cpu_r13 (cpu s),
        get_kpa (r - 40) := cpu_r14 (cpu s), get_kpa (r - 48) := cpu_r15 (cpu s)))"
  "cpu (push_callee_saved s) = (cpu s)\<lparr>cpu_rsp := cpu_rsp (cpu s) - 48\<rparr>"
  by (simp_all add: push_callee_saved_def push_def set_kword_def Let_def diff_diff_eq)

lemma popped_registers:
  "cpu (pop_callee_saved s) =
     (let r = cpu_rsp (cpu s) in
      \<lparr>cpu_rsp = r + 48, cpu_rbp = kword (r + 40) s, cpu_rbx = kword (r + 32) s, cpu_r12 = kword (r + 24) s,
       cpu_r13 = kword (r + 16) s, cpu_r14 = kword (r + 8) s, cpu_r15 = kword r s\<rparr>)"
  by (simp add: pop_callee_saved_def pop_def kword_def Let_def add.assoc)

lemma switched_memory: "pmem (switched prev next s) = pmem (push_callee_saved s)"
  by (simp add: switched_def Let_def pop_callee_saved_def set_gs_kernel_base_def do_wrmsr_def set_tss_rsp_def)

lemma switched_registers:
  assumes "prev \<noteq> next"
  shows "cpu (switched prev next s) =
     (let r = rsp (pcb_at s next); m = pmem (push_callee_saved s) in
      \<lparr>cpu_rsp = r + 48, cpu_rbp = m (get_kpa (r + 40)), cpu_rbx = m (get_kpa (r + 32)),
       cpu_r12 = m (get_kpa (r + 24)), cpu_r13 = m (get_kpa (r + 16)), cpu_r14 = m (get_kpa (r + 8)),
       cpu_r15 = m (get_kpa r)\<rparr>)"
proof -
  have "pcb_at (push_callee_saved s) = pcb_at s" by (simp add: push_callee_saved_def)
  with assms show ?thesis
    by (simp add: switched_def Let_def set_gs_kernel_base_def do_wrmsr_def set_tss_rsp_def popped_registers kword_def)
qed

text \<open>The six words below the stack pointer hold the callee-saved registers after a switch away.\<close>

lemma saved_frame:
  assumes "do_switch a b s = Ok ((), t)"
  shows "map (\<lambda>i. frame_word (cpu_rsp (cpu s)) i t) [1, 2, 3, 4, 5, 6] =
     [cpu_rbp (cpu s), cpu_rbx (cpu s), cpu_r12 (cpu s), cpu_r13 (cpu s), cpu_r14 (cpu s), cpu_r15 (cpu s)]"
proof -
  have "pmem t = pmem (push_callee_saved s)"
    using assms by (auto simp: do_switch_run switched_memory split: if_splits)
  then show ?thesis
    by (simp add: frame_word_def kword_def pushed_words Let_def get_kpa_diff_eq_iff)
qed

lemma undisturbed_frame:
  assumes "\<forall>j\<in>{1..6}. get_kpa x \<noteq> get_kpa (cpu_rsp (cpu u) - 8 * of_nat j)"
  shows "pmem (push_callee_saved u) (get_kpa x) = pmem u (get_kpa x)"
  using assms [THEN bspec, of 1] assms [THEN bspec, of 2] assms [THEN bspec, of 3]
    assms [THEN bspec, of 4] assms [THEN bspec, of 5] assms [THEN bspec, of 6]
  by (simp add: pushed_words Let_def)

text \<open>
  C6: A process that is switched out and later switched in again continues with the stack pointer
  and the callee-saved registers it had: if its saved stack pointer and the six words of its saved
  frame are intact, and the frame of the process that gives the processor back does not overlap them,
  the second \<^verbatim>\<open>do_switch\<close> restores exactly the registers the first one saved.
\<close>

theorem do_switch_restores_context:
  assumes "do_switch a b s = Ok ((), t)"
    and "rsp (pcb_at u a) = rsp (pcb_at t a)"
    and "\<forall>i\<in>{1..6}. frame_word (cpu_rsp (cpu s)) i u = frame_word (cpu_rsp (cpu s)) i t"
    and "\<forall>i\<in>{1..6}. \<forall>j\<in>{1..6}.
           get_kpa (cpu_rsp (cpu s) - 8 * of_nat i) \<noteq> get_kpa (cpu_rsp (cpu u) - 8 * of_nat j)"
    and "do_switch b a u = Ok ((), v)" and "a \<noteq> b"
  shows "cpu v = cpu s \<and> current v = a \<and> tss_rsp0 v = esp0 (pcb_at u a)"
proof -
  let ?r = "cpu_rsp (cpu s)"
  have v: "v = switched b a u" using assms(5) by (auto simp: do_switch_run split: if_splits)
  have ra: "rsp (pcb_at u a) = ?r - 48"
    using assms(1,2) by (auto simp: do_switch_run split: if_splits)
  have w: "pmem (push_callee_saved u) (get_kpa (?r - 8 * of_nat i)) = frame_word ?r i t" if "i \<in> {1..6}" for i
    using undisturbed_frame [of "?r - 8 * of_nat i" u] assms(3,4) that
    by (auto simp: frame_word_def kword_def)
  note f = saved_frame [OF assms(1)]
  have "cpu v = cpu s"
    using f w [of 1] w [of 2] w [of 3] w [of 4] w [of 5] w [of 6] assms(6)
    by (simp add: v switched_registers ra Let_def)
  then show ?thesis by (simp add: v)
qed

text \<open>Two processes on stacks of their own, and the same machine when the second one runs.\<close>

definition two_stacks :: proc_state where
  "two_stacks = (idle_machine ((\<lambda>_. zero_pcb)(0x5000 := zero_pcb\<lparr>rsp := 0x8F00\<rparr>)))
     \<lparr>cpu := \<lparr>cpu_rsp = 0x7F00, cpu_rbp = 1, cpu_rbx = 2, cpu_r12 = 3, cpu_r13 = 4, cpu_r14 = 5, cpu_r15 = 6\<rparr>\<rparr>"

theorem do_switch_restores_context_witness:
  "cpu (switched 0x5000 0x4000 (switched 0x4000 0x5000 two_stacks)) = cpu two_stacks"
proof -
  have s: "do_switch 0x4000 0x5000 two_stacks = Ok ((), switched 0x4000 0x5000 two_stacks)"
    "do_switch 0x5000 0x4000 (switched 0x4000 0x5000 two_stacks)
     = Ok ((), switched 0x5000 0x4000 (switched 0x4000 0x5000 two_stacks))"
    by (simp_all add: do_switch_run two_stacks_def idle_machine_def virt_state.defs)
  have r: "cpu_rsp (cpu two_stacks) = 0x7F00" "cpu_rsp (cpu (switched 0x4000 0x5000 two_stacks)) = 0x8F30"
    by (simp_all add: switched_registers Let_def) (simp_all add: two_stacks_def idle_machine_def virt_state.defs zero_pcb_def)
  have d: "\<forall>i\<in>{1..6}. \<forall>j\<in>{1..6}. get_kpa (0x7F00 - 8 * of_nat i) \<noteq> get_kpa (0x8F30 - 8 * of_nat j)"
  proof (intro ballI)
    fix i j :: nat
    assume ij: "i \<in> {1..6}" "j \<in> {1..6}"
    then have "i \<in> {1, 2, 3, 4, 5, 6}" "j \<in> {1, 2, 3, 4, 5, 6}" by auto
    then show "get_kpa (0x7F00 - 8 * of_nat i) \<noteq> get_kpa (0x8F30 - 8 * of_nat j)"
      by (auto simp: get_kpa_take_bit)
  qed
  show ?thesis
    using do_switch_restores_context [of "0x4000" "0x5000" two_stacks "switched 0x4000 0x5000 two_stacks"
        "switched 0x4000 0x5000 two_stacks"] s r d by simp
qed

section \<open>The scheduler invariant\<close>

text \<open>What the invariant reads of a process, and the thread state that goes with each queue.\<close>

definition view :: "'z proc_state_scheme \<Rightarrow> ptr \<Rightarrow> u16 \<times> u8 \<times> proc_state_enum \<times> thread_state_enum" where
  "view s p = (pid (pcb_at s p), on_rq (pcb_at s p), process_state (pcb_at s p), thread_state (pcb_at s p))"

fun queue_thread :: "queue_id \<Rightarrow> thread_state_enum" where
  "queue_thread run_queue = RUNNING"
| "queue_thread blocked_queue = BLOCKED"
| "queue_thread sleeping_queue = SLEEPING"
| "queue_thread waiting_queue = WAITING"

definition fits_queue :: "'z proc_state_scheme \<Rightarrow> queue_id \<Rightarrow> ptr \<Rightarrow> bool" where
  "fits_queue s q p \<longleftrightarrow>
     snd (view s p) = (if q = run_queue then 1 else 0, NORMAL, queue_thread q)"

text \<open>
  \<open>queues_wf ql x s\<close>: the four queues hold the lists \<open>ql\<close>, no process is on two of them, pids are
  distinct, every queued process but possibly \<open>x\<close> is in the state that goes with its queue, and the
  idle task is runnable and on no queue.
\<close>

definition queues_wf :: "(queue_id \<Rightarrow> ptr list) \<Rightarrow> ptr set \<Rightarrow> 'z proc_state_scheme \<Rightarrow> bool" where
  "queues_wf ql X s \<longleftrightarrow>
     (\<forall>q. holds q s (ql q)) \<and>
     (\<forall>q q'. q \<noteq> q' \<longrightarrow> set (ql q) \<inter> set (ql q') = {}) \<and>
     inj_on (\<lambda>p. fst (view s p)) (\<Union>q. set (ql q)) \<and>
     (\<forall>q. \<forall>p\<in>set (ql q) - X. fits_queue s q p) \<and>
     idle_task s \<noteq> NULL \<and> (\<forall>q. idle_task s \<notin> set (ql q)) \<and> snd (view s (idle_task s)) = (0, NORMAL, RUNNING)"

definition sched_inv :: "'z proc_state_scheme \<Rightarrow> bool" where
  "sched_inv s \<longleftrightarrow> (\<exists>ql. queues_wf ql {} s \<and> (current s = idle_task s \<or> current s \<in> set (ql run_queue)))"

definition same_view :: "'z proc_state_scheme \<Rightarrow> 'z proc_state_scheme \<Rightarrow> bool" where
  "same_view s t \<longleftrightarrow> view t = view s \<and> current t = current s \<and> idle_task t = idle_task s"

lemma same_view_link [simp]: "same_view s (link p n s)" "same_view s (rehead q p s)"
  by (auto simp: same_view_def view_def fun_eq_iff)

lemma view_link [simp]: "view (link p n s) = view s" "view (rehead q p s) = view s"
  by (auto simp: view_def fun_eq_iff)

lemma same_view_trans: "same_view s t \<Longrightarrow> same_view t u \<Longrightarrow> same_view s u"
  by (simp add: same_view_def)

text \<open>The invariant depends only on the views, the links and the heads of the queues.\<close>

lemma queues_wf_cong:
  assumes "view t = view s" "idle_task t = idle_task s" "next_of t = next_of s"
    and "\<And>q. processes (queues t q) = processes (queues s q)"
  shows "queues_wf ql X t = queues_wf ql X s"
  using assms by (simp add: queues_wf_def holds_def fits_queue_def)

lemma remove_member:
  assumes "holds q s ps" "p \<in> set ps" "inj_on (\<lambda>p. pid (pcb_at s p)) (set ps)"
    and "remove_process_from_queue q p s = Ok ((), t)"
  shows "holds q t (remove1 p ps)" "same_view s t"
    and "\<And>q' ps'. q' \<noteq> q \<Longrightarrow> holds q' s ps' \<Longrightarrow> set ps' \<inter> set ps = {} \<Longrightarrow> holds q' t ps'"
proof -
  note nn = holds_nonNULL [OF assms(1,2)]
  from assms(2) obtain a as where ps: "ps = a # as" by (cases ps) auto
  have eq: "pid (pcb_at s x) = pid (pcb_at s p) \<longleftrightarrow> x = p" if "x \<in> set ps" for x
    using assms(2,3) that by (auto simp: inj_on_def)
  have "holds q t (remove1 p ps) \<and> same_view s t \<and>
        (\<forall>q' ps'. q' \<noteq> q \<longrightarrow> holds q' s ps' \<longrightarrow> set ps' \<inter> set ps = {} \<longrightarrow> holds q' t ps')"
  proof (cases "a = p")
    case True
    then show ?thesis
      using remove_head_run [of q s a as p] assms(1,4) nn ps by (auto simp: holds_rehead_other)
  next
    case False
    with ps assms(2) obtain b bs where as: "as = b # bs" by (cases as) auto
    show ?thesis
    proof (cases "b = p")
      case True
      have "a \<notin> set bs" using holds_distinct [OF assms(1)] ps as by auto
      then show ?thesis
        using remove_second_run [of q s a b bs p] assms(1,4) nn ps as False True eq [of a]
        by (auto simp: holds_link)
    next
      case b: False
      then show ?thesis
        using remove_deeper_diverges [of q s a b bs p] assms(1,4) nn ps as False eq [of a] eq [of b] by simp
    qed
  qed
  then show "holds q t (remove1 p ps)" "same_view s t"
    "\<And>q' ps'. q' \<noteq> q \<Longrightarrow> holds q' s ps' \<Longrightarrow> set ps' \<inter> set ps = {} \<Longrightarrow> holds q' t ps'"
    by blast+
qed

lemma add_back_member:
  assumes "holds q s ps" "p \<noteq> NULL" "p \<notin> set ps" "add_process_to_queue q p s = Ok ((), t)"
  shows "holds q t (ps @ [p])" "same_view s t"
    and "\<And>q' ps'. q' \<noteq> q \<Longrightarrow> holds q' s ps' \<Longrightarrow> set ps' \<inter> set ps = {} \<Longrightarrow> p \<notin> set ps' \<Longrightarrow> holds q' t ps'"
proof -
  have t: "t = link p NULL (if ps = [] then rehead q p s else link (last ps) p s)"
    using add_back_run(1) [OF assms(1-3)] assms(4) by simp
  show "holds q t (ps @ [p])" using add_back_run(2) [OF assms(1-3)] t by simp
  show "same_view s t" using t by (simp add: same_view_def)
  show "holds q' t ps'" if "q' \<noteq> q" "holds q' s ps'" "set ps' \<inter> set ps = {}" "p \<notin> set ps'" for q' ps'
  proof (cases "ps = []")
    case True
    with t that show ?thesis by (simp add: holds_link holds_rehead_other)
  next
    case False
    then have "last ps \<notin> set ps'" using that(3) last_in_set [of ps] by auto
    with False t that show ?thesis by (simp add: holds_link)
  qed
qed

lemma add_front_member:
  assumes "holds q s ps" "p \<noteq> NULL" "p \<notin> set ps" "add_process_to_queue_front q p s = Ok ((), t)"
  shows "holds q t (p # ps)" "same_view s t"
    and "\<And>q' ps'. q' \<noteq> q \<Longrightarrow> holds q' s ps' \<Longrightarrow> p \<notin> set ps' \<Longrightarrow> holds q' t ps'"
proof -
  have t: "t = link p (processes (queues s q)) (rehead q p s)"
    using add_front_run(1) [OF assms(1-3)] assms(4) by simp
  show "holds q t (p # ps)" using add_front_run(2) [OF assms(1-3)] t by simp
  show "same_view s t" using t by (simp add: same_view_def)
  show "holds q' t ps'" if "q' \<noteq> q" "holds q' s ps'" "p \<notin> set ps'" for q' ps'
    using t that by (simp add: holds_link holds_rehead_other)
qed

text \<open>How the four elementary moves act on the invariant.\<close>

definition set_pcb :: "ptr \<Rightarrow> (pcb \<Rightarrow> pcb) \<Rightarrow> 'z proc_state_scheme \<Rightarrow> 'z proc_state_scheme" where
  "set_pcb p f s = s\<lparr>pcb_at := (pcb_at s)(p := f (pcb_at s p))\<rparr>"

lemma wf_set_pcb:
  assumes "queues_wf ql X s" "p \<noteq> idle_task s"
    and "pid (f (pcb_at s p)) = pid (pcb_at s p)" "next_in_queue (f (pcb_at s p)) = next_in_queue (pcb_at s p)"
  shows "queues_wf ql (insert p X) (set_pcb p f s)"
proof -
  have n: "next_of (set_pcb p f s) = next_of s" using assms(4) by (auto simp: next_of_def set_pcb_def fun_eq_iff)
  have v: "view (set_pcb p f s) x = view s x" if "x \<noteq> p" for x using that by (simp add: view_def set_pcb_def)
  have d: "fst (view (set_pcb p f s) x) = fst (view s x)" for x using assms(3) by (simp add: view_def set_pcb_def)
  have q: "queues (set_pcb p f s) = queues s" "idle_task (set_pcb p f s) = idle_task s" by (simp_all add: set_pcb_def)
  show ?thesis
    using assms(1,2) unfolding queues_wf_def holds_def fits_queue_def n d q
    by (auto simp: v)
qed

lemma wf_settle:
  assumes "queues_wf ql (insert p X) s" "\<And>q. p \<in> set (ql q) \<Longrightarrow> fits_queue s q p"
  shows "queues_wf ql X s"
  using assms unfolding queues_wf_def by blast

lemma wf_remove:
  assumes wf: "queues_wf ql X s" and p: "p \<in> set (ql q)" and run: "remove_process_from_queue q p s = Ok ((), t)"
  shows "queues_wf (ql(q := remove1 p (ql q))) X t" "same_view s t"
proof -
  have h: "\<And>q. holds q s (ql q)" and dis: "\<And>q q'. q \<noteq> q' \<Longrightarrow> set (ql q) \<inter> set (ql q') = {}"
    and inj: "inj_on (\<lambda>p. fst (view s p)) (\<Union>q. set (ql q))"
    using wf by (auto simp: queues_wf_def)
  have inj': "inj_on (\<lambda>p. pid (pcb_at s p)) (set (ql q))"
    using inj by (auto simp: view_def inj_on_def)
  note rm = remove_member [OF h [of q] p inj' run]
  show sv: "same_view s t" by (rule rm(2))
  have sub: "set ((ql(q := remove1 p (ql q))) q') \<subseteq> set (ql q')" for q'
    using set_remove1_subset [of p "ql q"] by (cases "q' = q") auto
  have "holds q' t ((ql(q := remove1 p (ql q))) q')" for q'
    using rm(1) rm(3) [OF _ h [of q']] dis [of q' q] by (cases "q' = q") auto
  moreover have "inj_on (\<lambda>p. fst (view t p)) (\<Union>q'. set ((ql(q := remove1 p (ql q))) q'))"
    using sv unfolding same_view_def by (simp only:) (rule inj_on_subset [OF inj], use sub in blast)
  moreover have "set ((ql(q := remove1 p (ql q))) q1) \<inter> set ((ql(q := remove1 p (ql q))) q2) = {}" if "q1 \<noteq> q2" for q1 q2
    using dis [OF that] sub [of q1] sub [of q2] by blast
  ultimately show "queues_wf (ql(q := remove1 p (ql q))) X t"
    using wf sv sub unfolding queues_wf_def fits_queue_def same_view_def by (simp only: simp_thms) blast
qed

lemma wf_insert:
  assumes wf: "queues_wf ql X s" and sv: "same_view s t"
    and new: "\<And>q. p \<notin> set (ql q)" "p \<noteq> idle_task s" "\<And>q x. x \<in> set (ql q) \<Longrightarrow> fst (view s x) \<noteq> fst (view s p)"
    and h: "\<And>q'. holds q' t ((ql(q := ps)) q')" and ps: "set ps = insert p (set (ql q))"
  shows "queues_wf (ql(q := ps)) (insert p X) t"
proof -
  have sub: "set ((ql(q := ps)) q') \<subseteq> insert p (set (ql q'))" for q'
    using ps by auto
  have "inj_on (\<lambda>x. fst (view s x)) (insert p (\<Union>q. set (ql q)))"
    using wf new(3) by (auto simp: queues_wf_def inj_on_insert) (metis new(3))+
  then have "inj_on (\<lambda>x. fst (view s x)) (\<Union>q'. set ((ql(q := ps)) q'))"
    by (rule inj_on_subset) (use sub in blast)
  then have "inj_on (\<lambda>x. fst (view t x)) (\<Union>q'. set ((ql(q := ps)) q'))"
    using sv unfolding same_view_def by (simp only:)
  moreover have "set ((ql(q := ps)) q1) \<inter> set ((ql(q := ps)) q2) = {}" if "q1 \<noteq> q2" for q1 q2
    using wf new(1) ps that by (auto simp: queues_wf_def)
  moreover have "idle_task t \<notin> set ((ql(q := ps)) q')" for q'
    using wf new(2) ps sv sub [of q'] by (auto simp: queues_wf_def same_view_def)
  moreover have "fits_queue t q' x" if "x \<in> set ((ql(q := ps)) q') - insert p X" for q' x
    using wf that sub [of q'] sv by (auto simp: queues_wf_def fits_queue_def same_view_def)
  ultimately show ?thesis
    using wf sv h unfolding queues_wf_def same_view_def by auto
qed

lemma wf_add_back:
  assumes wf: "queues_wf ql X s" and "p \<noteq> NULL" and run: "add_process_to_queue q p s = Ok ((), t)"
    and new: "\<And>q. p \<notin> set (ql q)" "p \<noteq> idle_task s" "\<And>q x. x \<in> set (ql q) \<Longrightarrow> fst (view s x) \<noteq> fst (view s p)"
  shows "queues_wf (ql(q := ql q @ [p])) (insert p X) t" "same_view s t"
proof -
  have h: "\<And>q. holds q s (ql q)" and dis: "\<And>q q'. q \<noteq> q' \<Longrightarrow> set (ql q) \<inter> set (ql q') = {}"
    using wf by (auto simp: queues_wf_def)
  note ab = add_back_member [OF h [of q] \<open>p \<noteq> NULL\<close> new(1) run]
  show sv: "same_view s t" by (rule ab(2))
  have "holds q' t ((ql(q := ql q @ [p])) q')" for q'
    using ab(1) ab(3) [OF _ h [of q']] dis [of q' q] new(1) by (cases "q' = q") auto
  then show "queues_wf (ql(q := ql q @ [p])) (insert p X) t"
    by (intro wf_insert [OF wf sv new]) auto
qed

lemma wf_add_front:
  assumes wf: "queues_wf ql X s" and "p \<noteq> NULL" and run: "add_process_to_queue_front q p s = Ok ((), t)"
    and new: "\<And>q. p \<notin> set (ql q)" "p \<noteq> idle_task s" "\<And>q x. x \<in> set (ql q) \<Longrightarrow> fst (view s x) \<noteq> fst (view s p)"
  shows "queues_wf (ql(q := p # ql q)) (insert p X) t" "same_view s t"
proof -
  have h: "\<And>q. holds q s (ql q)" using wf by (auto simp: queues_wf_def)
  note af = add_front_member [OF h [of q] \<open>p \<noteq> NULL\<close> new(1) run]
  show sv: "same_view s t" by (rule af(2))
  have "holds q' t ((ql(q := p # ql q)) q')" for q'
    using af(1) af(3) [OF _ h [of q']] new(1) by (cases "q' = q") auto
  then show "queues_wf (ql(q := p # ql q)) (insert p X) t"
    by (intro wf_insert [OF wf sv new]) auto
qed

text \<open>Updates the invariant does not see.\<close>

lemma set_pcb_fields [simp]:
  "queues (set_pcb p f s) = queues s" "current (set_pcb p f s) = current s"
  "idle_task (set_pcb p f s) = idle_task s" "mm_at (set_pcb p f s) = mm_at s"
  "global_ds (set_pcb p f s) = global_ds s" "pcb_at (set_pcb p f s) p = f (pcb_at s p)"
  "x \<noteq> p \<Longrightarrow> pcb_at (set_pcb p f s) x = pcb_at s x"
  by (simp_all add: set_pcb_def)

lemma upd_pcb_run: "p \<noteq> NULL \<Longrightarrow> upd_pcb p f s = Ok ((), set_pcb p f s)"
  "p \<noteq> NULL \<Longrightarrow> bnd (upd_pcb p f) k s = k () (set_pcb p f s)"
  by (simp_all add: set_pcb_def)

lemma wf_unseen:
  assumes "view (set_pcb p f s) p = view s p" "next_in_queue (f (pcb_at s p)) = next_in_queue (pcb_at s p)"
  shows "queues_wf ql X (set_pcb p f s) = queues_wf ql X s"
proof (rule queues_wf_cong)
  show "view (set_pcb p f s) = view s"
  proof
    fix x show "view (set_pcb p f s) x = view s x"
      using assms(1) by (cases "x = p") (simp_all add: view_def set_pcb_def)
  qed
  show "next_of (set_pcb p f s) = next_of s"
    using assms(2) by (auto simp: next_of_def set_pcb_def fun_eq_iff)
qed simp_all

lemma wf_switched:
  "queues_wf ql X (switched prev next (set_pml4 c s)) = queues_wf ql X s"
  by (rule queues_wf_cong) (auto simp: view_def next_of_def fun_eq_iff)

lemma wf_current: "queues_wf ql X (s\<lparr>current := p\<rparr>) = queues_wf ql X s"
  by (rule queues_wf_cong) (auto simp: view_def next_of_def fun_eq_iff)

lemma wf_member:
  assumes "queues_wf ql X s" "p \<in> set (ql q)"
  shows "p \<noteq> NULL" "p \<noteq> idle_task s"
proof -
  have "holds q s (ql q)" using assms(1) by (simp add: queues_wf_def)
  then show "p \<noteq> NULL" using assms(2) by (rule holds_nonNULL)
  show "p \<noteq> idle_task s" using assms by (auto simp: queues_wf_def)
qed

lemma wf_distinct: "queues_wf ql X s \<Longrightarrow> distinct (ql q)"
  unfolding queues_wf_def using holds_distinct by blast

lemma wf_pids:
  assumes "queues_wf ql X s" "x \<in> set (ql q)" "y \<in> set (ql q')" "x \<noteq> y"
  shows "pid (pcb_at s x) \<noteq> pid (pcb_at s y)"
proof -
  have "inj_on (\<lambda>p. pid (pcb_at s p)) (\<Union>q. set (ql q))" using assms(1) by (simp add: queues_wf_def view_def)
  with assms(2-4) show ?thesis unfolding inj_on_def by blast
qed

lemma removed_fresh:
  assumes wf: "queues_wf ql X s" and p: "p \<in> set (ql q)"
  shows "p \<notin> set ((ql(q := remove1 p (ql q))) q')"
    and "x \<in> set ((ql(q := remove1 p (ql q))) q') \<Longrightarrow> fst (view s x) \<noteq> fst (view s p)"
proof -
  have "distinct (ql q)" using wf by (rule wf_distinct)
  then show out: "p \<notin> set ((ql(q := remove1 p (ql q))) q')"
    using wf p unfolding queues_wf_def by (cases "q' = q") auto
  assume "x \<in> set ((ql(q := remove1 p (ql q))) q')"
  then have "x \<in> set (ql q')" "x \<noteq> p"
    using out set_remove1_subset [of p "ql q"] by (auto split: if_splits)
  then show "fst (view s x) \<noteq> fst (view s p)"
    using wf p unfolding queues_wf_def inj_on_def by blast
qed

lemma requeue_wf:
  assumes wf: "queues_wf ql {p} s" and p: "p \<in> set (ql run_queue)" and q: "q \<noteq> run_queue"
    and v: "snd (view s p) = (1, NORMAL, queue_thread q)" and run: "requeue q p s = Ok ((), t)"
  shows "queues_wf (ql(run_queue := remove1 p (ql run_queue), q := ql q @ [p])) {} t"
    and "snd (snd (view t p)) = (NORMAL, queue_thread q)"
    and "current t = current s" "idle_task t = idle_task s"
proof -
  note nn = wf_member(1) [OF wf p] and ip = wf_member(2) [OF wf p]
  obtain s1 where s1: "remove_process_from_queue run_queue p s = Ok ((), s1)"
    and t: "add_process_to_queue q p (set_pcb p (on_rq_update (\<lambda>_. 0)) s1) = Ok ((), t)"
    using run nn v unfolding requeue_def
    by (auto simp: view_def bnd_eq_Ok_iff upd_pcb_run simp del: run_access bnd_access)
       (auto simp: view_def bnd_eq_Ok_iff set_pcb_def)
  define ql1 where "ql1 = ql(run_queue := remove1 p (ql run_queue))"
  note r = wf_remove [OF wf p s1, folded ql1_def]
  have ip1: "p \<noteq> idle_task s1" using ip r(2) by (simp add: same_view_def)
  have w2: "queues_wf ql1 {p} (set_pcb p (on_rq_update (\<lambda>_. 0)) s1)"
    using wf_set_pcb [OF r(1) ip1, of "on_rq_update (\<lambda>_. 0)"] by simp
  have out: "p \<notin> set (ql1 q')" for q'
    using removed_fresh(1) [OF wf p] by (simp add: ql1_def)
  have fresh: "fst (view (set_pcb p (on_rq_update (\<lambda>_. 0)) s1) x) \<noteq> fst (view (set_pcb p (on_rq_update (\<lambda>_. 0)) s1) p)"
    if "x \<in> set (ql1 q')" for q' x
  proof -
    have "x \<noteq> p" using that out by auto
    with removed_fresh(2) [OF wf p that [unfolded ql1_def]] r(2) show ?thesis
      by (simp add: same_view_def view_def fun_eq_iff)
  qed
  note a = wf_add_back [OF w2 nn t out _ fresh]
  have w3: "queues_wf (ql1(q := ql1 q @ [p])) {p} t" and sv: "same_view (set_pcb p (on_rq_update (\<lambda>_. 0)) s1) t"
    using a ip1 by simp_all
  have vt: "snd (view t p) = (0, NORMAL, queue_thread q)"
    using sv r(2) v by (simp add: same_view_def view_def fun_eq_iff)
  have "queues_wf (ql1(q := ql1 q @ [p])) {} t"
    by (rule wf_settle [OF w3]) (use out vt q in \<open>auto simp: fits_queue_def split: if_splits\<close>)
  then show "queues_wf (ql(run_queue := remove1 p (ql run_queue), q := ql q @ [p])) {} t"
    using q by (simp add: ql1_def)
  show "snd (snd (view t p)) = (NORMAL, queue_thread q)" "current t = current s" "idle_task t = idle_task s"
    using vt sv r(2) by (simp_all add: same_view_def)
qed

lemma wake_wf:
  assumes wf: "queues_wf ql {} s" and p: "p \<in> set (ql q)" and q: "q \<noteq> run_queue"
    and run: "try_to_wake_up q p s = Ok ((), t)"
  shows "queues_wf (ql(q := remove1 p (ql q), run_queue := p # ql run_queue)) {} t"
    and "current t = current s" "idle_task t = idle_task s"
proof -
  note nn = wf_member(1) [OF wf p] and ip = wf_member(2) [OF wf p]
  define s1 where "s1 = set_pcb p (thread_state_update (\<lambda>_. RUNNING)) (set_pcb p (process_state_update (\<lambda>_. NORMAL)) s)"
  have w1: "queues_wf ql {p} s1"
    using wf_set_pcb [OF wf_set_pcb [OF wf ip, of "process_state_update (\<lambda>_. NORMAL)"], of p "thread_state_update (\<lambda>_. RUNNING)"] ip
    by (simp add: s1_def)
  have rq: "on_rq (pcb_at s p) = 0" using wf p q by (auto simp: queues_wf_def fits_queue_def view_def)
  have v1: "snd (view s1 p) = (0, NORMAL, RUNNING)" using rq by (simp add: s1_def view_def)
  have s1i: "idle_task s1 = idle_task s" "current s1 = current s" by (simp_all add: s1_def)
  have run': "bnd (remove_process_from_queue q p) (\<lambda>_. bnd (get_pcb p on_rq) (\<lambda>r.
      if r = 0 then bnd (add_process_to_queue_front run_queue p) (\<lambda>_. upd_pcb p (on_rq_update (\<lambda>_. 1)))
      else ret ())) s1 = Ok ((), t)"
    using run nn by (simp add: try_to_wake_up_def upd_pcb_run s1_def del: run_access bnd_access)
  then obtain s2 where s2: "remove_process_from_queue q p s1 = Ok ((), s2)"
    and rest: "(if on_rq (pcb_at s2 p) = 0 then bnd (add_process_to_queue_front run_queue p) (\<lambda>_. upd_pcb p (on_rq_update (\<lambda>_. 1)))
      else ret ()) s2 = Ok ((), t)"
    using nn by (auto simp: bnd_eq_Ok_iff)
  define ql1 where "ql1 = ql(q := remove1 p (ql q))"
  note r = wf_remove [OF w1 p s2, folded ql1_def]
  have v2: "snd (view s2 p) = (0, NORMAL, RUNNING)" using v1 r(2) by (simp add: same_view_def)
  then obtain s3 where s3: "add_process_to_queue_front run_queue p s2 = Ok ((), s3)"
    and t: "t = set_pcb p (on_rq_update (\<lambda>_. 1)) s3"
    using rest nn by (auto simp: view_def bnd_eq_Ok_iff set_pcb_def)
  have out: "p \<notin> set (ql1 q')" for q' using removed_fresh(1) [OF wf p] by (simp add: ql1_def)
  have fresh: "fst (view s2 x) \<noteq> fst (view s2 p)" if "x \<in> set (ql1 q')" for q' x
    using removed_fresh(2) [OF w1 p that [unfolded ql1_def]] r(2) by (simp add: same_view_def)
  have ip2: "p \<noteq> idle_task s2" using ip s1i r(2) by (simp add: same_view_def)
  note a = wf_add_front [OF r(1) nn s3 out ip2 fresh]
  have ip3: "p \<noteq> idle_task s3" using ip2 a(2) by (simp add: same_view_def)
  have w4: "queues_wf (ql1(run_queue := p # ql1 run_queue)) {p} t"
    using wf_set_pcb [OF a(1) ip3, where f = "on_rq_update (\<lambda>_. 1)"] by (simp add: t)
  have vt: "snd (view t p) = (1, NORMAL, RUNNING)" using v2 a(2) by (simp add: t same_view_def view_def fun_eq_iff)
  have "queues_wf (ql1(run_queue := p # ql1 run_queue)) {} t"
    by (rule wf_settle [OF w4]) (use out vt in \<open>auto simp: fits_queue_def split: if_splits\<close>)
  then show "queues_wf (ql(q := remove1 p (ql q), run_queue := p # ql run_queue)) {} t"
    using q by (simp add: ql1_def)
  show "current t = current s" "idle_task t = idle_task s"
    using a(2) r(2) s1i by (simp_all add: t same_view_def)
qed

text \<open>The states in which a process may enter the scheduler.\<close>

definition schedulable :: "proc_state_enum \<times> thread_state_enum \<Rightarrow> bool" where
  "schedulable st \<longleftrightarrow> st \<in> {(NORMAL, RUNNING), (NORMAL, SLEEPING), (NORMAL, BLOCKED), (NORMAL, WAITING), (ZOMBIE, STOPPED)}"

lemma dequeue_prev_wf:
  assumes wf: "queues_wf ql {p} s" and p: "p \<in> set (ql run_queue)"
    and v: "fst (snd (view s p)) = 1" "schedulable (snd (snd (view s p)))"
    and run: "dequeue_prev p s = Ok ((), t)"
  shows "\<exists>ql'. queues_wf ql' {} t \<and> snd (snd (view t p)) = snd (snd (view s p)) \<and>
           current t = current s \<and> idle_task t = idle_task s \<and>
           (snd (snd (view s p)) = (NORMAL, RUNNING) \<longrightarrow> p \<in> set (ql' run_queue))"
proof -
  note nn = wf_member(1) [OF wf p] and ip = wf_member(2) [OF wf p]
  consider (runnable) "snd (view s p) = (1, NORMAL, RUNNING)"
    | (waiting) q where "q \<noteq> run_queue" "snd (view s p) = (1, NORMAL, queue_thread q)"
    | (zombie) "snd (view s p) = (1, ZOMBIE, STOPPED)"
    using v unfolding schedulable_def
    by (cases "snd (view s p)") (auto, (metis queue_id.distinct queue_thread.simps)+)
  then show ?thesis
  proof cases
    case runnable
    then have "t = s" using run nn by (simp add: dequeue_prev_def view_def)
    moreover have "queues_wf ql {} s"
      by (rule wf_settle [OF wf]) (use runnable p wf in \<open>auto simp: fits_queue_def queues_wf_def\<close>)
    ultimately show ?thesis using runnable p by auto
  next
    case waiting
    then have "requeue q p s = Ok ((), t)"
      using run nn by (cases q) (simp_all add: dequeue_prev_def view_def)
    note rq = requeue_wf [OF wf p waiting this]
    from waiting have "queue_thread q \<noteq> RUNNING" by (cases q) simp_all
    with waiting rq show ?thesis by (intro exI conjI) (rule rq(1), simp_all)
  next
    case zombie
    then obtain s1 where s1: "remove_process_from_queue run_queue p s = Ok ((), s1)"
      and t: "t = set_pcb p (on_rq_update (\<lambda>_. 0)) s1"
      using run nn by (auto simp: dequeue_prev_def view_def bnd_eq_Ok_iff set_pcb_def)
    note r = wf_remove [OF wf p s1]
    have ip1: "p \<noteq> idle_task s1" using ip r(2) by (simp add: same_view_def)
    have "queues_wf (ql(run_queue := remove1 p (ql run_queue))) {} t"
      by (rule wf_settle [of _ p])
        (use wf_set_pcb [OF r(1) ip1, of "on_rq_update (\<lambda>_. 0)"] removed_fresh(1) [OF wf p] in \<open>auto simp: t\<close>)
    then show ?thesis
      using zombie r(2) by (auto simp: t same_view_def view_def fun_eq_iff)
  qed
qed

lemma switch_to_next_wf:
  assumes wf: "queues_wf ql {} s" and c: "current s = p"
    and n: "n = NULL \<or> n \<in> set (ql run_queue) \<or> n = p \<and> p = idle_task s"
    and run: "switch_to_next p n s = Ok ((), t)"
  shows "sched_inv t"
proof -
  consider (idle) "n = NULL" | (stay) "n \<noteq> NULL" "n = p" | (go) "n \<noteq> NULL" "n \<noteq> p" by blast
  then show ?thesis
  proof cases
    case idle
    then have "context_switch p (idle_task s) (s\<lparr>current := idle_task s\<rparr>) = Ok ((), t)"
      using run by (simp add: switch_to_next_def)
    then show ?thesis
      using wf by (auto simp: context_switch_run sched_inv_def wf_switched wf_current split: if_splits)
  next
    case stay
    then have "t = s" using run by (simp add: switch_to_next_def)
    with stay wf c n show ?thesis by (auto simp: sched_inv_def)
  next
    case go
    define s1 where "s1 = (if sleep_time (pcb_at s n) \<le> 0 then set_pcb n (sleep_time_update (\<lambda>_. 0)) (s\<lparr>current := n\<rparr>)
                           else s\<lparr>current := n\<rparr>)"
    have "context_switch p n s1 = Ok ((), t)"
      using run go by (auto simp: switch_to_next_def s1_def set_pcb_def)
    moreover have "queues_wf ql {} s1"
      using wf by (simp add: s1_def wf_unseen view_def wf_current)
    moreover have "n \<in> set (ql run_queue)" using n go by auto
    ultimately show ?thesis
      by (auto simp: context_switch_run sched_inv_def wf_switched split: if_splits)
  qed
qed

lemma pick_next_task_run [simp]: "bnd (pick_next_task p) f s = f (processes (queues s run_queue)) s"
  by (simp add: pick_next_task_def select_first_process_from_queue_def)

lemma schedule_wf:
  assumes wf: "queues_wf ql {p} s" and c: "current s = p"
    and p: "p = idle_task s \<and> snd (view s p) = (0, NORMAL, RUNNING) \<or> p \<in> set (ql run_queue) \<and> fst (snd (view s p)) = 1 \<and> schedulable (snd (snd (view s p)))"
    and run: "schedule s = Ok ((), t)"
  shows "sched_inv t"
proof -
  have nn: "p \<noteq> NULL" using p wf wf_member(1) [OF wf] by (auto simp: queues_wf_def)
  define s1 where "s1 = (if time_slice (pcb_at s p) \<le> 0 then set_pcb p (time_slice_update (\<lambda>_. TIME_SLICE)) s else s)"
  have w1: "queues_wf ql {p} s1" using wf by (simp add: s1_def wf_unseen view_def)
  have v1: "view s1 p = view s p" "current s1 = p" "idle_task s1 = idle_task s"
    using c by (simp_all add: s1_def view_def)
  obtain s2 where s2: "dequeue_prev p s1 = Ok ((), s2)"
    and t: "switch_to_next p (if processes (queues s2 run_queue) = NULL \<and> process_state (pcb_at s2 p) = NORMAL \<and>
              thread_state (pcb_at s2 p) = RUNNING then p else processes (queues s2 run_queue)) s2 = Ok ((), t)"
    using run nn c unfolding schedule_def s1_def
    by (auto simp: bnd_eq_Ok_iff set_pcb_def split: if_splits)
  have "\<exists>ql'. queues_wf ql' {} s2 \<and> snd (snd (view s2 p)) = snd (snd (view s p)) \<and> current s2 = p \<and>
      idle_task s2 = idle_task s \<and> (snd (snd (view s p)) = (NORMAL, RUNNING) \<longrightarrow> p \<in> set (ql' run_queue) \<or> p = idle_task s)"
  proof (cases "p \<in> set (ql run_queue)")
    case True
    then have "p \<noteq> idle_task s" using wf by (auto simp: queues_wf_def)
    with p dequeue_prev_wf [OF w1 True _ _ s2] show ?thesis by (simp add: v1)
  next
    case False
    with p have i: "p = idle_task s" "snd (view s p) = (0, NORMAL, RUNNING)" by auto
    then have "s2 = s1" using s2 nn v1 by (simp add: dequeue_prev_def view_def)
    moreover have "queues_wf ql {} s1"
      by (rule wf_settle [OF w1]) (use i wf in \<open>auto simp: queues_wf_def\<close>)
    ultimately show ?thesis using i v1 by auto
  qed
  then obtain ql' where w2: "queues_wf ql' {} s2" and v2: "snd (snd (view s2 p)) = snd (snd (view s p))"
    "current s2 = p" "idle_task s2 = idle_task s"
    "snd (snd (view s p)) = (NORMAL, RUNNING) \<longrightarrow> p \<in> set (ql' run_queue) \<or> p = idle_task s" by blast
  have "processes (queues s2 run_queue) = NULL \<or> processes (queues s2 run_queue) \<in> set (ql' run_queue)"
    using w2 by (cases "ql' run_queue") (auto simp: queues_wf_def holds_def dest: spec [of _ run_queue])
  with v2 show ?thesis
    by (intro switch_to_next_wf [OF w2 v2(2) _ t]) (auto simp: view_def)
qed

subsection \<open>Runs of the scheduler\<close>

text \<open>
  The ways in which the kernel changes the queues: the current process is rescheduled, blocks, goes to
  sleep, waits for a child or exits; a process is woken from the queue it is on; a new process, with a
  pid no queued process has, is appended to the run queue.
\<close>

definition enter_state :: "proc_state_enum \<Rightarrow> thread_state_enum \<Rightarrow> ('z proc_state_scheme, unit) kop" where
  "enter_state ps ts =
     bnd get_current_process (\<lambda>c.
     bnd (upd_pcb c (process_state_update (\<lambda>_. ps))) (\<lambda>_.
     bnd (upd_pcb c (thread_state_update (\<lambda>_. ts))) (\<lambda>_. schedule)))"

inductive sched_step :: "'z proc_state_scheme \<Rightarrow> 'z proc_state_scheme \<Rightarrow> bool" where
  reschedule: "schedule s = Ok ((), t) \<Longrightarrow> sched_step s t"
| block: "current s \<noteq> idle_task s \<Longrightarrow> block_process (current s) s = Ok ((), t) \<Longrightarrow> sched_step s t"
| sleep: "current s \<noteq> idle_task s \<Longrightarrow> sys_sleep_process n s = Ok (r, t) \<Longrightarrow> sched_step s t"
| wait: "current s \<noteq> idle_task s \<Longrightarrow> enter_state NORMAL WAITING s = Ok ((), t) \<Longrightarrow> sched_step s t"
| exit: "current s \<noteq> idle_task s \<Longrightarrow> enter_state ZOMBIE STOPPED s = Ok ((), t) \<Longrightarrow> sched_step s t"
| wake: "holds q s ps \<Longrightarrow> p \<in> set ps \<Longrightarrow> q \<noteq> run_queue \<Longrightarrow> try_to_wake_up q p s = Ok ((), t) \<Longrightarrow> sched_step s t"
| fork: "p \<noteq> NULL \<Longrightarrow> p \<noteq> idle_task s \<Longrightarrow> process_state (pcb_at s p) = NORMAL \<Longrightarrow> thread_state (pcb_at s p) = RUNNING \<Longrightarrow>
    (\<And>q ps x. holds q s ps \<Longrightarrow> x \<in> set ps \<Longrightarrow> x \<noteq> p \<and> pid (pcb_at s x) \<noteq> pid (pcb_at s p)) \<Longrightarrow>
    bnd (add_process_to_queue run_queue p) (\<lambda>_. upd_pcb p (on_rq_update (\<lambda>_. 1))) s = Ok ((), t) \<Longrightarrow> sched_step s t"

inductive_cases sched_stepE: "sched_step s t"

lemma enter_state_inv:
  assumes inv: "sched_inv s" and "current s \<noteq> idle_task s" "schedulable (ps, ts)" and run: "enter_state ps ts s = Ok ((), t)"
  shows "sched_inv t"
proof -
  let ?p = "current s"
  obtain ql where wf: "queues_wf ql {} s" and p: "?p \<in> set (ql run_queue)"
    using inv assms(2) by (auto simp: sched_inv_def)
  note nn = wf_member(1) [OF wf p]
  define s1 where "s1 = set_pcb ?p (thread_state_update (\<lambda>_. ts)) (set_pcb ?p (process_state_update (\<lambda>_. ps)) s)"
  have "queues_wf ql {?p} s1"
    using wf_set_pcb [OF wf_set_pcb [OF wf assms(2), of "process_state_update (\<lambda>_. ps)"], of ?p "thread_state_update (\<lambda>_. ts)"] assms(2)
    by (simp add: s1_def)
  moreover have "schedule s1 = Ok ((), t)"
    using run nn by (simp add: enter_state_def upd_pcb_run s1_def del: run_access bnd_access)
  moreover have "fst (snd (view s1 ?p)) = 1" "snd (snd (view s1 ?p)) = (ps, ts)" "current s1 = ?p"
    using wf p by (auto simp: s1_def view_def queues_wf_def fits_queue_def)
  ultimately show ?thesis using p assms(3) by (intro schedule_wf [of ql ?p s1 t]) auto
qed

lemma wf_virt_more:
  assumes "virt_state.more t = virt_state.more s"
  shows "queues_wf ql X t = queues_wf ql X s" "view t = view s" "current t = current s" "idle_task t = idle_task s"
proof -
  note m = proc_of_virt_more [OF assms]
  then show "view t = view s" "current t = current s" "idle_task t = idle_task s" by (simp_all add: view_def fun_eq_iff)
  with m show "queues_wf ql X t = queues_wf ql X s" by (intro queues_wf_cong) (simp_all add: next_of_def fun_eq_iff)
qed

lemma sched_inv_virt_more:
  assumes "virt_state.more t = virt_state.more s"
  shows "sched_inv t = sched_inv s"
  unfolding sched_inv_def by (simp only: wf_virt_more [OF assms])

lemma sleep_inv:
  assumes inv: "sched_inv s" and "current s \<noteq> idle_task s" and run: "sys_sleep_process n s = Ok (r, t)"
  shows "sched_inv t"
proof (cases "n < 1")
  case True
  then have "t = kmsg ''usage sleep <seconds> : where seconds is positive\<newline>'' s"
    using run by (simp add: sys_sleep_process_def)
  then have "virt_state.more t = virt_state.more s" by simp
  from sched_inv_virt_more [OF this] inv show ?thesis by simp
next
  case False
  let ?p = "current s"
  obtain ql where wf: "queues_wf ql {} s" and p: "?p \<in> set (ql run_queue)"
    using inv assms(2) by (auto simp: sched_inv_def)
  note nn = wf_member(1) [OF wf p]
  define f where "f = (\<lambda>x :: pcb. x\<lparr>process_state := NORMAL, thread_state := SLEEPING, sleep_time := n * 1000\<rparr>)"
  have w1: "queues_wf ql {?p} (set_pcb ?p f s)"
    using wf_set_pcb [OF wf assms(2), of f] by (simp add: f_def)
  obtain s2 where k: "kprintf ''Process with pid %d going to sleep..\<newline>'' [VInt (ucast (pid (pcb_at s ?p)))] (set_pcb ?p f s) = Ok ((), s2)"
    and t: "schedule s2 = Ok ((), t)"
    using run nn False by (auto simp: sys_sleep_process_def bnd_eq_Ok_iff set_pcb_def f_def)
  have m: "virt_state.more s2 = virt_state.more (set_pcb ?p f s)"
    by (rule virt_of_console_more [OF kprintf_frame [OF k]])
  have "fst (snd (view s2 ?p)) = 1" "snd (snd (view s2 ?p)) = (NORMAL, SLEEPING)"
    using wf p unfolding wf_virt_more(2) [OF m]
    by (auto simp: f_def view_def queues_wf_def fits_queue_def)
  then show ?thesis
    using p w1 t by (intro schedule_wf [of ql ?p s2 t]) (simp_all add: wf_virt_more [OF m] schedulable_def)
qed

lemma fork_inv:
  assumes inv: "sched_inv s" and p: "p \<noteq> NULL" "p \<noteq> idle_task s"
    and st: "process_state (pcb_at s p) = NORMAL" "thread_state (pcb_at s p) = RUNNING"
    and new: "\<And>q ps x. holds q s ps \<Longrightarrow> x \<in> set ps \<Longrightarrow> x \<noteq> p \<and> pid (pcb_at s x) \<noteq> pid (pcb_at s p)"
    and run: "bnd (add_process_to_queue run_queue p) (\<lambda>_. upd_pcb p (on_rq_update (\<lambda>_. 1))) s = Ok ((), t)"
  shows "sched_inv t"
proof -
  obtain ql where wf: "queues_wf ql {} s" and c: "current s = idle_task s \<or> current s \<in> set (ql run_queue)"
    using inv by (auto simp: sched_inv_def)
  have h: "\<And>q. holds q s (ql q)" using wf by (simp add: queues_wf_def)
  obtain s1 where s1: "add_process_to_queue run_queue p s = Ok ((), s1)" and t: "t = set_pcb p (on_rq_update (\<lambda>_. 1)) s1"
    using run p by (auto simp: bnd_eq_Ok_iff set_pcb_def)
  have out: "p \<notin> set (ql q)" for q using new [OF h] by blast
  have fresh: "fst (view s x) \<noteq> fst (view s p)" if "x \<in> set (ql q)" for q x
    using new [OF h that] by (simp add: view_def)
  note a = wf_add_back [OF wf p(1) s1 out p(2) fresh]
  let ?ql = "ql(run_queue := ql run_queue @ [p])"
  have ip: "p \<noteq> idle_task s1" using p(2) a(2) by (simp add: same_view_def)
  have w: "queues_wf ?ql {p} t"
    using wf_set_pcb [OF a(1) ip, where f = "on_rq_update (\<lambda>_. 1)"] by (simp add: t)
  have v: "snd (view t p) = (1, NORMAL, RUNNING)"
    using a(2) st by (simp add: t same_view_def view_def fun_eq_iff)
  have "queues_wf ?ql {} t"
    by (rule wf_settle [OF w]) (use out v in \<open>auto simp: fits_queue_def split: if_splits\<close>)
  moreover have "current t = current s" "idle_task t = idle_task s" using a(2) by (simp_all add: t same_view_def)
  ultimately show ?thesis using c by (auto simp: sched_inv_def intro!: exI [of _ ?ql])
qed

lemma holds_unique: "holds q s ps \<Longrightarrow> holds q s qs \<Longrightarrow> ps = qs"
  unfolding holds_def by (rule llist_unique)

lemma sched_step_inv: "sched_inv s \<Longrightarrow> sched_step s t \<Longrightarrow> sched_inv t"
proof (erule sched_stepE)
  assume inv: "sched_inv s" and run: "schedule s = Ok ((), t)"
  then obtain ql where wf: "queues_wf ql {} s" and c: "current s = idle_task s \<or> current s \<in> set (ql run_queue)"
    by (auto simp: sched_inv_def)
  have "queues_wf ql {current s} s" using wf unfolding queues_wf_def by blast
  moreover have "snd (view s (current s)) = (if current s = idle_task s then 0 else 1, NORMAL, RUNNING)"
    using wf c by (auto simp: queues_wf_def fits_queue_def)
  ultimately show "sched_inv t"
    using c run by (intro schedule_wf [of ql "current s" s t]) (auto simp: schedulable_def)
next
  assume "sched_inv s" "current s \<noteq> idle_task s" "block_process (current s) s = Ok ((), t)"
  moreover from this have "current s \<noteq> NULL"
    using wf_member(1) by (force simp: sched_inv_def)
  ultimately have "enter_state NORMAL BLOCKED s = Ok ((), t)"
    by (simp add: block_process_def enter_state_def)
  with \<open>sched_inv s\<close> \<open>current s \<noteq> idle_task s\<close> show "sched_inv t"
    by (intro enter_state_inv [of s NORMAL BLOCKED t]) (simp_all add: schedulable_def)
next
  fix q ps p
  assume "sched_inv s" and q: "holds q s ps" "p \<in> set ps" "q \<noteq> run_queue" "try_to_wake_up q p s = Ok ((), t)"
  then obtain ql where wf: "queues_wf ql {} s" and c: "current s = idle_task s \<or> current s \<in> set (ql run_queue)"
    by (auto simp: sched_inv_def)
  have "p \<in> set (ql q)" using wf q holds_unique [of q s ps "ql q"] by (auto simp: queues_wf_def)
  from wake_wf [OF wf this q(3,4)] c show "sched_inv t"
    by (auto simp: sched_inv_def intro!: exI [of _ "ql(q := remove1 p (ql q), run_queue := p # ql run_queue)"])
qed (auto intro: sleep_inv fork_inv enter_state_inv simp: schedulable_def)

subsection \<open>The start of the scheduler\<close>

lemma clear_table_proc [simp]:
  "pcb_at (clear_table p s) = pcb_at s" "queues (clear_table p s) = queues s"
  "idle_task (clear_table p s) = idle_task s" "mm_at (clear_table p s) = mm_at s"
  by (simp_all add: clear_table_def)

lemma bytes_only_my_memcpy_literal: "bytes_only (my_memcpy_literal d bs)"
  unfolding my_memcpy_literal_def by (intro bytes_only_for_each bytes_only_basic)

lemma scheduler_init_effect:
  assumes "scheduler_init cpu_idle s0 = Ok ((), s)"
  shows "current s = idle_task s" "idle_task s \<noteq> NULL" "snd (view s (idle_task s)) = (0, NORMAL, RUNNING)"
    "processes (queues s q) = NULL"
proof -
  have q: "processes (queues (init_scheduler_queues s0) q) = NULL"
    by (cases q) (simp_all add: init_scheduler_queues_def empty_queue_def)
  show "current s = idle_task s" "idle_task s \<noteq> NULL" "snd (view s (idle_task s)) = (0, NORMAL, RUNNING)"
    "processes (queues s q) = NULL"
    using assms q unfolding scheduler_init_def init_idle_def init_mm_def
    by (auto simp: bnd_eq_Ok_iff view_def dest!: bytes_onlyD [OF bytes_only_my_memset] bytes_onlyD [OF bytes_only_my_memcpy_literal])
qed

lemma scheduler_init_inv:
  assumes "scheduler_init cpu_idle s0 = Ok ((), s)"
  shows "sched_inv s"
proof -
  have "queues_wf (\<lambda>_. []) {} s"
    using scheduler_init_effect [OF assms] by (simp add: queues_wf_def holds_def)
  with scheduler_init_effect(1) [OF assms] show ?thesis by (auto simp: sched_inv_def)
qed

text \<open>On a machine whose frames lie below 256 MB, starting the scheduler returns.\<close>

lemma scheduler_init_returns:
  assumes "low_frames s"
  shows "\<exists>t. scheduler_init cpu_idle s = Ok ((), t)"
proof -
  have "low_frames (init_scheduler_queues s)" using assms by (simp add: init_scheduler_queues_def)
  then show ?thesis
    unfolding scheduler_init_def init_idle_def init_mm_def
    by (simp add: bnd_Ok [OF kernel_page_memset] bnd_Ok [OF kernel_page_literal] alloc_low bytes_of_def)
qed

interpretation sched: step_invariant "\<lambda>s. \<exists>cpu_idle s0. scheduler_init cpu_idle s0 = Ok ((), s)" sched_step sched_inv
  by unfold_locales (auto intro: sched_step_inv scheduler_init_inv)

section \<open>Properties\<close>

text \<open>
  C1: From the state \<^verbatim>\<open>scheduler_init\<close> leaves, every sequence of rescheduling, blocking, sleeping,
  waiting, exiting, waking and forking keeps the scheduler consistent: each queue is a well-formed
  list, no process is on two queues, queued processes have distinct pids, every process is in exactly
  the state of the queue it is on, and the running process is the idle task or on the run queue.
\<close>

theorem scheduler_queues_consistent:
  assumes "scheduler_init cpu_idle s0 = Ok ((), s)" and "sched_step\<^sup>*\<^sup>* s t"
  shows "\<exists>ql. (\<forall>q. holds q t (ql q)) \<and> (\<forall>q q'. q \<noteq> q' \<longrightarrow> set (ql q) \<inter> set (ql q') = {}) \<and>
    inj_on (\<lambda>p. pid (pcb_at t p)) (\<Union>q. set (ql q)) \<and>
    (\<forall>q. \<forall>p\<in>set (ql q). process_state (pcb_at t p) = NORMAL \<and> thread_state (pcb_at t p) = queue_thread q \<and>
       on_rq (pcb_at t p) = (if q = run_queue then 1 else 0)) \<and>
    (current t = idle_task t \<or> current t \<in> set (ql run_queue))"
proof -
  have "sched_inv t" by (rule sched.inv_reachable [OF _ assms(2)]) (use assms(1) in blast)
  then show ?thesis
    by (auto simp: sched_inv_def queues_wf_def fits_queue_def view_def)
qed

theorem scheduler_queues_consistent_witness:
  "\<exists>s ql. scheduler_init 0 (idle_machine (\<lambda>_. zero_pcb)) = Ok ((), s) \<and> (\<forall>q. holds q s (ql q)) \<and>
     (current s = idle_task s \<or> current s \<in> set (ql run_queue))"
proof -
  have "low_frames (idle_machine (\<lambda>_. zero_pcb))"
    by (simp add: low_frames_def idle_machine_def virt_state.defs small_machine_def upt_rec)
  from scheduler_init_returns [OF this, of 0] obtain s where
    s: "scheduler_init 0 (idle_machine (\<lambda>_. zero_pcb)) = Ok ((), s)" by blast
  from scheduler_queues_consistent [OF s rtranclp.rtrancl_refl] s show ?thesis by blast
qed

lemma schedule_at_head:
  assumes "holds run_queue s (p # ps)" "current s = p"
    and "process_state (pcb_at s p) = NORMAL" "thread_state (pcb_at s p) = RUNNING"
  shows "schedule s = Ok ((), if time_slice (pcb_at s p) \<le> 0 then set_pcb p (time_slice_update (\<lambda>_. TIME_SLICE)) s else s)"
proof -
  have "processes (queues s run_queue) = p" "p \<noteq> NULL" using holds_Cons [OF assms(1)] by simp_all
  with assms(2-4) show ?thesis
    by (simp add: schedule_def dequeue_prev_def switch_to_next_def set_pcb_def)
qed

text \<open>
  C36: The scheduler never takes the processor from a runnable process at the head of the run queue:
  however often \<^verbatim>\<open>schedule\<close> is called, with or without an expired time slice, the same process stays
  current and the run queue keeps its order, so the processes behind it do not run.
\<close>

theorem schedule_starves_the_rest:
  assumes "holds run_queue s (p # ps)" "current s = p"
    and "process_state (pcb_at s p) = NORMAL" "thread_state (pcb_at s p) = RUNNING"
  shows "\<exists>us t. repeat_op n schedule s = Ok (us, t) \<and> current t = p \<and> holds run_queue t (p # ps) \<and>
    (\<forall>x. x \<noteq> p \<longrightarrow> pcb_at t x = pcb_at s x)"
  using assms
proof (induction n arbitrary: s)
  case 0
  then show ?case by simp
next
  case (Suc n)
  define s1 where "s1 = (if time_slice (pcb_at s p) \<le> 0 then set_pcb p (time_slice_update (\<lambda>_. TIME_SLICE)) s else s)"
  have run: "schedule s = Ok ((), s1)" using schedule_at_head [OF Suc.prems] by (simp add: s1_def)
  have "next_of s1 = next_of s" by (auto simp: s1_def next_of_def set_pcb_def fun_eq_iff)
  then have "holds run_queue s1 (p # ps)" using Suc.prems(1) by (simp add: holds_def s1_def)
  moreover have "current s1 = p" "process_state (pcb_at s1 p) = NORMAL" "thread_state (pcb_at s1 p) = RUNNING"
    using Suc.prems by (simp_all add: s1_def)
  ultimately obtain us t where "repeat_op n schedule s1 = Ok (us, t)" "current t = p" "holds run_queue t (p # ps)"
    "\<forall>x. x \<noteq> p \<longrightarrow> pcb_at t x = pcb_at s1 x"
    using Suc.IH [of s1] by blast
  moreover have "\<forall>x. x \<noteq> p \<longrightarrow> pcb_at s1 x = pcb_at s x" by (simp add: s1_def)
  ultimately show ?case using run by (simp add: bnd_Ok)
qed

theorem schedule_starves_the_rest_witness:
  "\<exists>us t. repeat_op 100 schedule ((queued_machine run_queue [0x1000, 0x2000])\<lparr>current := 0x1000\<rparr>) = Ok (us, t) \<and>
     current t = 0x1000"
  using schedule_starves_the_rest
    [of "(queued_machine run_queue [0x1000, 0x2000])\<lparr>current := 0x1000\<rparr>" "0x1000" "[0x2000]" 100]
  by (auto simp: holds_def next_of_def)

text \<open>What moving a process between queues leaves alone.\<close>

definition same_space :: "'z proc_state_scheme \<Rightarrow> 'z proc_state_scheme \<Rightarrow> bool" where
  "same_space s t \<longleftrightarrow> (\<forall>x. pcb_mm (pcb_at t x) = pcb_mm (pcb_at s x)) \<and> mm_at t = mm_at s \<and> global_ds t = global_ds s"

lemma same_space_moves:
  "same_space s (link p n s)" "same_space s (rehead q p s)"
  "(\<And>x. pcb_mm (f x) = pcb_mm x) \<Longrightarrow> same_space s (set_pcb p f s)"
  by (simp_all add: same_space_def link_def rehead_def set_pcb_def)

lemma same_space_trans: "same_space s t \<Longrightarrow> same_space t u \<Longrightarrow> same_space s u"
  by (simp add: same_space_def)

lemma requeue_head_run:
  assumes wf: "queues_wf ql {p} s" and p: "ql run_queue = p # rest" and q: "q \<noteq> run_queue"
    and v: "on_rq (pcb_at s p) = 1"
  shows "\<exists>t. requeue q p s = Ok ((), t) \<and> same_space s t"
proof -
  have nn: "p \<noteq> NULL" using wf_member(1) [OF wf, of p run_queue] p by simp
  have h: "holds run_queue s (p # rest)" "holds q s (ql q)" "p \<notin> set (ql q)"
    using wf p q unfolding queues_wf_def by (metis, metis, metis disjoint_iff list.set_intros(1))
  let ?s1 = "rehead run_queue (next_of s p) s"
  let ?s2 = "set_pcb p (on_rq_update (\<lambda>_. 0)) ?s1"
  have "next_of ?s2 = next_of s" by (auto simp: next_of_def set_pcb_def rehead_def fun_eq_iff)
  then have "holds q ?s2 (ql q)" using h(2) q by (simp add: holds_def)
  note a = add_back_run(1) [OF this nn h(3)]
  let ?t = "link p NULL (if ql q = [] then rehead q p ?s2 else link (last (ql q)) p ?s2)"
  have "requeue q p s = Ok ((), ?t)"
    using remove_head_run(1) [OF h(1) nn refl] nn v a
    by (simp add: requeue_def bnd_Ok upd_pcb_run del: run_access bnd_access(2))
  moreover have "same_space s ?t"
    by (cases "ql q = []") (simp_all add: same_space_def link_def rehead_def set_pcb_def)
  ultimately show ?thesis by blast
qed

definition to_blocked :: "pcb \<Rightarrow> pcb" where
  "to_blocked x = x\<lparr>process_state := NORMAL, thread_state := BLOCKED,
     time_slice := (if time_slice x \<le> 0 then TIME_SLICE else time_slice x)\<rparr>"

lemma block_process_run:
  assumes "c \<noteq> NULL" "current s = c"
  shows "block_process c s = bnd (requeue blocked_queue c) (\<lambda>_. bnd (pick_next_task c) (\<lambda>next.
      bnd (get_pcb c process_state) (\<lambda>ps. bnd (get_pcb c thread_state) (\<lambda>ts.
      switch_to_next c (if next = NULL \<and> ps = NORMAL \<and> ts = RUNNING then c else next))))) (set_pcb c to_blocked s)"
  using assms
  by (simp add: block_process_def schedule_def dequeue_prev_def set_pcb_def to_blocked_def cong: if_cong)

text \<open>
  \<^verbatim>\<open>block_process\<close> on the running process at the head of the run queue takes it off the run queue,
  appends it to the blocked queue in the blocked state, and gives the processor, with its address
  space loaded, to the next process of the run queue, or to the idle task when there is none.
\<close>

theorem block_process_effect:
  assumes "queues_wf ql {} s" and "ql run_queue = c # rest" and "current s = c"
    and "pcb_mm (pcb_at s (case rest of [] \<Rightarrow> idle_task s | r # _ \<Rightarrow> r)) \<noteq> NULL" and "global_ds s \<noteq> NULL"
  shows "\<exists>t. block_process c s = Ok ((), t) \<and>
    queues_wf (ql(run_queue := rest, blocked_queue := ql blocked_queue @ [c])) {} t \<and>
    current t = (case rest of [] \<Rightarrow> idle_task s | r # _ \<Rightarrow> r) \<and>
    cr3_reg t = mm_cr3 (mm_at s (pcb_mm (pcb_at s (current t))))"
proof -
  let ?n = "case rest of [] \<Rightarrow> idle_task s | r # _ \<Rightarrow> r"
  have c: "c \<in> set (ql run_queue)" using assms(2) by simp
  note nn = wf_member(1) [OF assms(1) c] and ic = wf_member(2) [OF assms(1) c]
  let ?s1 = "set_pcb c to_blocked s"
  have w1: "queues_wf ql {c} ?s1" using wf_set_pcb [OF assms(1) ic, of to_blocked] by (simp add: to_blocked_def)
  have v1: "snd (view ?s1 c) = (1, NORMAL, queue_thread blocked_queue)"
    using assms(1) c by (auto simp: view_def to_blocked_def queues_wf_def fits_queue_def)
  obtain s2 where s2: "requeue blocked_queue c ?s1 = Ok ((), s2)" and sp: "same_space ?s1 s2"
    using requeue_head_run [OF w1 assms(2), of blocked_queue] v1 by (auto simp: view_def)
  note rq = requeue_wf [OF w1 c _ v1 s2]
  let ?ql = "ql(run_queue := rest, blocked_queue := ql blocked_queue @ [c])"
  have w2: "queues_wf ?ql {} s2" using rq(1) assms(2) by simp
  have sp2: "same_space s s2"
    by (rule same_space_trans [OF same_space_moves(3) sp]) (simp add: to_blocked_def)
  have "holds run_queue s2 rest" using w2 by (auto simp: queues_wf_def dest: spec [of _ run_queue])
  then have hd: "processes (queues s2 run_queue) = (case rest of [] \<Rightarrow> NULL | r # _ \<Rightarrow> r)"
    by (cases rest) (auto simp: holds_def)
  have m: "current s2 = c" "idle_task s2 = idle_task s" "process_state (pcb_at s2 c) = NORMAL" "thread_state (pcb_at s2 c) = BLOCKED"
    using rq assms(3) by (simp_all add: view_def)
  have run: "block_process c s = switch_to_next c (processes (queues s2 run_queue)) s2"
    using block_process_run [OF nn assms(3)] s2 m nn by (simp add: bnd_Ok)
  show ?thesis
  proof (cases rest)
    case Nil
    then have "block_process c s = context_switch c (idle_task s) (s2\<lparr>current := idle_task s\<rparr>)"
      using run hd m by (simp add: switch_to_next_def)
    moreover have "idle_task s \<noteq> NULL" using assms(1) by (simp add: queues_wf_def)
    ultimately show ?thesis
      using Nil nn sp2 assms(4,5) w2 by (simp add: context_switch_run same_space_def wf_switched wf_current)
  next
    case (Cons r rs)
    then have r: "r \<in> set (ql run_queue)" "r \<noteq> c"
      using assms(2) wf_distinct [OF assms(1), of run_queue] by auto
    define s3 where "s3 = (if sleep_time (pcb_at s2 r) \<le> 0 then set_pcb r (sleep_time_update (\<lambda>_. 0)) (s2\<lparr>current := r\<rparr>)
                           else s2\<lparr>current := r\<rparr>)"
    have "block_process c s = context_switch c r s3"
      using run hd Cons r wf_member(1) [OF assms(1) r(1)] by (auto simp: switch_to_next_def s3_def set_pcb_def)
    moreover have "same_space s s3"
      using sp2 by (auto simp: same_space_def s3_def set_pcb_def)
    moreover have "queues_wf ?ql {} s3"
      using w2 by (simp add: s3_def wf_unseen view_def wf_current)
    ultimately show ?thesis
      using Cons nn assms(4,5) wf_member(1) [OF assms(1) r(1)]
      by (simp add: context_switch_run same_space_def wf_switched)
  qed
qed

text \<open>Machines with a running process and two blocked ones, each with an address space.\<close>

definition blocked_machine :: proc_state where
  "blocked_machine =
     (let m = idle_machine ((\<lambda>_. zero_pcb)
        (0x1000 := zero_pcb\<lparr>process_state := NORMAL, pcb_mm := 0x9000\<rparr>,
         0x2000 := zero_pcb\<lparr>pid := 1, process_state := NORMAL, on_rq := 1, pcb_mm := 0x9000\<rparr>,
         0x3000 := zero_pcb\<lparr>pid := 2, process_state := NORMAL, thread_state := BLOCKED, next_in_queue := 0x4000, pcb_mm := 0x9000\<rparr>,
         0x4000 := zero_pcb\<lparr>pid := 3, process_state := NORMAL, thread_state := BLOCKED, pcb_mm := 0x9000\<rparr>))
      in (rehead run_queue 0x2000 (rehead blocked_queue 0x3000 m))\<lparr>current := 0x2000, idle_task := 0x1000\<rparr>)"

definition blocked_lists :: "queue_id \<Rightarrow> ptr list" where
  "blocked_lists = (\<lambda>_. [])(run_queue := [0x2000], blocked_queue := [0x3000, 0x4000])"

lemma blocked_machine_wf: "queues_wf blocked_lists {} blocked_machine"
proof -
  have q: "q \<in> {run_queue, blocked_queue, sleeping_queue, waiting_queue}" for q by (cases q) simp_all
  have "holds q blocked_machine (blocked_lists q)" for q
    using q [of q] by (auto simp: blocked_lists_def blocked_machine_def holds_def next_of_def Let_def
        idle_machine_def virt_state.defs rehead_def zero_pcb_def empty_queue_def)
  moreover have "fits_queue blocked_machine q p" if "p \<in> set (blocked_lists q)" for q p
    using q [of q] that by (auto simp: blocked_lists_def blocked_machine_def fits_queue_def view_def Let_def
        idle_machine_def virt_state.defs rehead_def zero_pcb_def)
  moreover have "inj_on (\<lambda>p. fst (view blocked_machine p)) (\<Union>q. set (blocked_lists q))"
    by (auto simp: inj_on_def blocked_lists_def blocked_machine_def view_def Let_def idle_machine_def
        virt_state.defs rehead_def zero_pcb_def split: if_splits)
  moreover have "idle_task blocked_machine = 0x1000" by (simp add: blocked_machine_def Let_def)
  moreover have "snd (view blocked_machine 0x1000) = (0, NORMAL, RUNNING)"
    by (simp add: blocked_machine_def view_def Let_def idle_machine_def virt_state.defs rehead_def zero_pcb_def)
  ultimately show ?thesis by (auto simp: queues_wf_def blocked_lists_def split: if_splits)
qed

theorem block_process_effect_witness:
  "\<exists>t. block_process 0x2000 blocked_machine = Ok ((), t) \<and> current t = 0x1000 \<and>
     holds blocked_queue t [0x3000, 0x4000, 0x2000]"
proof -
  have "blocked_lists run_queue = 0x2000 # []" "current blocked_machine = 0x2000" "idle_task blocked_machine = 0x1000"
    "pcb_mm (pcb_at blocked_machine 0x1000) \<noteq> NULL" "global_ds blocked_machine \<noteq> NULL"
    by (simp_all add: blocked_lists_def blocked_machine_def Let_def idle_machine_def virt_state.defs rehead_def)
  then obtain t where t: "block_process 0x2000 blocked_machine = Ok ((), t)" "current t = 0x1000"
    "queues_wf (blocked_lists(run_queue := [], blocked_queue := blocked_lists blocked_queue @ [0x2000])) {} t"
    using block_process_effect [OF blocked_machine_wf, of "0x2000" "[]"] by auto
  then have "holds blocked_queue t (blocked_lists blocked_queue @ [0x2000])"
    by (auto simp: queues_wf_def dest: spec [of _ blocked_queue])
  with t show ?thesis by (auto simp: blocked_lists_def)
qed

text \<open>
  Two wake-ups in a row lead to a hang: each puts the woken process at the front of the run queue, so
  the running process, which was the head, is third; when it then blocks, the scheduler never returns.
\<close>

theorem two_wakeups_hang_block:
  assumes "queues_wf ql {} s" and "ql run_queue = c # rest" and "current s = c"
    and "q1 \<noteq> run_queue" "q2 \<noteq> run_queue" "a \<in> set (ql q1)" "b \<in> set (ql q2)" "a \<noteq> b"
    and "try_to_wake_up q1 a s = Ok ((), s1)" "try_to_wake_up q2 b s1 = Ok ((), s2)"
  shows "block_process c s2 = Diverge"
proof -
  define ql1 where "ql1 = ql(q1 := remove1 a (ql q1), run_queue := a # ql run_queue)"
  note w1 = wake_wf [OF assms(1,6,4,9), folded ql1_def]
  have b: "b \<in> set (ql1 q2)" using assms(5,7,8) by (auto simp: ql1_def in_set_remove1)
  define ql2 where "ql2 = ql1(q2 := remove1 b (ql1 q2), run_queue := b # ql1 run_queue)"
  note w2 = wake_wf [OF w1(1) b assms(5,10), folded ql2_def]
  note wf = w2(1)
  have run: "ql2 run_queue = b # a # c # rest" by (simp add: ql2_def ql1_def assms(2))
  then have c: "c \<in> set (ql2 run_queue)" and cur: "current s2 = c" using w1 w2 assms(3) by simp_all
  note nn = wf_member(1) [OF wf c]
  have rq: "on_rq (pcb_at s2 c) = 1" using wf c by (auto simp: queues_wf_def fits_queue_def view_def)
  have ne: "c \<noteq> a" "c \<noteq> b" using wf_distinct [OF wf, of run_queue] run by auto
  have pids: "pid (pcb_at s2 a) \<noteq> pid (pcb_at s2 c)" "pid (pcb_at s2 b) \<noteq> pid (pcb_at s2 c)"
    using wf_pids [OF wf _ c, of a run_queue] wf_pids [OF wf _ c, of b run_queue] run ne by auto
  have "next_of (set_pcb c to_blocked s2) = next_of s2"
    by (auto simp: next_of_def set_pcb_def to_blocked_def fun_eq_iff)
  then have "holds run_queue (set_pcb c to_blocked s2) (b # a # c # rest)"
    using wf run by (auto simp: queues_wf_def holds_def dest: spec [of _ run_queue])
  from remove_deeper_diverges [OF this nn]
  have "remove_process_from_queue run_queue c (set_pcb c to_blocked s2) = Diverge"
    using pids ne by (simp add: to_blocked_def)
  then have "requeue blocked_queue c (set_pcb c to_blocked s2) = Diverge"
    using nn rq by (simp add: requeue_def to_blocked_def bnd_apply)
  then show ?thesis unfolding block_process_run [OF nn cur] by (simp add: bnd_apply)
qed

theorem two_wakeups_hang_block_witness:
  "\<exists>s1 s2. try_to_wake_up blocked_queue 0x3000 blocked_machine = Ok ((), s1) \<and>
     try_to_wake_up blocked_queue 0x4000 s1 = Ok ((), s2) \<and> block_process 0x2000 s2 = Diverge"
proof -
  obtain s1 where s1: "try_to_wake_up blocked_queue 0x3000 blocked_machine = Ok ((), s1)"
    by (simp add: try_to_wake_up_def remove_process_from_queue_def add_process_to_queue_front_def
        blocked_machine_def Let_def idle_machine_def virt_state.defs rehead_def zero_pcb_def empty_queue_def)
  have m: "0x3000 \<in> set (blocked_lists blocked_queue)" "0x4000 \<in> set (blocked_lists blocked_queue)"
    by (simp_all add: blocked_lists_def)
  let ?ql = "blocked_lists(blocked_queue := remove1 0x3000 (blocked_lists blocked_queue), run_queue := 0x3000 # blocked_lists run_queue)"
  have w: "queues_wf ?ql {} s1" by (rule wake_wf(1) [OF blocked_machine_wf m(1) _ s1]) simp
  have h: "holds blocked_queue s1 [0x4000]"
    using w by (auto simp: queues_wf_def blocked_lists_def dest: spec [of _ blocked_queue])
  have rq: "on_rq (pcb_at s1 0x4000) = 0"
    using w by (auto simp: queues_wf_def fits_queue_def view_def blocked_lists_def dest: spec [of _ blocked_queue])
  have hd: "processes (queues s1 blocked_queue) = 0x4000" using holds_Cons [OF h] by simp
  then have "\<exists>s2. try_to_wake_up blocked_queue 0x4000 s1 = Ok ((), s2)"
    using rq by (cases "processes (queues s1 run_queue) = NULL")
      (simp_all add: try_to_wake_up_def remove_process_from_queue_def add_process_to_queue_front_def)
  then obtain s2 where s2: "try_to_wake_up blocked_queue 0x4000 s1 = Ok ((), s2)" by blast
  have "block_process 0x2000 s2 = Diverge"
    by (rule two_wakeups_hang_block [OF blocked_machine_wf _ _ _ _ m _ s1 s2, of _ "[]"])
      (simp_all add: blocked_lists_def blocked_machine_def Let_def)
  with s1 s2 show ?thesis by blast
qed

end
