(* ===== verification/File_State.thy ===== *)
theory File_State
  imports Scheduler
begin

text \<open>
  The structures of the file system, \<^verbatim>\<open>include/sys/vfs.h\<close> and \<^verbatim>\<open>include/sys/tarfs.h\<close>, the globals of the
  terminal and of the keyboard driver, and the input/output ports, as the next layer of the kernel
  state. Arrays of structures are stores indexed by the address of the element; the name of a
  directory entry, the array at the start of \<^verbatim>\<open>struct dentry\<close>, is bytes of memory at the address of
  the entry.
\<close>

section \<open>Structures\<close>

text \<open>The functions a file operation can point to.\<close>

datatype read_fn = NoRead | tarfs_read_fn | terminal_read_fn
datatype write_fn = NoWrite | terminal_write_fn
datatype close_fn = NoClose | tarfs_close_fn | terminal_close_fn

record file_operations =
  op_read :: read_fn
  op_write :: write_fn
  op_close :: close_fn

record file_struct =
  f_offset :: u64
  f_refcount :: u64
  f_mode :: u16
  f_flags :: u32
  f_dentry :: ptr
  f_op :: ptr

definition zero_file :: file_struct where
  "zero_file = \<lparr>f_offset = 0, f_refcount = 0, f_mode = 0, f_flags = 0, f_dentry = NULL, f_op = NULL\<rparr>"

record inode =
  i_number :: u64
  i_size :: u32
  i_typeflag :: u8
  i_data :: ptr
  i_sb :: ptr
  i_op :: ptr
  i_dentry :: ptr

definition zero_inode :: inode where
  "zero_inode = \<lparr>i_number = 0, i_size = 0, i_typeflag = 0, i_data = NULL, i_sb = NULL, i_op = NULL, i_dentry = NULL\<rparr>"

record dentry =
  d_parent :: ptr
  d_op :: ptr

record dentry_cache =
  inode_num :: u32
  dentry_elem :: ptr

record super_block =
  s_op :: ptr
  s_root :: ptr
  s_inodes :: ptr
  s_magic :: u64

text \<open>The sizes the compiler gives the structures whose arrays are walked.\<close>

definition sizeof_inode :: u64 where
  "sizeof_inode = 48"

definition sizeof_dentry_cache :: u64 where
  "sizeof_dentry_cache = 16"

definition sizeof_dentry :: u64 where
  "sizeof_dentry = 120"

definition MAX_DENTRIES_IN_CACHE :: nat where
  "MAX_DENTRIES_IN_CACHE = 512"

section \<open>State\<close>

text \<open>
  \<open>tarfs_start\<close> is the address of the archive the kernel is linked with and \<open>slash\<close> that of the
  string literal \<^verbatim>\<open>"/"\<close>. Of the devices behind the ports, \<open>dev_in\<close> is what a read returns now,
  \<open>dev_react\<close> how that changes when a byte is written, and \<open>port_log\<close> the bytes written so far; the
  reaction belongs to the hardware and is never changed by the code.
\<close>

record file_state = proc_state +
  file_at :: "ptr \<Rightarrow> file_struct"
  fop_at :: "ptr \<Rightarrow> file_operations"
  inode_at :: "ptr \<Rightarrow> inode"
  dentry_at :: "ptr \<Rightarrow> dentry"
  dcache_at :: "ptr \<Rightarrow> dentry_cache"
  sb_at :: "ptr \<Rightarrow> super_block"
  tarfs_start :: ptr
  slash :: ptr
  input_buffer :: ptr
  line_cursor :: u32
  head :: ptr
  shift_key :: u32
  ctrl_key :: u32
  stop_buffer_output :: u32
  dev_in :: "u16 \<Rightarrow> u8"
  dev_react :: "u16 \<Rightarrow> u8 \<Rightarrow> (u16 \<Rightarrow> u8) \<Rightarrow> u16 \<Rightarrow> u8"
  port_log :: "(u16 \<times> u8) list"

section \<open>Access through pointers\<close>

definition get_file :: "ptr \<Rightarrow> (file_struct \<Rightarrow> 'a) \<Rightarrow> ('z file_state_scheme, 'a) kop" where
  [kop_defs]: "get_file p f = deref p (gets (\<lambda>s. f (file_at s p)))"

definition upd_file :: "ptr \<Rightarrow> (file_struct \<Rightarrow> file_struct) \<Rightarrow> ('z file_state_scheme, unit) kop" where
  [kop_defs]: "upd_file p f = deref p (modify (\<lambda>s. s\<lparr>file_at := (file_at s)(p := f (file_at s p))\<rparr>))"

definition get_fop :: "ptr \<Rightarrow> (file_operations \<Rightarrow> 'a) \<Rightarrow> ('z file_state_scheme, 'a) kop" where
  [kop_defs]: "get_fop p f = deref p (gets (\<lambda>s. f (fop_at s p)))"

definition upd_fop :: "ptr \<Rightarrow> (file_operations \<Rightarrow> file_operations) \<Rightarrow> ('z file_state_scheme, unit) kop" where
  [kop_defs]: "upd_fop p f = deref p (modify (\<lambda>s. s\<lparr>fop_at := (fop_at s)(p := f (fop_at s p))\<rparr>))"

definition get_inode :: "ptr \<Rightarrow> (inode \<Rightarrow> 'a) \<Rightarrow> ('z file_state_scheme, 'a) kop" where
  [kop_defs]: "get_inode p f = deref p (gets (\<lambda>s. f (inode_at s p)))"

definition upd_inode :: "ptr \<Rightarrow> (inode \<Rightarrow> inode) \<Rightarrow> ('z file_state_scheme, unit) kop" where
  [kop_defs]: "upd_inode p f = deref p (modify (\<lambda>s. s\<lparr>inode_at := (inode_at s)(p := f (inode_at s p))\<rparr>))"

definition get_dentry :: "ptr \<Rightarrow> (dentry \<Rightarrow> 'a) \<Rightarrow> ('z file_state_scheme, 'a) kop" where
  [kop_defs]: "get_dentry p f = deref p (gets (\<lambda>s. f (dentry_at s p)))"

definition upd_dentry :: "ptr \<Rightarrow> (dentry \<Rightarrow> dentry) \<Rightarrow> ('z file_state_scheme, unit) kop" where
  [kop_defs]: "upd_dentry p f = deref p (modify (\<lambda>s. s\<lparr>dentry_at := (dentry_at s)(p := f (dentry_at s p))\<rparr>))"

definition get_dcache :: "ptr \<Rightarrow> (dentry_cache \<Rightarrow> 'a) \<Rightarrow> ('z file_state_scheme, 'a) kop" where
  [kop_defs]: "get_dcache p f = deref p (gets (\<lambda>s. f (dcache_at s p)))"

definition upd_dcache :: "ptr \<Rightarrow> (dentry_cache \<Rightarrow> dentry_cache) \<Rightarrow> ('z file_state_scheme, unit) kop" where
  [kop_defs]: "upd_dcache p f = deref p (modify (\<lambda>s. s\<lparr>dcache_at := (dcache_at s)(p := f (dcache_at s p))\<rparr>))"

definition get_sb :: "ptr \<Rightarrow> (super_block \<Rightarrow> 'a) \<Rightarrow> ('z file_state_scheme, 'a) kop" where
  [kop_defs]: "get_sb p f = deref p (gets (\<lambda>s. f (sb_at s p)))"

definition upd_sb :: "ptr \<Rightarrow> (super_block \<Rightarrow> super_block) \<Rightarrow> ('z file_state_scheme, unit) kop" where
  [kop_defs]: "upd_sb p f = deref p (modify (\<lambda>s. s\<lparr>sb_at := (sb_at s)(p := f (sb_at s p))\<rparr>))"

lemma bnd_access_file [simp]:
  "bnd (get_file p f) k1 s = (if p = NULL then Fault NullDeref else k1 (f (file_at s p)) s)"
  "bnd (upd_file p g) k2 s =
     (if p = NULL then Fault NullDeref else k2 () (s\<lparr>file_at := (file_at s)(p := g (file_at s p))\<rparr>))"
  by (simp_all add: get_file_def upd_file_def)

lemma bnd_access_fop [simp]:
  "bnd (get_fop p f) k1 s = (if p = NULL then Fault NullDeref else k1 (f (fop_at s p)) s)"
  "bnd (upd_fop p g) k2 s =
     (if p = NULL then Fault NullDeref else k2 () (s\<lparr>fop_at := (fop_at s)(p := g (fop_at s p))\<rparr>))"
  by (simp_all add: get_fop_def upd_fop_def)

lemma bnd_access_inode [simp]:
  "bnd (get_inode p f) k1 s = (if p = NULL then Fault NullDeref else k1 (f (inode_at s p)) s)"
  "bnd (upd_inode p g) k2 s =
     (if p = NULL then Fault NullDeref else k2 () (s\<lparr>inode_at := (inode_at s)(p := g (inode_at s p))\<rparr>))"
  by (simp_all add: get_inode_def upd_inode_def)

lemma bnd_access_dentry [simp]:
  "bnd (get_dentry p f) k1 s = (if p = NULL then Fault NullDeref else k1 (f (dentry_at s p)) s)"
  "bnd (upd_dentry p g) k2 s =
     (if p = NULL then Fault NullDeref else k2 () (s\<lparr>dentry_at := (dentry_at s)(p := g (dentry_at s p))\<rparr>))"
  by (simp_all add: get_dentry_def upd_dentry_def)

lemma bnd_access_dcache [simp]:
  "bnd (get_dcache p f) k1 s = (if p = NULL then Fault NullDeref else k1 (f (dcache_at s p)) s)"
  "bnd (upd_dcache p g) k2 s =
     (if p = NULL then Fault NullDeref else k2 () (s\<lparr>dcache_at := (dcache_at s)(p := g (dcache_at s p))\<rparr>))"
  by (simp_all add: get_dcache_def upd_dcache_def)

lemma bnd_access_sb [simp]:
  "bnd (get_sb p f) k1 s = (if p = NULL then Fault NullDeref else k1 (f (sb_at s p)) s)"
  "bnd (upd_sb p g) k2 s =
     (if p = NULL then Fault NullDeref else k2 () (s\<lparr>sb_at := (sb_at s)(p := g (sb_at s p))\<rparr>))"
  by (simp_all add: get_sb_def upd_sb_def)

lemma run_access_file [simp]:
  "get_file p f1 s = (if p = NULL then Fault NullDeref else Ok (f1 (file_at s p), s))"
  "upd_file p g1 s = (if p = NULL then Fault NullDeref else Ok ((), s\<lparr>file_at := (file_at s)(p := g1 (file_at s p))\<rparr>))"
  "get_fop p f2 s = (if p = NULL then Fault NullDeref else Ok (f2 (fop_at s p), s))"
  "upd_fop p g2 s = (if p = NULL then Fault NullDeref else Ok ((), s\<lparr>fop_at := (fop_at s)(p := g2 (fop_at s p))\<rparr>))"
  "get_inode p f3 s = (if p = NULL then Fault NullDeref else Ok (f3 (inode_at s p), s))"
  "upd_inode p g3 s = (if p = NULL then Fault NullDeref else Ok ((), s\<lparr>inode_at := (inode_at s)(p := g3 (inode_at s p))\<rparr>))"
  "get_dentry p f4 s = (if p = NULL then Fault NullDeref else Ok (f4 (dentry_at s p), s))"
  "upd_dentry p g4 s = (if p = NULL then Fault NullDeref else Ok ((), s\<lparr>dentry_at := (dentry_at s)(p := g4 (dentry_at s p))\<rparr>))"
  "get_dcache p f5 s = (if p = NULL then Fault NullDeref else Ok (f5 (dcache_at s p), s))"
  "upd_dcache p g5 s = (if p = NULL then Fault NullDeref else Ok ((), s\<lparr>dcache_at := (dcache_at s)(p := g5 (dcache_at s p))\<rparr>))"
  "get_sb p f6 s = (if p = NULL then Fault NullDeref else Ok (f6 (sb_at s p), s))"
  "upd_sb p g6 s = (if p = NULL then Fault NullDeref else Ok ((), s\<lparr>sb_at := (sb_at s)(p := g6 (sb_at s p))\<rparr>))"
  by (simp_all add: kop_defs)

section \<open>What the lower layers leave alone\<close>

lemma file_of_proc_more:
  "proc_state.more t = proc_state.more s \<Longrightarrow> file_at t = file_at s \<and>
    fop_at t = fop_at s \<and>
    inode_at t = inode_at s \<and>
    dentry_at t = dentry_at s \<and>
    dcache_at t = dcache_at s \<and>
    sb_at t = sb_at s \<and>
    input_buffer t = input_buffer s \<and>
    line_cursor t = line_cursor s \<and>
    head t = head s \<and>
    tarfs_start t = tarfs_start s \<and>
    slash t = slash s \<and>
    dev_in t = dev_in s \<and>
    dev_react t = dev_react s \<and>
    port_log t = port_log s"
  by (cases t, cases s) simp

lemma kmsg_file [frame, simp]:
  "file_at (kmsg m s) = file_at s" "fop_at (kmsg m s) = fop_at s"
  "inode_at (kmsg m s) = inode_at s" "dentry_at (kmsg m s) = dentry_at s"
  "dcache_at (kmsg m s) = dcache_at s" "sb_at (kmsg m s) = sb_at s"
  "input_buffer (kmsg m s) = input_buffer s" "line_cursor (kmsg m s) = line_cursor s"
  "head (kmsg m s) = head s" "tarfs_start (kmsg m s) = tarfs_start s"
  "slash (kmsg m s) = slash s" "dev_in (kmsg m s) = dev_in s"
  "dev_react (kmsg m s) = dev_react s" "port_log (kmsg m s) = port_log s"
  using file_of_proc_more [of "kmsg m s" s] by simp_all

lemma phys_mem_alloc_file [frame, simp]:
  "file_at (snd (phys_mem_alloc s)) = file_at s" "fop_at (snd (phys_mem_alloc s)) = fop_at s"
  "inode_at (snd (phys_mem_alloc s)) = inode_at s" "dentry_at (snd (phys_mem_alloc s)) = dentry_at s"
  "dcache_at (snd (phys_mem_alloc s)) = dcache_at s" "sb_at (snd (phys_mem_alloc s)) = sb_at s"
  "input_buffer (snd (phys_mem_alloc s)) = input_buffer s" "line_cursor (snd (phys_mem_alloc s)) = line_cursor s"
  "head (snd (phys_mem_alloc s)) = head s" "tarfs_start (snd (phys_mem_alloc s)) = tarfs_start s"
  "slash (snd (phys_mem_alloc s)) = slash s" "dev_in (snd (phys_mem_alloc s)) = dev_in s"
  "dev_react (snd (phys_mem_alloc s)) = dev_react s" "port_log (snd (phys_mem_alloc s)) = port_log s"
  using file_of_proc_more [of "snd (phys_mem_alloc s)" s] by simp_all

lemma phys_mem_free_file [frame, simp]:
  "file_at (phys_mem_free a s) = file_at s" "fop_at (phys_mem_free a s) = fop_at s"
  "inode_at (phys_mem_free a s) = inode_at s" "dentry_at (phys_mem_free a s) = dentry_at s"
  "dcache_at (phys_mem_free a s) = dcache_at s" "sb_at (phys_mem_free a s) = sb_at s"
  "input_buffer (phys_mem_free a s) = input_buffer s" "line_cursor (phys_mem_free a s) = line_cursor s"
  "head (phys_mem_free a s) = head s" "tarfs_start (phys_mem_free a s) = tarfs_start s"
  "slash (phys_mem_free a s) = slash s" "dev_in (phys_mem_free a s) = dev_in s"
  "dev_react (phys_mem_free a s) = dev_react s" "port_log (phys_mem_free a s) = port_log s"
  using file_of_proc_more [of "phys_mem_free a s" s] by simp_all

section \<open>Descriptor tables\<close>

text \<open>A slot of the descriptor table of a process; the table has \<open>MAX_FD\<close> entries.\<close>

definition get_fd :: "ptr \<Rightarrow> u32 \<Rightarrow> ('z proc_state_scheme, ptr) kop" where
  "get_fd p i = bnd (get_pcb p pcb_fd) (\<lambda>tbl.
     if 0 \<le> sint i \<and> nat (sint i) < length tbl then ret (tbl ! nat (sint i)) else fail OutOfBounds)"

definition set_fd :: "ptr \<Rightarrow> u32 \<Rightarrow> ptr \<Rightarrow> ('z proc_state_scheme, unit) kop" where
  "set_fd p i fp = bnd (get_pcb p pcb_fd) (\<lambda>tbl.
     if 0 \<le> sint i \<and> nat (sint i) < length tbl
     then upd_pcb p (pcb_fd_update (\<lambda>_. tbl[nat (sint i) := fp])) else fail OutOfBounds)"

section \<open>Ports\<close>

definition outb :: "u16 \<Rightarrow> u8 \<Rightarrow> 'z file_state_scheme \<Rightarrow> 'z file_state_scheme" where
  "outb port val s = s\<lparr>port_log := port_log s @ [(port, val)], dev_in := dev_react s port val (dev_in s)\<rparr>"

definition inb :: "u16 \<Rightarrow> 'z file_state_scheme \<Rightarrow> u8" where
  "inb port s = dev_in s port"

end
