(* ===== verification/Terminals.thy ===== *)
theory Terminals
  imports File_State
begin

text \<open>
  The terminal, \<^verbatim>\<open>sys/terminals.c\<close>: a line buffer filled by the keyboard interrupt and emptied by
  \<open>terminal_read\<close>, and output straight to the screen. The buffer is related to the list of characters
  typed so far.
\<close>

section \<open>The input buffer\<close>

definition clear_input_buffer :: "'z file_state_scheme \<Rightarrow> 'z file_state_scheme" where
  "clear_input_buffer s = s\<lparr>head := input_buffer s, line_cursor := 0\<rparr>"

definition ttyinit :: "('z file_state_scheme, unit) kop" where
  "ttyinit =
     bnd kalloc (\<lambda>b.
     bnd (modify (input_buffer_update (\<lambda>_. b))) (\<lambda>_.
     modify clear_input_buffer))"

definition is_input_buffer_empty :: "'z file_state_scheme \<Rightarrow> bool" where
  "is_input_buffer_empty s \<longleftrightarrow> sint (line_cursor s) < 4096"

text \<open>Nothing bounds the insertion by the size of the buffer, or the erasure by its start.\<close>

definition insert_char_into_input_buffer :: "u8 \<Rightarrow> ('z file_state_scheme, unit) kop" where
  "insert_char_into_input_buffer c =
     bnd (gets head) (\<lambda>h.
     bnd (store h c) (\<lambda>_.
     bnd (modify (\<lambda>s. s\<lparr>head := h + 1\<rparr>)) (\<lambda>_.
     bnd (gets line_cursor) (\<lambda>n.
     if n = 0x7FFFFFFF then fail SignedOverflow
     else modify (\<lambda>s. s\<lparr>line_cursor := n + 1\<rparr>)))))"

definition erase_char_from_input_buffer :: "('z file_state_scheme, unit) kop" where
  "erase_char_from_input_buffer =
     bnd (modify (\<lambda>s. s\<lparr>head := head s - 1\<rparr>)) (\<lambda>_.
     bnd (gets line_cursor) (\<lambda>n.
     if n = 0x80000000 then fail SignedOverflow
     else modify (\<lambda>s. s\<lparr>line_cursor := n - 1\<rparr>)))"

text \<open>Whether the first \<open>line_cursor\<close> characters contain a newline.\<close>

definition check_input_buffer :: "('z file_state_scheme, bool) kop" where
  "check_input_buffer =
     loopM (\<lambda>i. bnd (gets line_cursor) (\<lambda>n.
       if i < sint n then
         bnd (gets input_buffer) (\<lambda>b.
         bnd (load (b + of_int i)) (\<lambda>c.
         ret (if c = 10 then Inr True else Inl (i + 1))))
       else ret (Inr False))) (0 :: int)"

section \<open>File operations of the terminal\<close>

definition available_fd :: "ptr \<Rightarrow> ('z proc_state_scheme, u32) kop" where
  "available_fd proc =
     bnd (loopM (\<lambda>i :: u32.
       if i < 256 then bnd (get_fd proc i) (\<lambda>fp. ret (if fp \<noteq> NULL then Inl (i + 1) else Inr i))
       else ret (Inr i)) 0) (\<lambda>i.
     if i = 256 then bnd (modify (kmsg ''exhausted all file descriptors\<newline>'')) (\<lambda>_. ret (- 1))
     else ret i)"

text \<open>The statements with which every kind of open fills in a new file structure.\<close>

definition new_file :: "u32 \<Rightarrow> u16 \<Rightarrow> ptr \<Rightarrow> ('z file_state_scheme, ptr) kop" where
  "new_file flags mode d =
     bnd kalloc (\<lambda>fp.
     bnd (upd_file fp (\<lambda>_. zero_file)) (\<lambda>_.
     bnd (upd_file fp (f_offset_update (\<lambda>_. 0))) (\<lambda>_.
     bnd (upd_file fp (\<lambda>f. f\<lparr>f_refcount := f_refcount f + 1\<rparr>)) (\<lambda>_.
     bnd (upd_file fp (\<lambda>f. f\<lparr>f_mode := mode, f_flags := flags, f_dentry := d\<rparr>)) (\<lambda>_.
     ret fp)))))"

definition set_file_operations :: "ptr \<Rightarrow> file_operations \<Rightarrow> ('z file_state_scheme, unit) kop" where
  "set_file_operations fp ops =
     bnd kalloc (\<lambda>q.
     bnd (upd_file fp (f_op_update (\<lambda>_. q))) (\<lambda>_.
     upd_fop q (\<lambda>_. ops)))"

definition terminal_ops :: file_operations where
  "terminal_ops = \<lparr>op_read = terminal_read_fn, op_write = terminal_write_fn, op_close = terminal_close_fn\<rparr>"

definition terminal_open :: "u32 \<Rightarrow> u16 \<Rightarrow> ('z file_state_scheme, u32) kop" where
  "terminal_open flags mode =
     bnd (new_file flags mode NULL) (\<lambda>fp.
     bnd (set_file_operations fp terminal_ops) (\<lambda>_.
     bnd get_current_process (\<lambda>proc.
     bnd (available_fd proc) (\<lambda>fd.
     if sint fd < 0 then bnd (modify (phys_mem_free fp)) (\<lambda>_. ret (- 1))
     else bnd (set_fd proc fd fp) (\<lambda>_. ret fd)))))"

text \<open>
  The wait for a newline is a loop that only an interrupt can end; run without interrupts it never
  ends. The count is unsigned and the cursor an \<^verbatim>\<open>int\<close>, so they are compared as unsigned numbers.
\<close>

definition deliver_line :: "ptr \<Rightarrow> u64 \<Rightarrow> ('z file_state_scheme, u64) kop" where
  "deliver_line buf temp_size =
     (if 2 ^ 31 \<le> unat temp_size then fail SignedOverflow
      else
        bnd (gets input_buffer) (\<lambda>b.
        bnd (for_each [0..<unat temp_size] (\<lambda>i. bnd (load (b + of_nat i)) (store (buf + of_nat i)))) (\<lambda>_.
        bnd (store (buf + temp_size) 0) (\<lambda>_.
        bnd (modify clear_input_buffer) (\<lambda>_. ret temp_size)))))"

definition terminal_read :: "ptr \<Rightarrow> ptr \<Rightarrow> u64 \<Rightarrow> u64 \<Rightarrow> ('z file_state_scheme, u64) kop" where
  "terminal_read fp buf count offset =
     (if fp = NULL then bnd (modify (kmsg ''Invalid terminal file descriptor\<newline>'')) (\<lambda>_. ret (- 1))
      else
        bnd (loopM (\<lambda>_ :: unit. bnd check_input_buffer (\<lambda>b. ret (if b then Inr () else Inl ()))) ()) (\<lambda>_.
        bnd (gets line_cursor) (\<lambda>n.
        deliver_line buf (if count < scast n then count else scast n))))"

definition terminal_write :: "ptr \<Rightarrow> ptr \<Rightarrow> u64 \<Rightarrow> u64 \<Rightarrow> ('z file_state_scheme, u64) kop" where
  "terminal_write fp buf count offset =
     (if fp = NULL then bnd (modify (kmsg ''Invalid terminal file descriptor\<newline>'')) (\<lambda>_. ret (- 1))
      else if 2 ^ 31 \<le> unat count then fail SignedOverflow
      else
        bnd (for_each [0..<unat count] (\<lambda>i. bnd (load (buf + of_nat i)) (\<lambda>c. modify (kputchar c)))) (\<lambda>_.
        ret count))"

definition terminal_close :: "ptr \<Rightarrow> ('z file_state_scheme, u32) kop" where
  "terminal_close fp =
     (if fp = NULL then ret (- 1)
      else
        bnd (upd_file fp (\<lambda>f. f\<lparr>f_refcount := f_refcount f - 1\<rparr>)) (\<lambda>_.
        bnd (get_file fp f_refcount) (\<lambda>n.
        bnd (if n \<le> 0 then modify (phys_mem_free fp) else ret ()) (\<lambda>_. ret 0))))"

section \<open>The characters typed so far\<close>

text \<open>
  \<open>typed s cs\<close>: the line buffer holds \<open>cs\<close>. The buffer is one page and does not reach the end of the
  address space.
\<close>

definition typed :: "'z file_state_scheme \<Rightarrow> bytes \<Rightarrow> bool" where
  "typed s cs \<longleftrightarrow> valid_range (input_buffer s) 4096 \<and> length cs \<le> 4096 \<and>
     head s = input_buffer s + of_nat (length cs) \<and> line_cursor s = of_nat (length cs) \<and>
     bytes_at (kmem s) (input_buffer s) (length cs) = cs"

lemma bytes_at_snoc: "bytes_at m p (Suc n) = bytes_at m p n @ [m (p + of_nat n)]"
  by (simp add: bytes_at_def)

lemma bytes_at_nth: "i < n \<Longrightarrow> bytes_at m p n ! i = m (p + of_nat i)"
  by (simp add: bytes_at_def)

lemma bytes_at_upd_outside:
  "n \<le> unat (a - p) \<Longrightarrow> n < 2 ^ 64 \<Longrightarrow> bytes_at (m(a := v)) p n = bytes_at m p n"
  by (auto simp: bytes_at_def unat_of_nat take_bit_nat_eq_self)

lemma insert_typed:
  assumes "typed s cs" "length cs < 4096"
  shows "insert_char_into_input_buffer c s =
      Ok ((), s\<lparr>kmem := (kmem s)(head s := c), head := head s + 1, line_cursor := line_cursor s + 1\<rparr>)"
    and "typed (s\<lparr>kmem := (kmem s)(head s := c), head := head s + 1, line_cursor := line_cursor s + 1\<rparr>) (cs @ [c])"
proof -
  have nn: "head s \<noteq> NULL"
    using assms valid_range_nonnull [of "input_buffer s" 4096 "length cs"] by (simp add: typed_def)
  have "unat (line_cursor s) = length cs"
    using assms by (simp add: typed_def unat_of_nat take_bit_nat_eq_self)
  then have "line_cursor s \<noteq> 0x7FFFFFFF" using assms(2) by auto
  with nn show "insert_char_into_input_buffer c s =
      Ok ((), s\<lparr>kmem := (kmem s)(head s := c), head := head s + 1, line_cursor := line_cursor s + 1\<rparr>)"
    by (simp add: insert_char_into_input_buffer_def)
  have "bytes_at ((kmem s)(head s := c)) (input_buffer s) (length cs) = cs"
    using assms by (subst bytes_at_upd_outside) (simp_all add: typed_def unat_of_nat take_bit_nat_eq_self)
  then show "typed (s\<lparr>kmem := (kmem s)(head s := c), head := head s + 1, line_cursor := line_cursor s + 1\<rparr>) (cs @ [c])"
    using assms by (auto simp: typed_def bytes_at_snoc)
qed

lemma clear_typed: "typed s cs \<Longrightarrow> typed (clear_input_buffer s) []"
  by (simp add: typed_def clear_input_buffer_def bytes_at_def)

lemma erase_typed:
  assumes "typed s (cs @ [c])"
  shows "erase_char_from_input_buffer s = Ok ((), s\<lparr>head := head s - 1, line_cursor := line_cursor s - 1\<rparr>)"
    and "typed (s\<lparr>head := head s - 1, line_cursor := line_cursor s - 1\<rparr>) cs"
proof -
  have "unat (line_cursor s) = Suc (length cs)"
    using assms by (simp add: typed_def unat_of_nat take_bit_nat_eq_self del: of_nat_Suc)
  moreover have "length cs < 4096" using assms by (simp add: typed_def)
  ultimately have "line_cursor s \<noteq> 0x80000000" by auto
  then show "erase_char_from_input_buffer s = Ok ((), s\<lparr>head := head s - 1, line_cursor := line_cursor s - 1\<rparr>)"
    by (simp add: erase_char_from_input_buffer_def)
  show "typed (s\<lparr>head := head s - 1, line_cursor := line_cursor s - 1\<rparr>) cs"
    using assms by (auto simp: typed_def bytes_at_snoc)
qed

lemma check_input_buffer_run:
  assumes "typed s cs"
  shows "check_input_buffer s = Ok (10 \<in> set cs, s)"
proof -
  define B :: "int \<Rightarrow> ('a file_state_scheme, int + bool) kop" where
    "B = (\<lambda>i. bnd (gets line_cursor) (\<lambda>n. if i < sint n then
      bnd (gets input_buffer) (\<lambda>b. bnd (load (b + of_int i)) (\<lambda>c. ret (if c = 10 then Inr True else Inl (i + 1))))
      else ret (Inr False)))"
  have n: "sint (line_cursor s) = int (length cs)"
    using assms by (simp add: typed_def sint_of_nat_small)
  have "k \<le> length cs \<Longrightarrow> loopM B (int k) s = Ok (10 \<in> set (drop k cs), s)" for k
  proof (induction "length cs - k" arbitrary: k)
    case 0
    then have "B (int k) s = Ok (Inr False, s)" by (simp add: n B_def)
    with 0 show ?case by (simp add: loopM_exit)
  next
    case (Suc m)
    then have k: "k < length cs" by simp
    have "input_buffer s + of_nat k \<noteq> NULL"
      using assms k valid_range_nonnull [of "input_buffer s" 4096 k] by (simp add: typed_def)
    moreover have "kmem s (input_buffer s + of_nat k) = cs ! k"
      using assms k bytes_at_nth [of k "length cs" "kmem s" "input_buffer s"] by (simp add: typed_def)
    ultimately have "B (int k) s = Ok (if cs ! k = 10 then Inr True else Inl (int (Suc k)), s)"
      using k by (simp add: n B_def)
    moreover have "loopM B (int (Suc k)) s = Ok (10 \<in> set (drop (Suc k) cs), s)"
      using Suc k by (intro Suc.hyps) simp_all
    moreover have "drop k cs = cs ! k # drop (Suc k) cs" using k by (simp add: Cons_nth_drop_Suc)
    ultimately show ?case by (cases "cs ! k = 10") (simp_all add: loopM_exit loopM_continue)
  qed
  from this [of 0] show ?thesis by (simp add: check_input_buffer_def B_def)
qed

section \<open>Properties\<close>

lemma wait_for_newline:
  assumes "typed s cs"
  shows "loopM (\<lambda>_ :: unit. bnd check_input_buffer (\<lambda>b. ret (if b then Inr () else Inl ()))) () s =
    (if 10 \<in> set cs then Ok ((), s) else Diverge)"
proof -
  define B :: "unit \<Rightarrow> ('a file_state_scheme, unit + unit) kop" where
    "B = (\<lambda>_. bnd check_input_buffer (\<lambda>b. ret (if b then Inr () else Inl ())))"
  have b: "B u s = Ok (if 10 \<in> set cs then Inr () else Inl (), s)" for u
    by (simp add: B_def bnd_Ok check_input_buffer_run [OF assms])
  have "loopM B () s = (if 10 \<in> set cs then Ok ((), s) else Diverge)"
  proof (cases "10 \<in> set cs")
    case True
    then show ?thesis using b by (simp add: loopM_exit)
  next
    case False
    then have "loopM B () s = Diverge"
      using b by (intro loopM_diverges [where I = "\<lambda>_ t. t = s"]) auto
    with False show ?thesis by simp
  qed
  then show ?thesis by (simp only: B_def)
qed

lemma copy_loop_run:
  assumes "valid_range dest n" and "valid_range src n"
    and "\<forall>i < n. n \<le> unat (src + of_nat i - dest)"
  shows "for_each [0..<n] (\<lambda>i. bnd (load (src + of_nat i)) (store (dest + of_nat i))) s =
    Ok ((), s\<lparr>kmem := fill (kmem s) dest n (\<lambda>i. kmem s (src + of_nat i))\<rparr>)"
  using my_memcpy_run [OF assms, of s] by (simp add: my_memcpy_def)

text \<open>
  C38: Reading from the terminal: when the characters typed contain a newline, \<^verbatim>\<open>terminal_read\<close> delivers the
  first \<open>count\<close> of them (all, if there are fewer), stores a NUL byte behind the last one, which is
  outside the caller's buffer if the line fills it, and empties the line buffer. Without a newline it
  waits for ever.
\<close>

theorem terminal_read_line:
  assumes "typed s cs" and "fp \<noteq> NULL" and "n = min (unat count) (length cs)"
    and "valid_range buf (Suc n)" and "\<forall>i < n. n \<le> unat (input_buffer s + of_nat i - buf)"
  shows "if 10 \<in> set cs then
      \<exists>t. terminal_read fp buf count off s = Ok (of_nat n, t) \<and>
        bytes_at (kmem t) buf n = take n cs \<and> kmem t (buf + of_nat n) = 0 \<and> typed t []
    else terminal_read fp buf count off s = Diverge"
proof (cases "10 \<in> set cs")
  case False
  with assms(2) show ?thesis
    by (simp add: terminal_read_def bnd_apply wait_for_newline [OF assms(1)])
next
  case True
  have l: "length cs \<le> 4096" using assms(1) by (simp add: typed_def)
  then have c: "scast (line_cursor s) = (of_nat (length cs) :: u64)"
    using assms(1) by (simp add: typed_def scast_of_nat_small)
  have "(if count < of_nat (length cs) then count else of_nat (length cs)) = (of_nat n :: u64)"
    using l assms(3) by (simp add: word_less_nat_alt unat_of_nat take_bit_nat_eq_self min_def)
  note ts = this
  have n: "n \<le> 4096" "unat (of_nat n :: u64) = n"
    using l assms(3) by (simp_all add: unat_of_nat take_bit_nat_eq_self)
  have r: "valid_range buf n" "valid_range (input_buffer s) n"
    using assms(1,4) n by (auto simp: typed_def valid_range_def)
  have nn: "buf + of_nat n \<noteq> NULL" using assms(4) by (rule valid_range_nonnull) simp
  define m where "m = (fill (kmem s) buf n (\<lambda>i. kmem s (input_buffer s + of_nat i)))(buf + of_nat n := 0)"
  have "terminal_read fp buf count off s = Ok (of_nat n, clear_input_buffer (s\<lparr>kmem := m\<rparr>))"
  proof -
    have "terminal_read fp buf count off s
        = deliver_line buf (if count < of_nat (length cs) then count else of_nat (length cs)) s"
      using assms(2) True by (simp add: terminal_read_def bnd_Ok wait_for_newline [OF assms(1)] c)
    then show ?thesis
      unfolding ts using n nn by (simp add: deliver_line_def bnd_Ok copy_loop_run [OF r assms(5)] m_def)
  qed
  moreover have "bytes_at m buf n = take n cs"
  proof -
    have "bytes_at m buf n = bytes_at (fill (kmem s) buf n (\<lambda>i. kmem s (input_buffer s + of_nat i))) buf n"
      unfolding m_def using n by (intro bytes_at_upd_outside) simp_all
    also have "\<dots> = bytes_at (kmem s) (input_buffer s) n"
      using n by (auto simp: bytes_at_def fill_at)
    also have "\<dots> = take n (bytes_at (kmem s) (input_buffer s) (length cs))"
      using assms(3) by (simp add: bytes_at_def take_map)
    finally show ?thesis using assms(1) by (simp add: typed_def)
  qed
  moreover have "m (buf + of_nat n) = 0" by (simp add: m_def)
  moreover have "typed (clear_input_buffer (s\<lparr>kmem := m\<rparr>)) []"
    using assms(1) by (simp add: typed_def clear_input_buffer_def bytes_at_def)
  ultimately show ?thesis
    using True by (auto intro!: exI [of _ "clear_input_buffer (s\<lparr>kmem := m\<rparr>)"] simp: clear_input_buffer_def)
qed

text \<open>
  Erasing with nothing typed, as the keyboard's control-H does, leaves the line buffer invalid:
  the cursor is -1 and the position of the next character lies below the buffer.
\<close>

theorem erase_underflows:
  assumes "typed s []"
  shows "\<exists>t. erase_char_from_input_buffer s = Ok ((), t) \<and> sint (line_cursor t) = - 1 \<and>
    head t = input_buffer t - 1"
  using assms by (simp add: erase_char_from_input_buffer_def typed_def)

definition terminal_machine :: "bytes \<Rightarrow> file_state" where
  "terminal_machine cs =
     proc_state.extend ((idle_machine (\<lambda>_. zero_pcb))\<lparr>kmem := (\<lambda>a. if unat (a - 0x5000) < length cs then cs ! unat (a - 0x5000) else 0)\<rparr>)
       \<lparr>file_at = (\<lambda>_. zero_file), fop_at = (\<lambda>_. \<lparr>op_read = NoRead, op_write = NoWrite, op_close = NoClose\<rparr>),
        inode_at = (\<lambda>_. zero_inode), dentry_at = (\<lambda>_. \<lparr>d_parent = NULL, d_op = NULL\<rparr>),
        dcache_at = (\<lambda>_. \<lparr>inode_num = 0, dentry_elem = NULL\<rparr>),
        sb_at = (\<lambda>_. \<lparr>s_op = NULL, s_root = NULL, s_inodes = NULL, s_magic = 0\<rparr>),
        tarfs_start = 0x10000, slash = 0x9000, input_buffer = 0x5000, line_cursor = of_nat (length cs),
        head = 0x5000 + of_nat (length cs), shift_key = 0, ctrl_key = 0, stop_buffer_output = 0,
        dev_in = (\<lambda>_. 0), dev_react = (\<lambda>p v d. d(p := v)), port_log = []\<rparr>"

lemma terminal_machine_typed: "length cs \<le> 4096 \<Longrightarrow> typed (terminal_machine cs) cs"
  by (auto simp: typed_def terminal_machine_def proc_state.defs valid_range_def bytes_at_def unat_of_nat
      take_bit_nat_eq_self intro!: nth_equalityI)

theorem terminal_read_line_witness:
  "\<exists>t. terminal_read 0x7000 0x6000 10 0 (terminal_machine (bytes_of ''ls'' @ [10])) = Ok (3, t) \<and>
     bytes_at (kmem t) 0x6000 3 = bytes_of ''ls'' @ [10]"
proof -
  have "typed (terminal_machine (bytes_of ''ls'' @ [10])) (bytes_of ''ls'' @ [10])"
    by (rule terminal_machine_typed) (simp add: bytes_of_def)
  moreover have "(3 :: nat) = min (unat (10 :: u64)) (length (bytes_of ''ls'' @ [10]))"
    by (simp add: bytes_of_def)
  moreover have "valid_range 0x6000 (Suc 3)" by (simp add: valid_range_def)
  moreover have "\<forall>i < 3. 3 \<le> unat (input_buffer (terminal_machine (bytes_of ''ls'' @ [10])) + of_nat i - 0x6000)"
    by (auto simp: terminal_machine_def proc_state.defs less_Suc_eq numeral_3_eq_3)
  ultimately show ?thesis
    using terminal_read_line [of "terminal_machine (bytes_of ''ls'' @ [10])" "bytes_of ''ls'' @ [10]" "0x7000" 3 10 "0x6000" 0]
    by (auto simp: bytes_of_def)
qed

theorem erase_underflows_witness:
  "\<exists>t. erase_char_from_input_buffer (terminal_machine []) = Ok ((), t) \<and> sint (line_cursor t) = - 1"
  using erase_underflows [OF terminal_machine_typed] by auto

end
