(* ===== verification/Tarfs.thy ===== *)
theory Tarfs
  imports Terminals
begin

text \<open>
  The file system in the archive the kernel is linked with, \<^verbatim>\<open>sys/tarfs.c\<close>: reading the archive into the
  inode list and the directory-entry cache, finding a file by its name, reading a file and listing a
  directory. Names are compared with \<open>my_memcmp\<close>, on as many bytes as one of them has.
\<close>

section \<open>Comparing with a literal\<close>

fun memcmp_literal :: "ptr \<Rightarrow> bytes \<Rightarrow> int \<Rightarrow> ('z util_state_scheme, int) kop" where
  "memcmp_literal p [] diff = ret diff"
| "memcmp_literal p (b # bs) diff =
     bnd (load p) (\<lambda>a. memcmp_literal (p + 1) bs (diff + ((uint a - 48) - (uint b - 48))))"

definition strlen_int :: "ptr \<Rightarrow> ('z util_state_scheme, int) kop" where
  "strlen_int p = bnd (my_strlen p) (\<lambda>n. ret (sint n))"

section \<open>Parent and child names\<close>

text \<open>The result of the C function is a structure of the two names; here the pair of its pointers.\<close>

definition find_end :: "ptr \<Rightarrow> ('z util_state_scheme, ptr) kop" where
  "find_end = loopM (\<lambda>p. bnd (load p) (\<lambda>c. ret (if c \<noteq> 0 then Inl (p + 1) else Inr p)))"

definition copy_to_slash :: "ptr \<Rightarrow> ptr \<Rightarrow> ('z util_state_scheme, unit) kop" where
  "copy_to_slash dest src =
     loopM (\<lambda>k. bnd (load (src + k)) (\<lambda>c.
       if c \<noteq> 47 then bnd (store (dest + k) c) (\<lambda>_. ret (Inl (k + 1))) else ret (Inr ()))) 0"

definition back_to_slash :: "ptr \<Rightarrow> ptr \<Rightarrow> ('z util_state_scheme, ptr) kop" where
  "back_to_slash filename =
     loopM (\<lambda>p. if p = filename then ret (Inr p)
       else bnd (load p) (\<lambda>c. ret (if c \<noteq> 47 then Inl (p - 1) else Inr p)))"

definition get_parent_and_child_directories :: "ptr \<Rightarrow> ('z file_state_scheme, ptr \<times> ptr) kop" where
  "get_parent_and_child_directories filename =
     bnd kalloc (\<lambda>temp.
     bnd (my_memset temp 0 PAGE_BLOCK_SIZE) (\<lambda>_.
     if filename = NULL then ret (NULL, NULL)
     else
       bnd (find_end filename) (\<lambda>e.
       bnd (load (e - 1)) (\<lambda>c.
       if c = 47 then
         bnd kalloc (\<lambda>parent.
         bnd (store parent 47) (\<lambda>_.
         bnd (store (parent + 1) 0) (\<lambda>_.
         bnd kalloc (\<lambda>child.
         bnd (copy_to_slash child filename) (\<lambda>_.
         ret (parent, child))))))
       else
         bnd (back_to_slash filename (e - 1)) (\<lambda>temps.
         if temps = filename then bnd (gets slash) (\<lambda>r. ret (r, temps))
         else
           bnd kalloc (\<lambda>parent.
           bnd (my_memcpy parent filename (uint (temps - filename))) (\<lambda>_.
           bnd (store (parent + (temps - filename)) 0) (\<lambda>_.
           ret (parent, temps + 1)))))))))"

section \<open>The inode list and the directory-entry cache\<close>

definition inode_slot :: "ptr \<Rightarrow> nat \<Rightarrow> ptr" where
  "inode_slot lst i = lst + sizeof_inode * of_nat i"

definition dcache_slot :: "ptr \<Rightarrow> nat \<Rightarrow> ptr" where
  "dcache_slot arr i = arr + sizeof_dentry_cache * of_nat i"

definition get_parent_dentry :: "ptr \<Rightarrow> ('z file_state_scheme, ptr) kop" where
  "get_parent_dentry name =
     bnd (get_parent_and_child_directories name) (\<lambda>(parent, child).
     if parent = NULL then ret NULL
     else
       bnd (gets tarfs_sb) (\<lambda>sb.
       bnd (get_sb sb s_inodes) (\<lambda>lst.
       loopM (\<lambda>i.
         bnd (get_inode (inode_slot lst i) i_number) (\<lambda>n.
         if n = 0 then ret (Inr NULL)
         else
           bnd (get_inode (inode_slot lst i) i_dentry) (\<lambda>d.
           bnd (strlen_int parent) (\<lambda>len.
           bnd (my_memcmp d parent len) (\<lambda>r.
           ret (if r = 0 then Inr d else Inl (Suc i))))))) 0)))"

definition get_inode_from_dentry :: "ptr \<Rightarrow> ('z file_state_scheme, inode) kop" where
  "get_inode_from_dentry de =
     bnd (gets tarfs_sb) (\<lambda>sb.
     bnd (get_sb sb s_inodes) (\<lambda>lst.
     loopM (\<lambda>i.
       bnd (get_inode (inode_slot lst i) id) (\<lambda>ino.
       if i_number ino = 0 then ret (Inr zero_inode)
       else
         bnd (strlen_int de) (\<lambda>len.
         bnd (my_memcmp (i_dentry ino) de len) (\<lambda>r.
         ret (if r = 0 then Inr ino else Inl (Suc i)))))) 0))"

definition insert_inode_into_superblock :: "inode \<Rightarrow> ('z file_state_scheme, unit) kop" where
  "insert_inode_into_superblock tarfs_inode =
     bnd (gets tarfs_sb) (\<lambda>sb.
     bnd (get_sb sb s_inodes) (\<lambda>lst.
     bnd (loopM (\<lambda>i. bnd (get_inode (inode_slot lst i) i_number) (\<lambda>n. ret (if n \<noteq> 0 then Inl (Suc i) else Inr i))) 0) (\<lambda>i.
     upd_inode (inode_slot lst i) (\<lambda>_. tarfs_inode))))"

definition insert_dentry_into_dentry_cache :: "u32 \<Rightarrow> ptr \<Rightarrow> ('z file_state_scheme, unit) kop" where
  "insert_dentry_into_dentry_cache num d =
     bnd (gets dentry_cache_array) (\<lambda>arr.
     bnd (loopM (\<lambda>i. bnd (get_dcache (dcache_slot arr i) inode_num) (\<lambda>n. ret (if n \<noteq> 0 then Inl (Suc i) else Inr i))) 0) (\<lambda>i.
     bnd (upd_dcache (dcache_slot arr i) (inode_num_update (\<lambda>_. num))) (\<lambda>_.
     upd_dcache (dcache_slot arr i) (dentry_elem_update (\<lambda>_. d)))))"

text \<open>Eight bytes are compared: \<^verbatim>\<open>sizeof\<close> of a pointer.\<close>

definition check_dentry_cache :: "ptr \<Rightarrow> ('z file_state_scheme, ptr) kop" where
  "check_dentry_cache dentry_name =
     bnd (gets dentry_cache_array) (\<lambda>arr.
     loopM (\<lambda>i.
       if i < MAX_DENTRIES_IN_CACHE then
         bnd (get_dcache (dcache_slot arr i) dentry_elem) (\<lambda>d.
         bnd (my_memcmp d dentry_name 8) (\<lambda>r.
         ret (if r = 0 then Inr d else Inl (Suc i))))
       else ret (Inr NULL)) 0)"

section \<open>Building the tree\<close>

definition zero_dentry :: "ptr \<Rightarrow> ('z file_state_scheme, unit) kop" where
  "zero_dentry p =
     bnd (my_memset p 0 sizeof_dentry) (\<lambda>_. upd_dentry p (\<lambda>_. \<lparr>d_parent = NULL, d_op = NULL\<rparr>))"

definition dentry_for_this_inode :: "ptr \<Rightarrow> ('z file_state_scheme, ptr) kop" where
  "dentry_for_this_inode name =
     bnd kalloc (\<lambda>d.
     bnd (zero_dentry d) (\<lambda>_.
     bnd (my_memcpy d name 100) (\<lambda>_.
     bnd (get_parent_dentry name) (\<lambda>p.
     bnd (upd_dentry d (d_parent_update (\<lambda>_. p))) (\<lambda>_.
     bnd kalloc (\<lambda>q.
     bnd (upd_dentry d (d_op_update (\<lambda>_. q))) (\<lambda>_.
     ret d)))))))"

definition create_root_dentry :: "('z file_state_scheme, ptr) kop" where
  "create_root_dentry =
     bnd kalloc (\<lambda>d.
     bnd (zero_dentry d) (\<lambda>_.
     bnd (my_memcpy_literal d [47]) (\<lambda>_.
     bnd (upd_dentry d (d_parent_update (\<lambda>_. NULL))) (\<lambda>_.
     bnd kalloc (\<lambda>q.
     bnd (upd_dentry d (d_op_update (\<lambda>_. q))) (\<lambda>_.
     bnd (insert_inode_into_superblock (zero_inode\<lparr>i_number := 2, i_dentry := d\<rparr>)) (\<lambda>_.
     bnd (insert_dentry_into_dentry_cache 2 d) (\<lambda>_.
     ret d))))))))"

text \<open>One entry of the archive, with its header at \<open>temp\<close>.\<close>

definition tarfs_entry :: "ptr \<Rightarrow> ptr \<Rightarrow> u32 \<Rightarrow> u64 \<Rightarrow> ('z file_state_scheme, unit) kop" where
  "tarfs_entry name temp num fsize =
     bnd (load (temp + 156)) (\<lambda>flag.
     bnd (gets tarfs_sb) (\<lambda>sb.
     bnd kalloc (\<lambda>q.
     bnd (my_memcpy name temp 100) (\<lambda>_.
     bnd (dentry_for_this_inode name) (\<lambda>d.
     bnd (insert_inode_into_superblock
            \<lparr>i_number = ucast num, i_size = ucast fsize, i_typeflag = flag,
             i_data = (if flag = 48 then temp + 512 else NULL), i_sb = sb, i_op = q, i_dentry = d\<rparr>) (\<lambda>_.
     insert_dentry_into_dentry_cache num d))))))"

definition tarfs_walk :: "ptr \<Rightarrow> ptr \<Rightarrow> ('z file_state_scheme, unit) kop" where
  "tarfs_walk name start =
     loopM (\<lambda>(temp, num).
       bnd (memcmp_literal (temp + 257) (bytes_of ''ustar'') 0) (\<lambda>r.
       if r = 0 then
         bnd (oct2dec (temp + 124) 11) (\<lambda>filesize.
         bnd (tarfs_entry name temp num filesize) (\<lambda>_.
         ret (Inl (temp + ((filesize + 511) div 512 + 1) * 512, num + 1))))
       else ret (Inr ()))) (start, 3)"

definition tarfs_init :: "('z file_state_scheme, unit) kop" where
  "tarfs_init =
     bnd kalloc (\<lambda>name.
     bnd (my_memset name 0 PAGE_BLOCK_SIZE) (\<lambda>_.
     bnd (gets is_paging) (\<lambda>pg.
     bnd (if pg = 1 then modify (\<lambda>s. s\<lparr>tarfs_sb := tarfs_sb s OR KERNBASE, dentry_cache_array := dentry_cache_array s OR KERNBASE\<rparr>)
          else ret ()) (\<lambda>_.
     bnd (gets tarfs_sb) (\<lambda>sb.
     bnd kalloc (\<lambda>q.
     bnd (upd_sb sb (s_op_update (\<lambda>_. q))) (\<lambda>_.
     bnd kalloc (\<lambda>lst.
     bnd (upd_sb sb (s_inodes_update (\<lambda>_. lst))) (\<lambda>_.
     bnd (for_each [0..<85] (\<lambda>i. upd_inode (inode_slot lst i) (\<lambda>_. zero_inode))) (\<lambda>_.
     bnd create_root_dentry (\<lambda>d_root.
     bnd (upd_sb sb (\<lambda>b. b\<lparr>s_root := d_root, s_magic := 100\<rparr>)) (\<lambda>_.
     bnd (gets tarfs_start) (tarfs_walk name)))))))))))))"

section \<open>Finding files\<close>

definition check_correct_file :: "ptr \<Rightarrow> ('z file_state_scheme, ptr) kop" where
  "check_correct_file filename =
     bnd (gets dentry_cache_array) (\<lambda>arr.
     loopM (\<lambda>i.
       if i < MAX_DENTRIES_IN_CACHE then
         bnd (get_dcache (dcache_slot arr i) id) (\<lambda>c.
         if inode_num c = 0 then ret (Inr NULL)
         else
           bnd (strlen_int filename) (\<lambda>len.
           bnd (my_memcmp (dentry_elem c) filename len) (\<lambda>r.
           ret (if r = 0 then Inr (dentry_elem c) else Inl (Suc i)))))
       else ret (Inr NULL)) 0)"

definition do_find_dentry :: "ptr \<Rightarrow> u32 \<Rightarrow> ('z file_state_scheme, ptr) kop" where
  "do_find_dentry pathname flags =
     bnd (load pathname) (\<lambda>c.
     bnd (if c \<noteq> 47 then
            bnd get_current_process (\<lambda>p.
            bnd (get_pcb p cwd) (\<lambda>w. my_strcat w pathname))
          else
            bnd kalloc (\<lambda>t.
            bnd (my_memset t 0 PAGE_BLOCK_SIZE) (\<lambda>_.
            bnd (strlen_int pathname) (\<lambda>n.
            bnd (my_memcpy t pathname n) (\<lambda>_. ret t))))) (\<lambda>temp.
     check_correct_file (temp + 1)))"

definition get_file_from_fd :: "u32 \<Rightarrow> ('z file_state_scheme, ptr) kop" where
  "get_file_from_fd fd = bnd get_current_process (\<lambda>p. get_fd p fd)"

section \<open>Reading files and directories\<close>

text \<open>
  The difference of file size and offset is unsigned; as the number of bytes to copy it is cut to an
  \<^verbatim>\<open>int\<close>, and a negative one copies nothing.
\<close>

definition tarfs_read :: "ptr \<Rightarrow> ptr \<Rightarrow> u64 \<Rightarrow> u64 \<Rightarrow> ('z file_state_scheme, u64) kop" where
  "tarfs_read fp buf count offset =
     bnd (get_file fp f_dentry) (\<lambda>d.
     bnd (get_inode_from_dentry d) (\<lambda>ino.
     let filesize = scast (i_size ino) :: u64;
         copy_size = (if filesize \<le> offset + count then filesize - offset else count)
     in
       bnd (my_memcpy buf (i_data ino + offset) (sint (ucast copy_size :: u32))) (\<lambda>_.
       bnd (upd_file fp (\<lambda>f. f\<lparr>f_offset := f_offset f + copy_size\<rparr>)) (\<lambda>_.
       ret copy_size))))"

definition FS_DIRECTORY :: u32 where
  "FS_DIRECTORY = 2"

definition sys_getdents :: "u32 \<Rightarrow> ptr \<Rightarrow> u32 \<Rightarrow> ('z file_state_scheme, u64) kop" where
  "sys_getdents fd data count =
     bnd (my_memset data 0 (scast count)) (\<lambda>_.
     bnd (get_file_from_fd fd) (\<lambda>fp.
     bnd (get_file fp f_flags) (\<lambda>fl.
     if fl \<noteq> FS_DIRECTORY then ret 0
     else
       bnd (get_file fp f_dentry) (\<lambda>ex.
       bnd (gets dentry_cache_array) (\<lambda>arr.
       loopM (\<lambda>(i, n_written :: u32).
         bnd (get_dcache (dcache_slot arr i) id) (\<lambda>c.
         if inode_num c = 0 then ret (Inr (scast n_written))
         else if sint count < sint n_written then ret (Inr (scast count))
         else
           bnd (get_dentry (dentry_elem c) d_parent) (\<lambda>p.
           if p = NULL then ret (Inl (Suc i, n_written))
           else
             bnd (strlen_int ex) (\<lambda>len.
             bnd (my_memcmp ex p len) (\<lambda>r.
             if r = 0 then
               bnd (strlen_int (dentry_elem c)) (\<lambda>m.
               bnd (my_memcpy (data + scast n_written) (dentry_elem c) m) (\<lambda>_.
               ret (Inl (Suc i, n_written + 32))))
             else ret (Inl (Suc i, n_written))))))) (0, 0))))))"

section \<open>The cache as a list\<close>

text \<open>
  \<open>cached s es\<close>: the directory-entry cache holds exactly the entries \<open>es\<close>, all at addresses other than
  the null pointer, followed by an unused slot.
\<close>

definition cached :: "'z file_state_scheme \<Rightarrow> dentry_cache list \<Rightarrow> bool" where
  "cached s es \<longleftrightarrow>
     (\<forall>i\<le>length es. dcache_slot (dentry_cache_array s) i \<noteq> NULL) \<and>
     (\<forall>i<length es. dcache_at s (dcache_slot (dentry_cache_array s) i) = es ! i \<and> inode_num (es ! i) \<noteq> 0) \<and>
     inode_num (dcache_at s (dcache_slot (dentry_cache_array s) (length es))) = 0"

text \<open>The sum of the first bytes of a name, which is what the comparison of names looks at.\<close>

definition name_sum :: "'z file_state_scheme \<Rightarrow> ptr \<Rightarrow> nat \<Rightarrow> int" where
  "name_sum s p n = sum_list (map uint (bytes_at (kmem s) p n))"

lemma cstr_valid: "cstr m p cs \<Longrightarrow> bytes_at m p (length cs) = cs"
proof (induction cs arbitrary: p)
  case Nil
  then show ?case by (simp add: bytes_at_def)
next
  case (Cons c cs)
  then show ?case by (simp add: bytes_at_Suc)
qed

lemma strlen_int_run:
  assumes "cstr (kmem s) p cs" "length cs < 2 ^ 31"
  shows "strlen_int p s = Ok (int (length cs), s)"
  using my_strlen_run [OF assms] assms(2) by (simp add: strlen_int_def bnd_Ok sint_of_nat_small)

text \<open>
  Finding a file by name returns the first cached entry whose first bytes, as many as the name
  has, add up to the same number as the bytes of the name, and NULL when there is none. The entry
  returned need not have the name: any entry that continues the name matches, and so does one with
  the same letters in another order.
\<close>

theorem check_correct_file_first_sum:
  assumes "cached s es" and "length es < MAX_DENTRIES_IN_CACHE"
    and "cstr (kmem s) filename cs" and "length cs < 2 ^ 31" and "valid_range filename (Suc (length cs))"
    and "\<forall>e\<in>set es. valid_range (dentry_elem e) (Suc (length cs))"
  shows "check_correct_file filename s =
    Ok (case find (\<lambda>e. name_sum s (dentry_elem e) (length cs) = sum_list (map uint cs)) es of
          None \<Rightarrow> NULL | Some e \<Rightarrow> dentry_elem e, s)"
proof -
  define arr where "arr = dentry_cache_array s"
  define B :: "nat \<Rightarrow> ('a file_state_scheme, nat + ptr) kop" where
    "B = (\<lambda>i. if i < MAX_DENTRIES_IN_CACHE then
         bnd (get_dcache (dcache_slot arr i) id) (\<lambda>c.
         if inode_num c = 0 then ret (Inr NULL)
         else
           bnd (strlen_int filename) (\<lambda>len.
           bnd (my_memcmp (dentry_elem c) filename len) (\<lambda>r.
           ret (if r = 0 then Inr (dentry_elem c) else Inl (Suc i)))))
       else ret (Inr NULL))"
  let ?P = "\<lambda>e. name_sum s (dentry_elem e) (length cs) = sum_list (map uint cs)"
  have cs: "bytes_at (kmem s) filename (length cs) = cs" using assms(3) by (rule cstr_valid)
  have step: "B i s = Ok (if ?P (es ! i) then Inr (dentry_elem (es ! i)) else Inl (Suc i), s)" if "i < length es" for i
  proof -
    have e: "dcache_at s (dcache_slot arr i) = es ! i" "inode_num (es ! i) \<noteq> 0" "dcache_slot arr i \<noteq> NULL"
      "i < MAX_DENTRIES_IN_CACHE"
      using assms(1,2) that by (auto simp: cached_def arr_def)
    have "valid_range (dentry_elem (es ! i)) (Suc (length cs))" using assms(6) that by simp
    from my_memcmp_run [OF this assms(5), of s]
    have "my_memcmp (dentry_elem (es ! i)) filename (int (length cs)) s
        = Ok (name_sum s (dentry_elem (es ! i)) (length cs) - sum_list (map uint cs), s)"
      by (simp add: name_sum_def cs)
    with e strlen_int_run [OF assms(3,4)] show ?thesis by (simp add: B_def bnd_Ok)
  qed
  have stop: "B (length es) s = Ok (Inr NULL, s)"
    using assms(1,2) by (auto simp: B_def cached_def arr_def)
  have "loopM B 0 s = Ok (case find (\<lambda>i. ?P (es ! i)) [0..<length es] of None \<Rightarrow> NULL | Some i \<Rightarrow> dentry_elem (es ! i), s)"
    by (rule loopM_scan) (use step stop in simp_all)
  also have "\<dots> = Ok (case find ?P es of None \<Rightarrow> NULL | Some e \<Rightarrow> dentry_elem e, s)"
    unfolding find_by_index [of ?P es] by (simp split: option.split)
  finally show ?thesis unfolding B_def arr_def by (simp add: check_correct_file_def)
qed

text \<open>The inode list, in the same way, and the search for the inode of a directory entry.\<close>

definition inodes :: "'z file_state_scheme \<Rightarrow> inode list \<Rightarrow> bool" where
  "inodes s ns \<longleftrightarrow>
     (let lst = s_inodes (sb_at s (tarfs_sb s)) in
      tarfs_sb s \<noteq> NULL \<and>
      (\<forall>i\<le>length ns. inode_slot lst i \<noteq> NULL) \<and>
      (\<forall>i<length ns. inode_at s (inode_slot lst i) = ns ! i \<and> i_number (ns ! i) \<noteq> 0) \<and>
      i_number (inode_at s (inode_slot lst (length ns))) = 0)"

lemma get_inode_from_dentry_first_sum:
  assumes "inodes s ns"
    and "cstr (kmem s) de cs" and "length cs < 2 ^ 31" and "valid_range de (Suc (length cs))"
    and "\<forall>n\<in>set ns. valid_range (i_dentry n) (Suc (length cs))"
  shows "get_inode_from_dentry de s =
    Ok (case find (\<lambda>n. name_sum s (i_dentry n) (length cs) = sum_list (map uint cs)) ns of
          None \<Rightarrow> zero_inode | Some n \<Rightarrow> n, s)"
proof -
  define lst where "lst = s_inodes (sb_at s (tarfs_sb s))"
  define B :: "nat \<Rightarrow> ('a file_state_scheme, nat + inode) kop" where
    "B = (\<lambda>i. bnd (get_inode (inode_slot lst i) id) (\<lambda>ino.
       if i_number ino = 0 then ret (Inr zero_inode)
       else
         bnd (strlen_int de) (\<lambda>len.
         bnd (my_memcmp (i_dentry ino) de len) (\<lambda>r.
         ret (if r = 0 then Inr ino else Inl (Suc i))))))"
  let ?P = "\<lambda>n. name_sum s (i_dentry n) (length cs) = sum_list (map uint cs)"
  have cs: "bytes_at (kmem s) de (length cs) = cs" using assms(2) by (rule cstr_valid)
  have inv: "tarfs_sb s \<noteq> NULL" "\<forall>i\<le>length ns. inode_slot lst i \<noteq> NULL"
    "\<forall>i<length ns. inode_at s (inode_slot lst i) = ns ! i \<and> i_number (ns ! i) \<noteq> 0"
    "i_number (inode_at s (inode_slot lst (length ns))) = 0"
    using assms(1) by (auto simp: inodes_def lst_def Let_def)
  have step: "B i s = Ok (if ?P (ns ! i) then Inr (ns ! i) else Inl (Suc i), s)" if "i < length ns" for i
  proof -
    have "valid_range (i_dentry (ns ! i)) (Suc (length cs))" using assms(5) that by simp
    from my_memcmp_run [OF this assms(4), of s]
    have "my_memcmp (i_dentry (ns ! i)) de (int (length cs)) s
        = Ok (name_sum s (i_dentry (ns ! i)) (length cs) - sum_list (map uint cs), s)"
      by (simp add: name_sum_def cs)
    with inv that strlen_int_run [OF assms(2,3)] show ?thesis by (simp add: B_def bnd_Ok)
  qed
  have stop: "B (length ns) s = Ok (Inr zero_inode, s)" using inv by (simp add: B_def)
  have "loopM B 0 s = Ok (case find (\<lambda>i. ?P (ns ! i)) [0..<length ns] of None \<Rightarrow> zero_inode | Some i \<Rightarrow> ns ! i, s)"
    by (rule loopM_scan) (use step stop in simp_all)
  also have "\<dots> = Ok (case find ?P ns of None \<Rightarrow> zero_inode | Some n \<Rightarrow> n, s)"
    unfolding find_by_index [of ?P ns] by (simp split: option.split)
  finally show ?thesis using inv(1) unfolding B_def lst_def by (simp add: get_inode_from_dentry_def)
qed

text \<open>The index at which both insertions store: the first unused slot.\<close>

lemma first_unused_slot:
  assumes "cached s es"
  shows "loopM (\<lambda>i. bnd (get_dcache (dcache_slot (dentry_cache_array s) i) inode_num)
           (\<lambda>n. ret (if n \<noteq> 0 then Inl (Suc i) else Inr i))) 0 s = Ok (length es, s)"
proof -
  have "loopM (\<lambda>i. bnd (get_dcache (dcache_slot (dentry_cache_array s) i) inode_num)
           (\<lambda>n. ret (if n \<noteq> 0 then Inl (Suc i) else Inr i))) 0 s
      = Ok (case find (\<lambda>_. False) [0..<length es] of None \<Rightarrow> length es | Some i \<Rightarrow> i, s)"
    using assms by (intro loopM_scan) (simp_all add: cached_def)
  then show ?thesis by (simp add: find_None_iff [THEN iffD2])
qed

lemma dcache_slot_inject:
  assumes "i < 2 ^ 60" "j < 2 ^ 60"
  shows "dcache_slot arr i = dcache_slot arr j \<longleftrightarrow> i = j"
proof -
  have "unat (16 * of_nat k :: u64) = 16 * k" if "k < 2 ^ 60" for k :: nat
    using unat_of_nat_u64 [of "16 * k"] that by simp
  then show ?thesis using assms unfolding dcache_slot_def sizeof_dentry_cache_def
    by (metis add_left_imp_eq mult_left_cancel zero_neq_numeral)
qed

text \<open>
  Inserting a directory entry refines appending to the list of cached entries: the cache then
  holds the entries it held, in the same order, followed by the new one. Each entry occupies sixteen
  bytes.
\<close>

theorem insert_dentry_refines_append:
  assumes "cached s es" "num \<noteq> 0" "length es < 2 ^ 59"
    and "dcache_slot (dentry_cache_array s) (Suc (length es)) \<noteq> NULL"
    and "inode_num (dcache_at s (dcache_slot (dentry_cache_array s) (Suc (length es)))) = 0"
  shows "\<exists>t. insert_dentry_into_dentry_cache num d s = Ok ((), t) \<and>
    cached t (es @ [\<lparr>inode_num = num, dentry_elem = d\<rparr>])"
proof -
  define arr where "arr = dentry_cache_array s"
  define e where "e = \<lparr>inode_num = num, dentry_elem = d\<rparr>"
  define t where "t = s\<lparr>dcache_at := (dcache_at s)(dcache_slot arr (length es) := e)\<rparr>"
  have c: "\<forall>i\<le>length es. dcache_slot arr i \<noteq> NULL"
    "\<forall>i<length es. dcache_at s (dcache_slot arr i) = es ! i \<and> inode_num (es ! i) \<noteq> 0"
    using assms(1) by (auto simp: cached_def arr_def)
  have e: "(dcache_at s (dcache_slot arr (length es)))\<lparr>inode_num := num, dentry_elem := d\<rparr> = e"
    by (cases "dcache_at s (dcache_slot arr (length es))") (simp add: e_def)
  have run: "insert_dentry_into_dentry_cache num d s = Ok ((), t)"
    using c(1) e by (simp add: insert_dentry_into_dentry_cache_def bnd_Ok first_unused_slot [OF assms(1), folded arr_def]
        t_def flip: arr_def)
  have slot: "dcache_slot arr i = dcache_slot arr (length es) \<longleftrightarrow> i = length es" if "i \<le> Suc (length es)" for i
    using that assms(3) by (intro dcache_slot_inject) simp_all
  have "cached t (es @ [e])"
    unfolding cached_def
    using c assms(2,4,5) slot by (auto simp: t_def arr_def [symmetric] nth_append e_def less_Suc_eq le_Suc_eq)
  with run show ?thesis by (simp add: e_def)
qed

text \<open>
  A machine with two names in the cache, \<^verbatim>\<open>/\<close> and \<^verbatim>\<open>bin/ls\<close>, an inode list for them, a file of five
  bytes behind the second, and a process that has that file open at descriptor 0.
\<close>

fun texts_at :: "(ptr \<times> bytes) list \<Rightarrow> ptr \<Rightarrow> u8" where
  "texts_at [] a = 0"
| "texts_at ((p, bs) # r) a = (if unat (a - p) < length bs then bs ! unat (a - p) else texts_at r a)"

definition tar_machine :: "bytes \<Rightarrow> file_state" where
  "tar_machine name = (terminal_machine [])
     \<lparr>kmem := texts_at [(0x5000, name), (0x6000, bytes_of ''/''), (0x6100, bytes_of ''bin/ls''), (0x7000, bytes_of ''hello'')],
      dentry_cache_array := 0x20000, tarfs_sb := 0x40000, current := 0x1000,
      pcb_at := (\<lambda>_. zero_pcb\<lparr>pcb_fd := (0x8000 OR KERNBASE) # replicate 255 NULL\<rparr>),
      file_at := (\<lambda>_. zero_file\<lparr>f_refcount := 1, f_dentry := 0x6100, f_op := 0x8100\<rparr>),
      fop_at := (\<lambda>_. \<lparr>op_read = tarfs_read_fn, op_write = NoWrite, op_close = tarfs_close_fn\<rparr>),
      dcache_at := (\<lambda>a. if a = 0x20000 then \<lparr>inode_num = 2, dentry_elem = 0x6000\<rparr>
                        else if a = 0x20010 then \<lparr>inode_num = 3, dentry_elem = 0x6100\<rparr>
                        else \<lparr>inode_num = 0, dentry_elem = NULL\<rparr>),
      sb_at := (\<lambda>_. \<lparr>s_op = NULL, s_root = 0x6000, s_inodes = 0x30000, s_magic = 100\<rparr>),
      inode_at := (\<lambda>a. if a = 0x30000 then zero_inode\<lparr>i_number := 2, i_dentry := 0x6000\<rparr>
                        else if a = 0x30030 then zero_inode\<lparr>i_number := 3, i_size := 5, i_data := 0x7000, i_dentry := 0x6100\<rparr>
                        else zero_inode)\<rparr>"

lemma tar_machine_cached:
  "cached (tar_machine name) [\<lparr>inode_num = 2, dentry_elem = 0x6000\<rparr>, \<lparr>inode_num = 3, dentry_elem = 0x6100\<rparr>]"
  by (simp add: cached_def tar_machine_def dcache_slot_def sizeof_dentry_cache_def less_Suc_eq le_Suc_eq all_conj_distrib
      conj_disj_distribR imp_conjL)

theorem check_correct_file_first_sum_witness:
  "check_correct_file 0x5000 (tar_machine (bytes_of ''bin/sl'')) = Ok (0x6100, tar_machine (bytes_of ''bin/sl''))"
proof -
  let ?s = "tar_machine (bytes_of ''bin/sl'')"
    and ?es = "[\<lparr>inode_num = 2, dentry_elem = 0x6000\<rparr>, \<lparr>inode_num = 3, dentry_elem = 0x6100\<rparr>]"
    and ?cs = "bytes_of ''bin/sl''"
  have f: "find (\<lambda>e. name_sum ?s (dentry_elem e) (length ?cs) = sum_list (map uint ?cs)) ?es
      = Some \<lparr>inode_num = 3, dentry_elem = 0x6100\<rparr>"
    by (simp add: name_sum_def bytes_at_def upt_rec tar_machine_def bytes_of_def)
  have "check_correct_file 0x5000 ?s =
      Ok (case find (\<lambda>e. name_sum ?s (dentry_elem e) (length ?cs) = sum_list (map uint ?cs)) ?es of
            None \<Rightarrow> NULL | Some e \<Rightarrow> dentry_elem e, ?s)"
    by (rule check_correct_file_first_sum [OF tar_machine_cached])
      (simp_all add: MAX_DENTRIES_IN_CACHE_def valid_range_def bytes_of_def tar_machine_def)
  then show ?thesis unfolding f by simp
qed

theorem insert_dentry_refines_append_witness:
  "\<exists>t. insert_dentry_into_dentry_cache 4 0x6200 (tar_machine []) = Ok ((), t) \<and>
     cached t [\<lparr>inode_num = 2, dentry_elem = 0x6000\<rparr>, \<lparr>inode_num = 3, dentry_elem = 0x6100\<rparr>,
               \<lparr>inode_num = 4, dentry_elem = 0x6200\<rparr>]"
  using insert_dentry_refines_append [OF tar_machine_cached, of 4 "[]" "0x6200"]
  by (simp add: tar_machine_def dcache_slot_def sizeof_dentry_cache_def)

end
