(* ===== verification/Fs.thy ===== *)
theory Fs
  imports Tarfs
begin

text \<open>
  The system calls on files, \<^verbatim>\<open>sys/fs.c\<close>, and the layer that calls a file's own functions, \<^verbatim>\<open>sys/vfs.c\<close>.
  The function pointers of a file are values of the types \<open>read_fn\<close>, \<open>write_fn\<close> and \<open>close_fn\<close>, and
  calling one is a case distinction over the functions the kernel stores there.
\<close>

section \<open>Opening and closing files of the archive\<close>

definition tarfs_ops :: file_operations where
  "tarfs_ops = \<lparr>op_read = tarfs_read_fn, op_write = NoWrite, op_close = tarfs_close_fn\<rparr>"

text \<open>The first lines of \<open>tarfs_open\<close>: the path is rewritten in place.\<close>

definition rewrite_pathname :: "ptr \<Rightarrow> ('z file_state_scheme, unit) kop" where
  "rewrite_pathname pathname =
     bnd (memcmp_literal pathname (bytes_of ''.'') 0) (\<lambda>r.
     if r = 0 then my_memcpy_literal pathname (bytes_of ''/bin/'')
     else
       bnd kalloc (\<lambda>tempname.
       bnd (my_memset tempname 0 PAGE_BLOCK_SIZE) (\<lambda>_.
       bnd (load tempname) (\<lambda>c.
       bnd (if c \<noteq> 47 then my_memcpy_literal tempname (bytes_of ''/'') else ret ()) (\<lambda>_.
       bnd (strlen_int pathname) (\<lambda>n.
       bnd (my_memcpy (tempname + 1) pathname n) (\<lambda>_.
       bnd (strlen_int tempname) (\<lambda>m.
       my_memcpy pathname tempname m))))))))"

definition tarfs_open :: "ptr \<Rightarrow> u32 \<Rightarrow> u16 \<Rightarrow> ('z file_state_scheme, u32) kop" where
  "tarfs_open pathname flags mode =
     bnd get_current_process (\<lambda>proc.
     bnd (rewrite_pathname pathname) (\<lambda>_.
     bnd (available_fd proc) (\<lambda>fd.
     if sint fd < 0 then bnd (modify (phys_mem_free pathname)) (\<lambda>_. ret (- 1))
     else
       bnd (do_find_dentry pathname flags) (\<lambda>d.
       if d = NULL then bnd (modify (phys_mem_free pathname)) (\<lambda>_. ret (- 1))
       else
         bnd (new_file flags mode d) (\<lambda>fp.
         bnd (set_file_operations fp tarfs_ops) (\<lambda>_.
         bnd (set_fd proc fd fp) (\<lambda>_.
         ret fd)))))))"

definition sys_open :: "ptr \<Rightarrow> u32 \<Rightarrow> u16 \<Rightarrow> ('z file_state_scheme, u32) kop" where
  "sys_open pathname flags mode =
     (if pathname \<noteq> NULL then
        bnd kalloc (\<lambda>k_pathname.
        bnd (strlen_int pathname) (\<lambda>n.
        bnd (my_memcpy k_pathname pathname n) (\<lambda>_.
        tarfs_open k_pathname flags mode)))
      else terminal_open flags mode)"

definition do_open_exec :: "ptr \<Rightarrow> u32 \<Rightarrow> u32 \<Rightarrow> ('z file_state_scheme, ptr) kop" where
  "do_open_exec filename flags mode =
     bnd kalloc (\<lambda>k_pathname.
     bnd (strlen_int filename) (\<lambda>n.
     bnd (my_memcpy k_pathname filename n) (\<lambda>_.
     bnd (do_find_dentry k_pathname flags) (\<lambda>d.
     if d = NULL then bnd (modify (phys_mem_free k_pathname)) (\<lambda>_. ret NULL)
     else
       bnd get_current_process (\<lambda>proc.
       bnd (available_fd proc) (\<lambda>fd.
       if sint fd < 0 then bnd (modify (phys_mem_free k_pathname)) (\<lambda>_. ret NULL)
       else
         bnd (new_file flags (ucast mode) d) (\<lambda>fp.
         bnd (set_file_operations fp tarfs_ops) (\<lambda>_.
         bnd (set_fd proc fd fp) (\<lambda>_.
         ret fp)))))))))"

text \<open>The reference count is unsigned, so only zero is not positive.\<close>

definition tarfs_close :: "ptr \<Rightarrow> ('z file_state_scheme, u32) kop" where
  "tarfs_close fp =
     (if fp = NULL then ret (- 1)
      else
        bnd (upd_file fp (\<lambda>f. f\<lparr>f_refcount := f_refcount f - 1\<rparr>)) (\<lambda>_.
        bnd (get_file fp f_refcount) (\<lambda>n.
        bnd (if n \<le> 0 then modify (phys_mem_free fp) else ret ()) (\<lambda>_.
        ret 0))))"

section \<open>Dispatch\<close>

definition vfs_read :: "ptr \<Rightarrow> ptr \<Rightarrow> u64 \<Rightarrow> u64 \<Rightarrow> ('z file_state_scheme, u64) kop" where
  "vfs_read fp buf count offset =
     bnd (get_file fp f_op) (\<lambda>ops.
     bnd (get_fop ops op_read) (\<lambda>r.
     case r of
       NoRead \<Rightarrow> ret 0
     | tarfs_read_fn \<Rightarrow> tarfs_read fp buf count offset
     | terminal_read_fn \<Rightarrow> terminal_read fp buf count offset))"

definition vfs_write :: "ptr \<Rightarrow> ptr \<Rightarrow> u64 \<Rightarrow> u64 \<Rightarrow> ('z file_state_scheme, u64) kop" where
  "vfs_write fp buf count offset =
     bnd (get_file fp f_op) (\<lambda>ops.
     bnd (get_fop ops op_write) (\<lambda>w.
     case w of
       NoWrite \<Rightarrow> ret 0
     | terminal_write_fn \<Rightarrow> terminal_write fp buf count offset))"

definition vfs_open :: "ptr \<Rightarrow> u64 \<Rightarrow> ('z file_state_scheme, u32) kop" where
  "vfs_open ino flags = ret (- 1)"

definition vfs_close :: "ptr \<Rightarrow> ('z file_state_scheme, u32) kop" where
  "vfs_close fp =
     bnd (get_file fp f_op) (\<lambda>ops.
     bnd (get_fop ops op_close) (\<lambda>c.
     case c of
       NoClose \<Rightarrow> ret (- 1)
     | tarfs_close_fn \<Rightarrow> tarfs_close fp
     | terminal_close_fn \<Rightarrow> terminal_close fp))"

section \<open>The system calls\<close>

definition sys_read :: "u32 \<Rightarrow> ptr \<Rightarrow> u64 \<Rightarrow> ('z file_state_scheme, u64) kop" where
  "sys_read fd buf count =
     bnd get_current_process (\<lambda>proc.
     bnd (get_fd proc fd) (\<lambda>fp.
     if fp = NULL then ret (- 1)
     else bnd (get_file fp f_offset) (vfs_read fp buf count)))"

definition sys_write :: "u32 \<Rightarrow> ptr \<Rightarrow> u64 \<Rightarrow> ('z file_state_scheme, u64) kop" where
  "sys_write fd buf count =
     bnd get_current_process (\<lambda>proc.
     bnd (get_fd proc fd) (\<lambda>fp.
     if fp = NULL then ret (- 1)
     else bnd (get_file fp f_offset) (vfs_write fp buf count)))"

definition sys_close :: "u32 \<Rightarrow> ('z file_state_scheme, u32) kop" where
  "sys_close fd =
     bnd get_current_process (\<lambda>proc.
     bnd (get_fd proc fd) (\<lambda>fp.
     if fp = NULL then ret (- 1) else vfs_close fp))"

section \<open>Open files\<close>

text \<open>\<open>opened s fd fp\<close>: descriptor \<open>fd\<close> of the running process is the file structure at \<open>fp\<close>.\<close>

definition opened :: "'z file_state_scheme \<Rightarrow> u32 \<Rightarrow> ptr \<Rightarrow> bool" where
  "opened s fd fp \<longleftrightarrow> current s \<noteq> NULL \<and> 0 \<le> sint fd \<and>
     nat (sint fd) < length (pcb_fd (pcb_at s (current s))) \<and>
     pcb_fd (pcb_at s (current s)) ! nat (sint fd) = fp \<and> fp \<noteq> NULL \<and> f_op (file_at s fp) \<noteq> NULL"

lemma get_fd_opened: "opened s fd fp \<Longrightarrow> get_fd (current s) fd s = Ok (fp, s)"
  by (simp add: opened_def get_fd_def)

lemma sys_read_opened:
  "opened s fd fp \<Longrightarrow> op_read (fop_at s (f_op (file_at s fp))) = tarfs_read_fn \<Longrightarrow>
     sys_read fd buf count s = tarfs_read fp buf count (f_offset (file_at s fp)) s"
  using get_fd_opened [of s fd fp] by (simp add: sys_read_def bnd_Ok vfs_read_def) (simp add: opened_def)

lemma sys_close_opened:
  "opened s fd fp \<Longrightarrow> op_close (fop_at s (f_op (file_at s fp))) = tarfs_close_fn \<Longrightarrow> sys_close fd s = tarfs_close fp s"
  using get_fd_opened [of s fd fp] by (simp add: sys_close_def bnd_Ok vfs_close_def) (simp add: opened_def)

lemma copy_size_nat:
  assumes "j \<le> n" "n < 2 ^ 31"
  shows "(if (of_nat n :: u64) \<le> of_nat j + count then of_nat n - of_nat j else count)
       = of_nat (if n \<le> unat (of_nat j + count) then n - j else unat count)"
  using assms by (simp add: word_le_nat_alt unat_of_nat_u64 of_nat_diff)

lemma tarfs_read_run:
  assumes "fp \<noteq> NULL" and "get_inode_from_dentry (f_dentry (file_at s fp)) s = Ok (ino, s)"
    and "i_size ino = of_nat n" and "n < 2 ^ 31" and "j \<le> n" and "unat count < 2 ^ 63"
    and "k = min (unat count) (n - j)"
    and "valid_range buf k" and "valid_range (i_data ino + of_nat j) k"
    and "\<forall>i<k. k \<le> unat (i_data ino + of_nat j + of_nat i - buf)"
  shows "tarfs_read fp buf count (of_nat j) s =
    Ok (of_nat k, s\<lparr>kmem := fill (kmem s) buf k (\<lambda>i. kmem s (i_data ino + of_nat j + of_nat i)),
      file_at := (file_at s)(fp := (file_at s fp)\<lparr>f_offset := f_offset (file_at s fp) + of_nat k\<rparr>)\<rparr>)"
proof -
  have j: "unat (of_nat j + count) = j + unat count"
    using assms(4,5,6) unat_add_of_nat [of count j] by (simp add: add.commute)
  have k: "k < 2 ^ 31" using assms(4,7) by simp
  have size: "scast (i_size ino) = (of_nat n :: u64)" using assms(3,4) by (simp add: scast_of_nat_small)
  have "(if n \<le> unat (of_nat j + count) then n - j else unat count) = k"
    using assms(7) unfolding j by auto
  then have c: "(if (of_nat n :: u64) \<le> of_nat j + count then of_nat n - of_nat j else count) = of_nat k"
    using copy_size_nat [OF assms(5,4), of count] by simp
  have "sint (ucast (of_nat k :: u64) :: u32) = int k"
    using k sint_of_nat_small [of k] by (simp add: unsigned_of_nat take_bit_nat_eq_self)
  moreover have "tarfs_read fp buf count (of_nat j) s = (\<lambda>c. bnd (my_memcpy buf (i_data ino + of_nat j) (sint (ucast c :: u32)))
      (\<lambda>_. bnd (upd_file fp (\<lambda>f. f\<lparr>f_offset := f_offset f + c\<rparr>)) (\<lambda>_. ret c)) s)
      (if of_nat n \<le> of_nat j + count then of_nat n - of_nat j else count)"
    using assms(1,2) by (simp add: tarfs_read_def bnd_Ok size Let_def)
  ultimately show ?thesis
    using my_memcpy_run [OF assms(8,9,10), of s] assms(1) unfolding c by (simp add: bnd_Ok)
qed

text \<open>
  C8: Reading from an open file of the archive delivers the bytes of the file from the file's offset
  on, as many as were asked for and are left, returns their number, and advances the offset by it:
  the next read continues where this one stopped, and a read at the end returns 0. The inode is the
  first whose name has the byte sum of the name the file was opened by.
\<close>

theorem sys_read_delivers_file:
  assumes "opened s fd fp" and "op_read (fop_at s (f_op (file_at s fp))) = tarfs_read_fn"
    and "inodes s ns" and "cstr (kmem s) (f_dentry (file_at s fp)) cs" and "length cs < 2 ^ 31"
    and "valid_range (f_dentry (file_at s fp)) (Suc (length cs))"
    and "\<forall>n\<in>set ns. valid_range (i_dentry n) (Suc (length cs))"
    and "find (\<lambda>n. name_sum s (i_dentry n) (length cs) = sum_list (map uint cs)) ns = Some ino"
    and "i_size ino = of_nat n" and "n < 2 ^ 31" and "f_offset (file_at s fp) = of_nat j" and "j \<le> n"
    and "unat count < 2 ^ 63" and "k = min (unat count) (n - j)"
    and "valid_range buf k" and "valid_range (i_data ino + of_nat j) k"
    and "\<forall>i<k. k \<le> unat (i_data ino + of_nat j + of_nat i - buf)"
  shows "\<exists>t. sys_read fd buf count s = Ok (of_nat k, t) \<and>
    bytes_at (kmem t) buf k = bytes_at (kmem s) (i_data ino + of_nat j) k \<and>
    f_offset (file_at t fp) = of_nat (j + k) \<and> opened t fd fp"
proof -
  have ino: "get_inode_from_dentry (f_dentry (file_at s fp)) s = Ok (ino, s)"
    using get_inode_from_dentry_first_sum [OF assms(3-7)] assms(8) by simp
  have fp: "fp \<noteq> NULL" using assms(1) by (simp add: opened_def)
  have k: "k \<le> 2 ^ 64" using assms(10,14) by simp
  show ?thesis
    using tarfs_read_run [OF fp ino assms(9,10,12,13,14-17)] sys_read_opened [OF assms(1,2), of buf count] assms(1,11) k
    by (auto simp: bytes_at_def fill_at opened_def)
qed

theorem sys_read_delivers_file_witness:
  "\<exists>t. sys_read 0 0x9000 100 (tar_machine []) = Ok (5, t) \<and> bytes_at (kmem t) 0x9000 5 = bytes_of ''hello'' \<and>
     f_offset (file_at t (0x8000 OR KERNBASE)) = 5"
proof -
  let ?s = "tar_machine []" and ?r = "zero_inode\<lparr>i_number := 2, i_dentry := 0x6000\<rparr>"
    and ?n = "zero_inode\<lparr>i_number := 3, i_size := 5, i_data := 0x7000, i_dentry := 0x6100\<rparr>"
  have ns: "inodes ?s [?r, ?n]"
    by (simp add: inodes_def tar_machine_def inode_slot_def sizeof_inode_def zero_inode_def less_Suc_eq le_Suc_eq all_conj_distrib
        conj_disj_distribR imp_conjL)
  have f: "find (\<lambda>n. name_sum ?s (i_dentry n) (length (bytes_of ''bin/ls'')) = sum_list (map uint (bytes_of ''bin/ls''))) [?r, ?n] = Some ?n"
    by (simp add: name_sum_def bytes_at_def upt_rec tar_machine_def bytes_of_def)
  have d: "f_dentry (file_at ?s (0x8000 OR KERNBASE)) = 0x6100" by (simp add: tar_machine_def)
  have b: "\<forall>i<5. 5 \<le> unat (i_data ?n + of_nat 0 + of_nat i - 0x9000)"
    by (simp add: all_less_numeral)
  have m: "opened ?s 0 (0x8000 OR KERNBASE)" "op_read (fop_at ?s (f_op (file_at ?s (0x8000 OR KERNBASE)))) = tarfs_read_fn"
    "cstr (kmem ?s) (f_dentry (file_at ?s (0x8000 OR KERNBASE))) (bytes_of ''bin/ls'')"
    "f_offset (file_at ?s (0x8000 OR KERNBASE)) = of_nat 0"
    by (simp_all add: tar_machine_def opened_def zero_file_def bytes_of_def)
  have "\<exists>t. sys_read 0 0x9000 100 ?s = Ok (of_nat 5, t) \<and>
      bytes_at (kmem t) 0x9000 5 = bytes_at (kmem ?s) (i_data ?n + of_nat 0) 5 \<and>
      f_offset (file_at t (0x8000 OR KERNBASE)) = of_nat (0 + 5) \<and> opened t 0 (0x8000 OR KERNBASE)"
    by (rule sys_read_delivers_file [OF m(1,2) ns m(3) _ _ _ f _ _ m(4) _ _ _ _ _ b, where n = 5])
      (simp_all add: d valid_range_def bytes_of_def)
  moreover have "bytes_at (kmem ?s) (i_data ?n + of_nat 0) 5 = bytes_of ''hello''"
    by (simp add: bytes_at_def upt_rec tar_machine_def bytes_of_def)
  ultimately show ?thesis by auto
qed

text \<open>
  Closing a file changes nothing but the reference count: the descriptor stays in the table of the
  process, so that it can still be read from and is never handed out again, and the page of the
  file structure stays in use, because it is freed by its kernel address.
\<close>

theorem sys_close_releases_nothing:
  assumes "opened s fd fp" and "op_close (fop_at s (f_op (file_at s fp))) = tarfs_close_fn"
    and "pages_wf s" and "fp = a OR KERNBASE"
  shows "\<exists>t. sys_close fd s = Ok (0, t) \<and> opened t fd fp \<and> pcb_at t = pcb_at s \<and> page_array t = page_array s \<and>
    f_refcount (file_at t fp) = f_refcount (file_at s fp) - 1"
proof -
  let ?t = "s\<lparr>file_at := (file_at s)(fp := (file_at s fp)\<lparr>f_refcount := f_refcount (file_at s fp) - 1\<rparr>)\<rparr>"
  have "pages_wf ?t" using assms(3) by (simp add: pages_wf_def)
  from phys_mem_free_tagged [OF this, of a] have p: "page_array (phys_mem_free fp ?t) = page_array s"
    by (simp add: assms(4))
  have fp: "fp \<noteq> NULL" using assms(1) by (simp add: opened_def)
  show ?thesis
    using sys_close_opened [OF assms(1,2)] fp p assms(1) by (auto simp: tarfs_close_def opened_def)
qed

theorem sys_close_releases_nothing_witness:
  "\<exists>t. sys_close 0 (tar_machine []) = Ok (0, t) \<and> opened t 0 (0x8000 OR KERNBASE) \<and>
     page_array t = page_array (tar_machine []) \<and> f_refcount (file_at t (0x8000 OR KERNBASE)) = 0"
proof -
  have "opened (tar_machine []) 0 (0x8000 OR KERNBASE)"
    "op_close (fop_at (tar_machine []) (f_op (file_at (tar_machine []) (0x8000 OR KERNBASE)))) = tarfs_close_fn"
    "f_refcount (file_at (tar_machine []) (0x8000 OR KERNBASE)) = 1"
    by (simp_all add: tar_machine_def opened_def zero_file_def)
  moreover have "pages_wf (tar_machine [])"
    using small_machine_ascending by (simp add: tar_machine_def terminal_machine_def idle_machine_def ascending_def pages_wf_def proc_state.defs virt_state.defs)
  ultimately show ?thesis
    using sys_close_releases_nothing [of "tar_machine []" 0 "0x8000 OR KERNBASE" "0x8000"] by auto
qed

end
