(* ===== verification/Memory.thy ===== *)
theory Memory
  imports Fs
begin

text \<open>
  The memory areas of a process, \<^verbatim>\<open>sys/memory.c\<close>: the doubly linked list of areas of an address space,
  searching it, inserting and removing areas, mapping and unmapping, and the areas for the heap and
  the stack. An address space is a structure \<open>mm\<close> whose field \<open>mm_vma\<close> is the first area.
\<close>

section \<open>Constants\<close>

definition PROT_READ :: u64 where
  "PROT_READ = 0x1"

definition PROT_WRITE :: u64 where
  "PROT_WRITE = 0x2"

definition PROT_EXEC :: u64 where
  "PROT_EXEC = 0x4"

definition VERIFY_WRITE :: u32 where
  "VERIFY_WRITE = 0x01"

definition MAP_PRIVATE :: u32 where
  "MAP_PRIVATE = 0x02"

definition MAP_ANONYMOUS :: u32 where
  "MAP_ANONYMOUS = 0x20"

definition MAP_SHARED :: u32 where
  "MAP_SHARED = 0x01"

text \<open>The global variable \<^verbatim>\<open>vma\<close>, which no statement of the kernel assigns.\<close>

definition vma_global :: ptr where
  "vma_global = NULL"

section \<open>Words in memory\<close>

text \<open>A 64-bit word as eight bytes, the lowest first.\<close>

primrec le_word :: "bytes \<Rightarrow> u64" where
  "le_word [] = 0"
| "le_word (b # bs) = ucast b OR push_bit 8 (le_word bs)"

definition load64 :: "ptr \<Rightarrow> ('z util_state_scheme, u64) kop" where
  "load64 p = deref p (gets (\<lambda>s. le_word (bytes_at (kmem s) p 8)))"

definition store64 :: "ptr \<Rightarrow> u64 \<Rightarrow> ('z util_state_scheme, unit) kop" where
  "store64 p w = for_each [0..<8] (\<lambda>i. store (p + of_nat i) (ucast (drop_bit (8 * i) w)))"

section \<open>Searching the list of areas\<close>

definition find_vma_region :: "ptr \<Rightarrow> u64 \<Rightarrow> u64 \<Rightarrow> ('z proc_state_scheme, ptr) kop" where
  "find_vma_region mm addr len =
     bnd (get_mm mm mm_vma) (loopM (\<lambda>v.
       if v = NULL then ret (Inr NULL)
       else
         bnd (get_vma v id) (\<lambda>a.
         ret (if start_addr a \<le> addr \<and> addr + len \<le> page_round_down (end_addr a) then Inr v else Inl (vma_next a)))))"

text \<open>Both ends of the range belong to the area; for the stack the start is the higher one.\<close>

definition area_end :: "vm_map_entry \<Rightarrow> u64" where
  "area_end a =
     (if vma_file a \<noteq> NULL then
        (if filesize a < memsize a then start_addr a + memsize a else end_addr a)
      else end_addr a)"

definition in_area :: "u64 \<Rightarrow> vm_map_entry \<Rightarrow> bool" where
  "in_area addr a =
     (if area_end a < start_addr a then area_end a \<le> addr \<and> addr \<le> start_addr a
      else start_addr a \<le> addr \<and> addr \<le> area_end a)"

definition find_vma :: "ptr \<Rightarrow> u64 \<Rightarrow> ('z proc_state_scheme, ptr) kop" where
  "find_vma mm addr =
     bnd (get_mm mm mm_vma) (loopM (\<lambda>v.
       if v = NULL then ret (Inr NULL)
       else
         bnd (get_vma v id) (\<lambda>a.
         ret (if in_area addr a then Inr v else Inl (vma_next a)))))"

text \<open>The differences are kept in variables of type \<^verbatim>\<open>int\<close>.\<close>

definition find_closest_vma :: "ptr \<Rightarrow> u64 \<Rightarrow> ('z proc_state_scheme, ptr) kop" where
  "find_closest_vma mm address =
     bnd (get_mm mm mm_vma) (loopM (\<lambda>v.
       if v = NULL then ret (Inr NULL)
       else
         bnd (get_vma v id) (\<lambda>a.
         if address < start_addr a then
           if vma_prev a \<noteq> NULL then
             bnd (get_vma (vma_prev a) end_addr) (\<lambda>pe.
             ret (Inr (if sint (ucast (start_addr a - address) :: u32) \<le> sint (ucast (address - pe) :: u32)
                       then v else vma_prev a)))
           else ret (Inr v)
         else ret (Inl (vma_next a)))))"

section \<open>Inserting an area\<close>

definition overlapping :: "vm_map_entry \<Rightarrow> vm_map_entry \<Rightarrow> bool" where
  "overlapping c v =
     (if start_addr c = start_addr v \<and> end_addr c = start_addr v then True
      else if start_addr c < start_addr v \<and> end_addr v < end_addr c then True
      else if start_addr v < end_addr c \<and> end_addr c \<le> end_addr v then True
      else if start_addr v \<le> start_addr c \<and> start_addr c < end_addr v then True
      else False)"

definition is_overlapping_vma :: "ptr \<Rightarrow> ptr \<Rightarrow> ('z proc_state_scheme, bool) kop" where
  "is_overlapping_vma c v = bnd (get_vma c id) (\<lambda>a. bnd (get_vma v id) (\<lambda>b. ret (overlapping a b)))"

text \<open>
  The result is the return value and what the function stored through its last argument: nothing
  (\<open>None\<close>) when the loop runs off the end of the list. \<open>prev_step\<close> is one round of the loop.
\<close>

definition prev_step :: "ptr \<Rightarrow> vm_map_entry \<Rightarrow> ptr \<Rightarrow> ('z proc_state_scheme, ptr + u32 \<times> ptr option) kop" where
  "prev_step v n c =
     (if c = NULL then ret (Inr (1, None))
      else
        bnd (is_overlapping_vma c v) (\<lambda>b.
        if b then
          bnd (modify (kmsg ''mmap overlaps\<newline>'')) (\<lambda>_. ret (Inr (0, Some NULL)))
        else
          bnd (get_vma c id) (\<lambda>a.
          if vma_next a \<noteq> NULL then
            bnd (get_vma (vma_next a) start_addr) (\<lambda>sn.
            ret (if end_addr a \<le> start_addr n \<and> end_addr n \<le> sn then Inr (1, Some c) else Inl (vma_next a)))
          else
            ret (if end_addr a \<le> start_addr n then Inr (1, Some c) else Inl (vma_next a)))))"

definition find_vma_prev :: "ptr \<Rightarrow> ptr \<Rightarrow> ('z proc_state_scheme, u32 \<times> ptr option) kop" where
  "find_vma_prev vmas v =
     (if vmas = NULL then ret (1, Some NULL)
      else
        bnd (get_vma v id) (\<lambda>n.
        bnd (get_vma vmas start_addr) (\<lambda>s0.
        if end_addr n \<le> s0 then ret (1, Some NULL)
        else loopM (prev_step v n) vmas)))"

definition insert_vma :: "ptr \<Rightarrow> ptr \<Rightarrow> ptr \<Rightarrow> ('z proc_state_scheme, unit) kop" where
  "insert_vma mm v prev =
     bnd (if prev \<noteq> NULL then
            bnd (get_vma prev vma_next) (\<lambda>nx.
            bnd (upd_vma prev (vma_next_update (\<lambda>_. v))) (\<lambda>_. ret nx))
          else
            bnd (get_mm mm mm_vma) (\<lambda>nx.
            bnd (upd_mm mm (mm_vma_update (\<lambda>_. v))) (\<lambda>_. ret nx))) (\<lambda>nx.
     bnd (upd_vma v (vma_prev_update (\<lambda>_. prev))) (\<lambda>_.
     bnd (upd_vma v (vma_next_update (\<lambda>_. nx))) (\<lambda>_.
     if nx \<noteq> NULL then upd_vma nx (vma_prev_update (\<lambda>_. v)) else ret ())))"

definition add_vma :: "ptr \<Rightarrow> ptr \<Rightarrow> ('z proc_state_scheme, u32) kop" where
  "add_vma mm v =
     bnd (get_mm mm mm_vma) (\<lambda>vmas.
     bnd (find_vma_prev vmas v) (\<lambda>(err, prev).
     if err = 0 then ret (- 1)
     else
       (case prev of
          None \<Rightarrow> fail Uninitialised
        | Some p \<Rightarrow> bnd (insert_vma mm v p) (\<lambda>_. ret 0))))"

section \<open>Removing areas\<close>

definition deallocate_vma :: "ptr \<Rightarrow> ('z file_state_scheme, unit) kop" where
  "deallocate_vma v =
     bnd (get_vma v vma_file) (\<lambda>f.
     bnd (if f \<noteq> NULL then bnd (vfs_close f) (\<lambda>err. ret (sint err < 0)) else ret False) (\<lambda>failed.
     if failed then ret () else modify (phys_mem_free v)))"

definition free_vmas :: "ptr \<Rightarrow> ptr \<Rightarrow> ('z file_state_scheme, unit) kop" where
  "free_vmas mm vmas =
     loopM (\<lambda>v. if v = NULL then ret (Inr ())
       else bnd (deallocate_vma v) (\<lambda>_. bnd (get_vma v vma_next) (\<lambda>nx. ret (Inl nx)))) vmas"

text \<open>One round of the search in \<open>remove_vma\<close>.\<close>

definition remove_step :: "ptr \<Rightarrow> ptr \<Rightarrow> ('z proc_state_scheme, ptr + unit) kop" where
  "remove_step v c =
     bnd (get_vma c id) (\<lambda>a.
     if vma_next a \<noteq> NULL then
       if c = v then
         bnd (upd_vma (vma_prev a) (vma_next_update (\<lambda>_. vma_next a))) (\<lambda>_.
         bnd (get_vma c id) (\<lambda>a.
         bnd (upd_vma (vma_next a) (vma_prev_update (\<lambda>_. vma_prev a))) (\<lambda>_. ret (Inr ()))))
       else ret (Inl (vma_next a))
     else if c = v then
       bnd (upd_vma (vma_prev a) (vma_next_update (\<lambda>_. NULL))) (\<lambda>_.
       bnd (upd_vma c (vma_prev_update (\<lambda>_. NULL))) (\<lambda>_. ret (Inr ())))
     else ret (Inr ()))"

definition remove_vma :: "ptr \<Rightarrow> ptr \<Rightarrow> ('z proc_state_scheme, unit) kop" where
  "remove_vma mm v =
     bnd (get_mm mm mm_vma) (\<lambda>h.
     if h = v then
       bnd (get_vma h vma_next) (\<lambda>h1.
       bnd (upd_mm mm (mm_vma_update (\<lambda>_. h1))) (\<lambda>_.
       bnd (get_vma h1 vma_next) (\<lambda>h2.
       upd_vma h2 (vma_prev_update (\<lambda>_. NULL)))))
     else loopM (remove_step v) h)"

definition do_munmap :: "ptr \<Rightarrow> u64 \<Rightarrow> u64 \<Rightarrow> ('z file_state_scheme, u32) kop" where
  "do_munmap mm addr sz =
     bnd (find_vma_region mm (page_round_up addr) (page_round_down sz)) (\<lambda>v.
     if v = NULL then bnd (modify (kmsg ''Appropriate vma not found\<newline>'')) (\<lambda>_. ret (- 1))
     else bnd (remove_vma mm v) (\<lambda>_. bnd (deallocate_vma v) (\<lambda>_. ret 1)))"

definition sys_munmap :: "u64 \<Rightarrow> u64 \<Rightarrow> ('z file_state_scheme, u32) kop" where
  "sys_munmap addr sz =
     bnd get_current_process (\<lambda>c. bnd (get_pcb c pcb_mm) (\<lambda>mm. do_munmap mm addr sz))"

section \<open>Mapping\<close>

definition gap_step :: "u64 \<Rightarrow> ptr \<times> u64 \<Rightarrow> ('z proc_state_scheme, ptr \<times> u64 + ptr \<times> u64) kop" where
  "gap_step len = (\<lambda>(v, x).
     bnd (get_vma v id) (\<lambda>a.
     if vma_next a = NULL then ret (Inr (v, x))
     else
       bnd (get_vma (vma_next a) id) (\<lambda>n.
       ret (if end_addr a \<le> x \<and> x + PAGE_BLOCK_SIZE + len \<le> start_addr n then Inr (v, x)
            else Inl (vma_next a, end_addr n + 1)))))"

definition do_first_fit_search :: "ptr \<Rightarrow> u64 \<Rightarrow> u64 \<Rightarrow> ('z proc_state_scheme, u64) kop" where
  "do_first_fit_search vmas addr len =
     bnd (get_vma vmas id) (\<lambda>a.
     if addr < start_addr a \<and> addr + len < end_addr a then ret addr
     else
       bnd (loopM (gap_step len) (vmas, addr)) (\<lambda>(v, x).
       bnd (get_vma v id) (\<lambda>a.
       ret (if vma_next a = NULL then (if KERNBASE < end_addr a + len then - 1 else end_addr a + 1) else x))))"

definition get_unmapped_area :: "ptr \<Rightarrow> u64 \<Rightarrow> u64 \<Rightarrow> ('z proc_state_scheme, u64) kop" where
  "get_unmapped_area mm addr len =
     bnd (get_mm mm mm_vma) (\<lambda>vmas. do_first_fit_search vmas (if addr = 0 then KERNBASE div 3 else addr) len)"

definition area_limit :: "ptr \<Rightarrow> u64 \<Rightarrow> u64 \<Rightarrow> u64 \<Rightarrow> u64" where
  "area_limit fp t_addr t_filesz t_memsz =
     (if fp = NULL then t_addr + 4095 * (t_memsz div 4097 + 1) else t_addr + t_filesz)"

definition mmap_region :: "ptr \<Rightarrow> u64 \<Rightarrow> u64 \<Rightarrow> u64 \<Rightarrow> u64 \<Rightarrow> u64 \<Rightarrow> ('z file_state_scheme, u64) kop" where
  "mmap_region fp t_addr t_filesz t_memsz t_off prot =
     bnd get_current_process (\<lambda>c.
     bnd (get_pcb c pcb_mm) (\<lambda>mm.
     let prot = (if fp = NULL then prot AND NOT PROT_EXEC else prot) in
     if KERNBASE < t_addr then ret (- 1)
     else
       bnd (call phys_mem_alloc) (\<lambda>p.
       if p = NULL then ret (- 1)
       else
         let v = p OR KERNBASE in
         bnd (upd_vma v (\<lambda>a. a\<lparr>filesize := t_filesz, fileoffset := t_off, protection := prot,
                               memsize := t_memsz, start_addr := t_addr\<rparr>)) (\<lambda>_.
         if t_memsz < t_filesz then ret (- 1)
         else
           bnd (upd_vma v (\<lambda>a. a\<lparr>end_addr := area_limit fp t_addr t_filesz t_memsz, vma_file := fp,
                                 vma_fault := (if fp \<noteq> NULL then DoFileFault else DoAnonFault)\<rparr>)) (\<lambda>_.
           bnd (add_vma mm v) (\<lambda>err.
           if sint err < 0 then
             bnd (if fp \<noteq> NULL then bnd (tarfs_close fp) (\<lambda>_. ret ()) else ret ()) (\<lambda>_.
             bnd (modify (phys_mem_free v)) (\<lambda>_.
             ret (- 1)))
           else ret t_addr))))))"

definition do_mmap :: "u64 \<Rightarrow> u64 \<Rightarrow> u32 \<Rightarrow> u32 \<Rightarrow> u32 \<Rightarrow> u64 \<Rightarrow> ('z file_state_scheme, u64) kop" where
  "do_mmap addr len prot flags fd off =
     bnd get_current_process (\<lambda>c.
     bnd (get_pcb c pcb_mm) (\<lambda>mm.
     let ulen = page_round_up len in
     if ulen = 0 then ret NULL
     else if off + drop_bit 12 ulen < off then ret NULL
     else if KERNBASE < ulen then ret NULL
     else if flags AND MAP_PRIVATE \<noteq> 0 \<and> flags AND MAP_SHARED \<noteq> 0 then ret (- 1)
     else
       bnd (if flags AND MAP_ANONYMOUS \<noteq> 0 then ret (NULL, 0)
            else
              bnd (get_file_from_fd fd) (\<lambda>fp.
              bnd (get_file fp f_dentry) (\<lambda>d.
              bnd (get_inode_from_dentry d) (\<lambda>ino.
              ret (fp, scast (i_size ino)))))) (\<lambda>(fp, fsize).
       bnd (get_unmapped_area mm addr len) (\<lambda>ret_addr.
       if ret_addr < 0 then ret NULL
       else mmap_region fp ret_addr fsize len off (scast prot)))))"

definition sys_mmap :: "u64 \<Rightarrow> u64 \<Rightarrow> u32 \<Rightarrow> u32 \<Rightarrow> u32 \<Rightarrow> u64 \<Rightarrow> ('z file_state_scheme, u64) kop" where
  "sys_mmap addr len prot flags fd off = do_mmap addr len prot flags fd off"

section \<open>Heap and stack\<close>

text \<open>The loop goes over the whole list; an area that ends at the stack's start is not the stack.\<close>

definition expand_stack :: "ptr \<Rightarrow> u64 \<Rightarrow> ('z proc_state_scheme, u32) kop" where
  "expand_stack mm address =
     bnd (get_mm mm mm_vma) (loopM (\<lambda>v.
       if v = NULL then ret (Inr 0)
       else
         bnd (get_vma v end_addr) (\<lambda>e.
         bnd (if e = STACK_START then
                if address AND NOT (PAGE_BLOCK_SIZE - 1) < STACK_LIMIT then
                  bnd (modify (kmsg ''Cannot expand stack - you reached its limits\<newline>'')) (\<lambda>_. ret True)
                else bnd (upd_vma v (start_addr_update (\<lambda>_. address))) (\<lambda>_. ret False)
              else ret False) (\<lambda>full.
         if full then ret (Inr (- 1))
         else bnd (get_vma v vma_next) (\<lambda>nx. ret (Inl nx))))))"

definition last_vma :: "ptr \<Rightarrow> ('z proc_state_scheme, ptr) kop" where
  "last_vma = loopM (\<lambda>v. bnd (get_vma v vma_next) (\<lambda>nx. ret (if nx \<noteq> NULL then Inl nx else Inr v)))"

definition do_heap_vma :: "ptr \<Rightarrow> ('z proc_state_scheme, u32) kop" where
  "do_heap_vma mm =
     bnd (get_mm mm mm_vma) (\<lambda>h.
     bnd (last_vma h) (\<lambda>l.
     bnd kalloc (\<lambda>v.
     bnd (get_vma l end_addr) (\<lambda>e.
     bnd (upd_vma v (\<lambda>a. a\<lparr>start_addr := page_round_down e, end_addr := page_round_down e + 4095,
                           vma_fault := DoAnonFault, vma_file := NULL, protection := PROT_WRITE,
                           filesize := 0, memsize := PAGE_BLOCK_SIZE\<rparr>)) (\<lambda>_.
     bnd (add_vma mm v) (\<lambda>err.
     if sint err < 0 then bnd (modify (phys_mem_free v)) (\<lambda>_. ret (- 1)) else ret 0))))))"

text \<open>The number of pointers before the null pointer; counters are \<^verbatim>\<open>int\<close>s far below the overflow.\<close>

definition count :: "ptr \<Rightarrow> ('z util_state_scheme, int) kop" where
  "count argv = loopM (\<lambda>i. bnd (load64 (argv + 8 * of_int i)) (\<lambda>p. ret (if p \<noteq> 0 then Inl (i + 1) else Inr i))) 0"

text \<open>The inner loop copies a string with its NUL and advances the address it will have for the user.\<close>

definition copy_string :: "u64 \<Rightarrow> ptr \<Rightarrow> ptr \<Rightarrow> ('z util_state_scheme, u64 \<times> ptr) kop" where
  "copy_string user_ptr dest src =
     loopM (\<lambda>(u, d, p).
       if u = 0 then ret (Inr (u + 1, d))
       else
         bnd (load p) (\<lambda>c.
         bnd (store d c) (\<lambda>_.
         ret (if c \<noteq> 0 then Inl (u + 1, d + 1, p + 1) else Inr (u + 1, d + 1))))) (user_ptr, dest, src)"

definition copy_params_to_userspace :: "ptr \<Rightarrow> int \<Rightarrow> int \<Rightarrow> ptr \<Rightarrow> ptr \<Rightarrow> ('z util_state_scheme, ptr) kop" where
  "copy_params_to_userspace strs argc max_copy ptrs dest =
     bnd (store64 (ptrs + 8 * of_int (max_copy - 1)) 0) (\<lambda>_.
     loopM (\<lambda>(n, i, u, d).
       if 0 < n then
         bnd (load64 (strs + 8 * of_int (n - 1))) (\<lambda>src.
         bnd (store64 (ptrs + 8 * of_int (i - 1)) u) (\<lambda>_.
         bnd (copy_string u d src) (\<lambda>(u', d').
         ret (Inl (n - 1, i - 1, u', d')))))
       else ret (Inr d))
       (argc, max_copy - 1, page_round_up STACK_START + (dest - page_round_up dest), dest))"

definition USER_PAGE :: u32 where
  "USER_PAGE = ucast (PRESENT OR READWRITE OR USERSUPERVISOR)"

definition do_stack_vma :: "ptr \<Rightarrow> ptr \<Rightarrow> ptr \<Rightarrow> ('z proc_state_scheme, u32) kop" where
  "do_stack_vma mm argv envp =
     bnd kalloc (\<lambda>_.
     let v = vma_global OR KERNBASE in
     bnd (upd_vma v (\<lambda>a. a\<lparr>start_addr := STACK_START, end_addr := STACK_START - 3 * PAGE_BLOCK_SIZE, filesize := 0,
                           fileoffset := 0, protection := PROT_WRITE, vma_file := NULL, vma_fault := DoAnonFault,
                           memsize := 3 * PAGE_BLOCK_SIZE\<rparr>)) (\<lambda>_.
     bnd (if argv \<noteq> NULL then count argv else ret 0) (\<lambda>argc.
     bnd (if envp \<noteq> NULL then count envp else ret 0) (\<lambda>envc.
     bnd (call phys_mem_alloc) (\<lambda>phys_pointer.
     bnd (my_memset (phys_pointer OR KERNBASE) 0 PAGE_BLOCK_SIZE) (\<lambda>_.
     bnd (call phys_mem_alloc) (\<lambda>phys_strings.
     bnd (my_memset (phys_strings OR KERNBASE) 0 PAGE_BLOCK_SIZE) (\<lambda>_.
     bnd (copy_params_to_userspace envp envc 512 (phys_pointer OR KERNBASE) (phys_strings OR KERNBASE)) (\<lambda>dest.
     bnd (copy_params_to_userspace argv argc (512 - envc - 1) (phys_pointer OR KERNBASE) dest) (\<lambda>_.
     bnd (store64 ((phys_pointer OR KERNBASE) + 8 * of_int (512 - (envc + argc + 2) - 1)) (of_int argc)) (\<lambda>_.
     bnd (get_mm mm mm_cr3) (\<lambda>cr3.
     bnd (modify (map_virtual_address_to_physical_address STACK_START phys_strings USER_PAGE cr3 False)) (\<lambda>_.
     bnd (upd_mm mm (mm_exec_update (\<lambda>_. STACK_START - PAGE_BLOCK_SIZE - of_int (8 * (argc + envc + 3))))) (\<lambda>_.
     bnd (modify (map_virtual_address_to_physical_address (STACK_START - 2 * PAGE_BLOCK_SIZE) phys_pointer USER_PAGE cr3 False)) (\<lambda>_.
     bnd (add_vma mm v) (\<lambda>err.
     if sint err < 0 then bnd (modify (phys_mem_free v)) (\<lambda>_. ret (- 1)) else ret 0))))))))))))))))"

section \<open>Access to user memory\<close>

definition is_userspace_access_valid :: "ptr \<Rightarrow> u64 \<Rightarrow> u64 \<Rightarrow> u32 \<Rightarrow> ('z proc_state_scheme, u32) kop" where
  "is_userspace_access_valid mm addr n type =
     bnd (find_vma_region mm addr (n - 1)) (\<lambda>v.
     if v = NULL then ret (- 1)
     else
       bnd (get_vma v protection) (\<lambda>pr.
       ret (ucast (if type = VERIFY_WRITE then pr AND PROT_WRITE else pr AND PROT_READ))))"

section \<open>The areas of an address space as a list\<close>

text \<open>A list linked in both directions: every node points back at the one before it.\<close>

definition dlist :: "(ptr \<Rightarrow> ptr) \<Rightarrow> (ptr \<Rightarrow> ptr) \<Rightarrow> ptr \<Rightarrow> ptr list \<Rightarrow> bool" where
  "dlist nx pv h vs \<longleftrightarrow> llist nx h vs \<and> map pv vs = butlast (NULL # vs)"

lemma dlist_distinct: "dlist nx pv h vs \<Longrightarrow> distinct vs"
  by (auto simp: dlist_def dest: llist_distinct)

lemma map_upd_fresh [simp]: "v \<notin> set vs \<Longrightarrow> map (f(v := x)) vs = map f vs"
  by (induction vs) auto

lemma prevs_append:
  "map pv (xs @ ys) = butlast (p # xs @ ys) \<longleftrightarrow>
     map pv xs = butlast (p # xs) \<and> map pv ys = butlast (last (p # xs) # ys)"
  by (induction xs arbitrary: p) auto

lemma dlist_insert_first:
  assumes "dlist nx pv h vs" "v \<noteq> NULL" "v \<notin> set vs"
  shows "dlist (nx(v := h)) (if h = NULL then pv(v := NULL) else pv(v := NULL, h := v)) v (v # vs)"
  using assms dlist_distinct [OF assms(1)] by (cases vs) (auto simp: dlist_def)

lemma dlist_insert_after:
  assumes "dlist nx pv h (xs @ x # ys)" "v \<noteq> NULL" "v \<notin> set (xs @ x # ys)"
  shows "dlist (nx(x := v, v := nx x)) (if nx x = NULL then pv(v := x) else pv(v := x, nx x := v)) h (xs @ x # v # ys)"
  using assms dlist_distinct [OF assms(1)] unfolding dlist_def prevs_append by (cases ys) (auto simp: lseg_append)

definition next_area :: "'z proc_state_scheme \<Rightarrow> ptr \<Rightarrow> ptr" where
  "next_area s v = vma_next (vma_at s v)"

definition prev_area :: "'z proc_state_scheme \<Rightarrow> ptr \<Rightarrow> ptr" where
  "prev_area s v = vma_prev (vma_at s v)"

text \<open>\<open>area_list s mm vs\<close>: the areas of \<open>mm\<close> are \<open>vs\<close>, linked in both directions.\<close>

definition area_list :: "'z proc_state_scheme \<Rightarrow> ptr \<Rightarrow> ptr list \<Rightarrow> bool" where
  "area_list s mm vs \<longleftrightarrow> mm \<noteq> NULL \<and> dlist (next_area s) (prev_area s) (mm_vma (mm_at s mm)) vs"

definition before :: "vm_map_entry \<Rightarrow> vm_map_entry \<Rightarrow> bool" where
  "before a b \<longleftrightarrow> end_addr a \<le> start_addr b"

definition proper :: "vm_map_entry \<Rightarrow> bool" where
  "proper a \<longleftrightarrow> start_addr a < end_addr a"

text \<open>Areas that are not empty, in ascending order and without overlap.\<close>

definition ordered_areas :: "vm_map_entry list \<Rightarrow> bool" where
  "ordered_areas as \<longleftrightarrow> (\<forall>a\<in>set as. proper a) \<and> sorted_wrt before as"

text \<open>Where a new area goes: behind all that end before it starts.\<close>

definition insert_area :: "('a \<Rightarrow> vm_map_entry) \<Rightarrow> 'a \<Rightarrow> 'a list \<Rightarrow> 'a list" where
  "insert_area va v vs =
     takeWhile (\<lambda>u. before (va u) (va v)) vs @ v # dropWhile (\<lambda>u. before (va u) (va v)) vs"

lemma overlapping_iff:
  assumes "proper a" "proper b"
  shows "overlapping a b \<longleftrightarrow> \<not> before a b \<and> \<not> before b a"
  using assms by (auto simp: overlapping_def proper_def before_def)

text \<open>One round, and the search for the predecessor, from an area that is not behind the new one.\<close>

lemma prev_step_run:
  assumes "c \<noteq> NULL" "v \<noteq> NULL" "proper (vma_at s c)" "proper (vma_at s v)" "\<not> before (vma_at s v) (vma_at s c)"
  shows "prev_step v (vma_at s v) c s =
    (if \<not> before (vma_at s c) (vma_at s v) then Ok (Inr (0, Some NULL), kmsg ''mmap overlaps\<newline>'' s)
     else if next_area s c = NULL \<or> before (vma_at s v) (vma_at s (next_area s c)) then Ok (Inr (1, Some c), s)
     else Ok (Inl (next_area s c), s))"
  using assms
  by (auto simp: prev_step_def is_overlapping_vma_def overlapping_iff next_area_def before_def)

lemma prev_loop_run:
  assumes "llist (next_area s) c (c # vs)" and "\<forall>u\<in>set (c # vs). proper (vma_at s u)"
    and "v \<noteq> NULL" and "proper (vma_at s v)" and "\<not> before (vma_at s v) (vma_at s c)"
    and "P = (\<lambda>u. before (vma_at s u) (vma_at s v))"
  shows "loopM (prev_step v (vma_at s v)) c s =
    (if dropWhile P (c # vs) = [] \<or> before (vma_at s v) (vma_at s (hd (dropWhile P (c # vs))))
     then Ok ((1, Some (last (takeWhile P (c # vs)))), s)
     else Ok ((0, Some NULL), kmsg ''mmap overlaps\<newline>'' s))"
  using assms(1,2,5)
proof (induction vs arbitrary: c)
  case Nil
  then have c: "c \<noteq> NULL" "next_area s c = NULL" "proper (vma_at s c)" by simp_all
  note step = prev_step_run [OF c(1) assms(3) c(3) assms(4) Nil.prems(3)]
  show ?case
    using c Nil.prems(3) step by (cases "P c") (simp_all add: assms(6) loopM_exit)
next
  case (Cons w vs)
  then have c: "c \<noteq> NULL" "next_area s c = w" "proper (vma_at s c)" "w \<noteq> NULL" by simp_all
  have w: "llist (next_area s) w (w # vs)" "\<forall>u\<in>set (w # vs). proper (vma_at s u)"
    using Cons.prems by simp_all
  note step = prev_step_run [OF c(1) assms(3) c(3) assms(4) Cons.prems(3)]
  show ?case
  proof (cases "P c \<and> \<not> before (vma_at s v) (vma_at s w)")
    case True
    then have "loopM (prev_step v (vma_at s v)) c s = loopM (prev_step v (vma_at s v)) w s"
      using step c by (simp add: assms(6) loopM_continue)
    also note Cons.IH [OF w]
    finally show ?thesis using True by (cases "P w") simp_all
  next
    case False
    have "before (vma_at s v) (vma_at s w) \<Longrightarrow> \<not> P w"
      using w(2) assms(4) by (auto simp: before_def proper_def assms(6))
    with False show ?thesis
      using step c Cons.prems(3) by (cases "P c") (simp_all add: assms(6) loopM_exit)
  qed
qed

lemma find_vma_prev_run:
  assumes "area_list s mm vs" and "\<forall>u\<in>set vs. proper (vma_at s u)" and "v \<noteq> NULL" and "proper (vma_at s v)"
    and "P = (\<lambda>u. before (vma_at s u) (vma_at s v))"
  shows "find_vma_prev (mm_vma (mm_at s mm)) v s =
    (if dropWhile P vs = [] \<or> before (vma_at s v) (vma_at s (hd (dropWhile P vs)))
     then Ok ((1, Some (if takeWhile P vs = [] then NULL else last (takeWhile P vs))), s)
     else Ok ((0, Some NULL), kmsg ''mmap overlaps\<newline>'' s))"
proof (cases vs)
  case Nil
  with assms(1) show ?thesis by (simp add: area_list_def dlist_def find_vma_prev_def)
next
  case (Cons c cs)
  with assms(1) have c: "mm_vma (mm_at s mm) = c" "c \<noteq> NULL" "llist (next_area s) c (c # cs)"
    by (simp_all add: area_list_def dlist_def)
  show ?thesis
  proof (cases "before (vma_at s v) (vma_at s c)")
    case True
    then have "\<not> P c" using assms(2,4) Cons by (auto simp: assms(5) before_def proper_def)
    with True c Cons assms(3) show ?thesis by (simp add: find_vma_prev_def before_def)
  next
    case False
    have "find_vma_prev c v s = loopM (prev_step v (vma_at s v)) c s"
      using False c assms(3) by (simp add: find_vma_prev_def before_def)
    also note prev_loop_run [OF c(3) assms(2) [unfolded Cons] assms(3,4) False assms(5)]
    finally show ?thesis using False c(1) Cons by (cases "P c") simp_all
  qed
qed

text \<open>Linking an area in changes the links of the list and nothing else.\<close>

definition payload :: "vm_map_entry \<Rightarrow> vm_map_entry" where
  "payload a = a\<lparr>vma_next := NULL, vma_prev := NULL\<rparr>"

lemma payload_links [simp]:
  "payload (a\<lparr>vma_next := x\<rparr>) = payload a" "payload (a\<lparr>vma_prev := y\<rparr>) = payload a"
  by (cases a; simp add: payload_def)+

lemma payload_eqD:
  "payload a = payload b \<Longrightarrow> start_addr a = start_addr b \<and> end_addr a = end_addr b \<and> vma_file a = vma_file b \<and>
     filesize a = filesize b \<and> memsize a = memsize b \<and> protection a = protection b"
  by (cases a, cases b) (simp add: payload_def)

lemma area_list_distinct: "area_list s mm vs \<Longrightarrow> distinct vs"
  by (auto simp: area_list_def dest: dlist_distinct)

lemma area_list_same: "vma_at t = vma_at s \<Longrightarrow> mm_at t = mm_at s \<Longrightarrow> area_list t mm vs = area_list s mm vs"
proof -
  assume *: "vma_at t = vma_at s" "mm_at t = mm_at s"
  then have "next_area t = next_area s" "prev_area t = prev_area s"
    by (simp_all add: fun_eq_iff next_area_def prev_area_def)
  with * show ?thesis by (simp add: area_list_def)
qed

lemma insert_vma_first:
  assumes "area_list s mm ys" and "v \<noteq> NULL" and "v \<notin> set ys"
  shows "\<exists>t. insert_vma mm v NULL s = Ok ((), t) \<and> area_list t mm (v # ys) \<and>
    (\<forall>u. payload (vma_at t u) = payload (vma_at s u))"
proof -
  define h where "h = mm_vma (mm_at s mm)"
  define g where "g = (vma_at s)(v := (vma_at s v)\<lparr>vma_prev := NULL, vma_next := h\<rparr>)"
  define t where "t = s\<lparr>mm_at := (mm_at s)(mm := (mm_at s mm)\<lparr>mm_vma := v\<rparr>),
    vma_at := (if h = NULL then g else g(h := (g h)\<lparr>vma_prev := v\<rparr>))\<rparr>"
  have l: "mm \<noteq> NULL" "dlist (next_area s) (prev_area s) h ys"
    using assms(1) by (simp_all add: area_list_def h_def)
  have "h \<noteq> v" using l(2) assms(2,3) by (cases ys) (auto simp: dlist_def)
  have "insert_vma mm v NULL s = Ok ((), t)"
    using l(1) assms(2) by (simp add: insert_vma_def t_def g_def h_def)
  moreover have "next_area t = (next_area s)(v := h)"
    "prev_area t = (if h = NULL then (prev_area s)(v := NULL) else (prev_area s)(v := NULL, h := v))"
    using \<open>h \<noteq> v\<close> by (auto simp: t_def g_def next_area_def prev_area_def fun_eq_iff)
  with dlist_insert_first [OF l(2) assms(2,3)] l(1) have "area_list t mm (v # ys)"
    by (simp add: area_list_def t_def)
  moreover have "payload (vma_at t u) = payload (vma_at s u)" for u by (simp add: t_def g_def)
  ultimately show ?thesis by blast
qed

lemma insert_vma_after:
  assumes "area_list s mm (xs @ x # ys)" and "v \<noteq> NULL" and "v \<notin> set (xs @ x # ys)"
  shows "\<exists>t. insert_vma mm v x s = Ok ((), t) \<and> area_list t mm (xs @ x # v # ys) \<and>
    (\<forall>u. payload (vma_at t u) = payload (vma_at s u))"
proof -
  define n where "n = next_area s x"
  define g where "g = (vma_at s)(x := (vma_at s x)\<lparr>vma_next := v\<rparr>, v := (vma_at s v)\<lparr>vma_prev := x, vma_next := n\<rparr>)"
  define t where "t = s\<lparr>vma_at := (if n = NULL then g else g(n := (g n)\<lparr>vma_prev := v\<rparr>))\<rparr>"
  have l: "dlist (next_area s) (prev_area s) (mm_vma (mm_at s mm)) (xs @ x # ys)"
    using assms(1) by (simp add: area_list_def)
  have x: "x \<noteq> NULL" "x \<noteq> v" "n \<noteq> v" "n \<noteq> x"
    using l assms(2,3) dlist_distinct [OF l] by (cases ys; auto simp: dlist_def lseg_append n_def)+
  have run: "insert_vma mm v x s = Ok ((), t)"
    using x assms(2) by (simp add: insert_vma_def t_def g_def n_def next_area_def fun_upd_twist)
  have "next_area t = (next_area s)(x := v, v := n)"
    "prev_area t = (if n = NULL then (prev_area s)(v := x) else (prev_area s)(v := x, n := v))"
    using x by (auto simp: t_def g_def next_area_def prev_area_def fun_eq_iff)
  moreover have "mm_at t = mm_at s" by (simp add: t_def)
  ultimately have "area_list t mm (xs @ x # v # ys)"
    using dlist_insert_after [OF l assms(2,3), folded n_def] assms(1) by (simp add: area_list_def)
  moreover have "payload (vma_at t u) = payload (vma_at s u)" for u by (simp add: t_def g_def)
  ultimately show ?thesis using run by blast
qed

section \<open>Adding an area\<close>

lemma disjoint_tail:
  assumes "ordered_areas (map va (r # rs))" "before a (va r)" "u \<in> set (r # rs)"
  shows "before a (va u)"
  using assms by (fastforce simp: ordered_areas_def before_def proper_def)

lemma disjoint_iff_next:
  assumes "ordered_areas (map va vs)"
  shows "(dropWhile (\<lambda>u. before (va u) (va v)) vs = [] \<or> before (va v) (va (hd (dropWhile (\<lambda>u. before (va u) (va v)) vs))))
    \<longleftrightarrow> (\<forall>u\<in>set vs. before (va u) (va v) \<or> before (va v) (va u))"
  using assms
proof (induction vs)
  case Nil
  then show ?case by simp
next
  case (Cons w vs)
  then have "ordered_areas (map va vs)" by (simp add: ordered_areas_def)
  with Cons show ?case using disjoint_tail [OF Cons.prems] by (cases "before (va w) (va v)") auto
qed

lemma ordered_insert_area:
  assumes "ordered_areas (map va vs)" "proper (va v)"
    and "\<forall>u\<in>set vs. before (va u) (va v) \<or> before (va v) (va u)"
  shows "ordered_areas (map va (insert_area va v vs))"
  using assms
proof (induction vs)
  case Nil
  then show ?case by (simp add: ordered_areas_def insert_area_def)
next
  case (Cons w vs)
  then have o: "ordered_areas (map va vs)" by (simp add: ordered_areas_def)
  show ?case
  proof (cases "before (va w) (va v)")
    case True
    have "set (insert_area va v vs) = insert v (set vs)"
      by (simp add: insert_area_def) (metis set_append takeWhile_dropWhile_id)
    with True Cons o show ?thesis by (auto simp: ordered_areas_def insert_area_def)
  next
    case False
    with Cons.prems have "before (va v) (va w)" by auto
    with disjoint_tail [OF Cons.prems(1) this] False Cons.prems show ?thesis
      by (auto simp: ordered_areas_def insert_area_def)
  qed
qed

lemma ordered_payload:
  assumes "\<And>u. payload (f u) = payload (g u)"
  shows "ordered_areas (map f vs) = ordered_areas (map g vs)"
proof -
  have "start_addr (f u) = start_addr (g u)" "end_addr (f u) = end_addr (g u)" for u
    using payload_eqD [OF assms] by simp_all
  then show ?thesis by (simp add: ordered_areas_def proper_def before_def sorted_wrt_map)
qed

lemma add_vma_run:
  assumes "area_list s mm vs" "ordered_areas (map (vma_at s) vs)" "v \<noteq> NULL" "v \<notin> set vs" "proper (vma_at s v)"
  shows "if \<forall>u\<in>set vs. before (vma_at s u) (vma_at s v) \<or> before (vma_at s v) (vma_at s u)
    then \<exists>t. add_vma mm v s = Ok (0, t) \<and> area_list t mm (insert_area (vma_at s) v vs) \<and>
           ordered_areas (map (vma_at t) (insert_area (vma_at s) v vs)) \<and>
           (\<forall>u. payload (vma_at t u) = payload (vma_at s u))
    else \<exists>t. add_vma mm v s = Ok (- 1, t) \<and> area_list t mm vs \<and> vma_at t = vma_at s"
proof -
  define P where "P = (\<lambda>u. before (vma_at s u) (vma_at s v))"
  have pr: "\<forall>u\<in>set vs. proper (vma_at s u)" using assms(2) by (simp add: ordered_areas_def)
  have mm: "mm \<noteq> NULL" using assms(1) by (simp add: area_list_def)
  note search = find_vma_prev_run [OF assms(1) pr assms(3,5) P_def] disjoint_iff_next [OF assms(2), of v, folded P_def]
  show ?thesis
  proof (cases "\<forall>u\<in>set vs. before (vma_at s u) (vma_at s v) \<or> before (vma_at s v) (vma_at s u)")
    case True
    let ?xs = "takeWhile P vs" and ?ys = "dropWhile P vs"
    have "\<exists>t. insert_vma mm v (if ?xs = [] then NULL else last ?xs) s = Ok ((), t) \<and> area_list t mm (?xs @ v # ?ys) \<and>
        (\<forall>u. payload (vma_at t u) = payload (vma_at s u))"
    proof (cases ?xs rule: rev_cases)
      case Nil
      then have "?ys = vs" by (metis append_Nil takeWhile_dropWhile_id)
      with Nil insert_vma_first [OF assms(1,3,4)] show ?thesis by simp
    next
      case (snoc xs x)
      then have vs: "vs = xs @ x # ?ys" by (metis append_Cons append_Nil append_assoc takeWhile_dropWhile_id)
      with insert_vma_after [of s mm xs x ?ys v] assms(1,3,4) snoc show ?thesis by simp
    qed
    then obtain t where t: "insert_vma mm v (if ?xs = [] then NULL else last ?xs) s = Ok ((), t)"
      "area_list t mm (?xs @ v # ?ys)" "\<forall>u. payload (vma_at t u) = payload (vma_at s u)"
      by blast
    have "ordered_areas (map (vma_at t) (insert_area (vma_at s) v vs))"
      using ordered_insert_area [OF assms(2,5) True] ordered_payload [of "vma_at t" "vma_at s"] t(3) by simp
    with t True mm search show ?thesis
      by (auto simp: add_vma_def bnd_Ok insert_area_def P_def)
  next
    case False
    then have "find_vma_prev (mm_vma (mm_at s mm)) v s = Ok ((0, Some NULL), kmsg ''mmap overlaps\<newline>'' s)"
      using search by argo
    moreover have "area_list (kmsg ''mmap overlaps\<newline>'' s) mm vs"
      using assms(1) area_list_same [of "kmsg ''mmap overlaps\<newline>'' s" s] by simp
    ultimately have "\<exists>t. add_vma mm v s = Ok (- 1, t) \<and> area_list t mm vs \<and> vma_at t = vma_at s"
      using mm by (simp add: add_vma_def bnd_Ok)
    then show ?thesis using False by argo
  qed
qed

text \<open>An address space with two areas, and a third area that lies between them but is not linked in.\<close>

definition area_at :: "u64 \<Rightarrow> u64 \<Rightarrow> ptr \<Rightarrow> ptr \<Rightarrow> vm_map_entry" where
  "area_at a b n p = \<lparr>start_addr = a, end_addr = b, filesize = 0, memsize = 0, fileoffset = 0, protection = 7,
     vma_file = NULL, vma_next = n, vma_prev = p, vma_fault = NoFaultFn\<rparr>"

definition two_areas :: proc_state where
  "two_areas = (idle_machine (\<lambda>_. zero_pcb))
     \<lparr>mm_at := (\<lambda>_. zero_mm)(0x9000 := zero_mm\<lparr>mm_vma := 0xA000\<rparr>),
      vma_at := (\<lambda>_. area_at 0 0 NULL NULL)
        (0xA000 := area_at 0x1000 0x2000 0xB000 NULL, 0xB000 := area_at 0x5000 0x6000 NULL 0xA000,
         0xC000 := area_at 0x3000 0x4000 NULL NULL)\<rparr>"

lemma two_areas_wf:
  "area_list two_areas 0x9000 [0xA000, 0xB000]"
  "ordered_areas (map (vma_at two_areas) [0xA000, 0xB000])"
  "proper (vma_at two_areas 0xC000)"
  "vma_at two_areas 0xA000 = area_at 0x1000 0x2000 0xB000 NULL"
  "vma_at two_areas 0xB000 = area_at 0x5000 0x6000 NULL 0xA000"
  "vma_at two_areas 0xC000 = area_at 0x3000 0x4000 NULL NULL"
  by (simp_all add: two_areas_def area_at_def area_list_def dlist_def next_area_def prev_area_def ordered_areas_def
      proper_def before_def)

text \<open>
  C4: Adding an area to an address space refines insertion into a sorted list. Where the areas are in
  ascending order and do not overlap, a new area that overlaps none of them is linked in, in both
  directions, behind those that end before it, and the list stays ordered; one that overlaps another
  is refused with -1 and nothing changes. In particular the position is always found: the pointer the
  search leaves unset in one of its branches is never used.
\<close>

theorem add_vma_refines_insert:
  assumes "area_list s mm vs" "ordered_areas (map (vma_at s) vs)" "v \<noteq> NULL" "v \<notin> set vs" "proper (vma_at s v)"
  shows "if \<forall>u\<in>set vs. before (vma_at s u) (vma_at s v) \<or> before (vma_at s v) (vma_at s u)
    then \<exists>t. add_vma mm v s = Ok (0, t) \<and> area_list t mm (insert_area (vma_at s) v vs) \<and>
           ordered_areas (map (vma_at t) (insert_area (vma_at s) v vs)) \<and>
           (\<forall>u. payload (vma_at t u) = payload (vma_at s u))
    else \<exists>t. add_vma mm v s = Ok (- 1, t) \<and> area_list t mm vs \<and> vma_at t = vma_at s"
  using assms by (rule add_vma_run)

theorem add_vma_refines_insert_witness:
  "\<exists>t. add_vma 0x9000 0xC000 two_areas = Ok (0, t) \<and> area_list t 0x9000 [0xA000, 0xC000, 0xB000]"
  using add_vma_refines_insert [OF two_areas_wf(1,2) _ _ two_areas_wf(3)] two_areas_wf(4-6)
  by (auto simp: before_def insert_area_def area_at_def)

section \<open>Finding an area\<close>

lemma find_vma_run:
  assumes "area_list s mm vs"
  shows "find_vma mm a s = Ok (case find (\<lambda>v. in_area a (vma_at s v)) vs of None \<Rightarrow> NULL | Some v \<Rightarrow> v, s)"
proof -
  have l: "mm \<noteq> NULL" "llist (next_area s) (mm_vma (mm_at s mm)) vs"
    using assms by (simp_all add: area_list_def dlist_def)
  have "loopM (\<lambda>v. if v = NULL then ret (Inr NULL)
         else bnd (get_vma v id) (\<lambda>b. ret (if in_area a b then Inr v else Inl (vma_next b)))) (mm_vma (mm_at s mm)) s
      = Ok (case find (\<lambda>v. in_area a (vma_at s v)) vs of None \<Rightarrow> NULL | Some v \<Rightarrow> v, s)"
    by (rule loopM_list_scan [OF l(2)]) (use lseg_nonNULL [OF l(2)] in \<open>auto simp: next_area_def\<close>)
  with l(1) show ?thesis by (simp add: find_vma_def)
qed

lemma find_first: "\<forall>u\<in>set xs. \<not> P u \<Longrightarrow> P v \<Longrightarrow> find P (xs @ v # ys) = Some v"
  by (induction xs) auto

lemma in_area_payload: "payload a = payload b \<Longrightarrow> in_area x a = in_area x b"
  using payload_eqD [of a b] by (simp add: in_area_def area_end_def)

text \<open>
  C17: An area that was added is found: after a successful \<^verbatim>\<open>add_vma\<close>, looking up any address behind the
  start of the new area, up to and including its end, returns the new area.
\<close>

theorem added_area_is_found:
  assumes "area_list s mm vs" "ordered_areas (map (vma_at s) vs)" "v \<noteq> NULL" "v \<notin> set vs" "proper (vma_at s v)"
    and "\<forall>u\<in>set vs. before (vma_at s u) (vma_at s v) \<or> before (vma_at s v) (vma_at s u)"
    and "\<forall>u\<in>set (v # vs). area_end (vma_at s u) = end_addr (vma_at s u)"
    and "start_addr (vma_at s v) < a" "a \<le> end_addr (vma_at s v)"
  shows "\<exists>t. bnd (add_vma mm v) (\<lambda>_. find_vma mm a) s = Ok (v, t)"
proof -
  let ?xs = "takeWhile (\<lambda>u. before (vma_at s u) (vma_at s v)) vs"
    and ?ys = "dropWhile (\<lambda>u. before (vma_at s u) (vma_at s v)) vs"
  obtain t where t: "add_vma mm v s = Ok (0, t)" "area_list t mm (insert_area (vma_at s) v vs)"
    "\<forall>u. payload (vma_at t u) = payload (vma_at s u)"
    using add_vma_run [OF assms(1-5)] unfolding if_P [OF assms(6)] by blast
  have same: "in_area a (vma_at t u) = in_area a (vma_at s u)" for u
    by (rule in_area_payload) (simp add: t(3))
  have "\<not> in_area a (vma_at s u)" if "u \<in> set ?xs" for u
  proof -
    have u: "u \<in> set vs" "before (vma_at s u) (vma_at s v)" using that by (auto dest: set_takeWhileD)
    moreover have "proper (vma_at s u)" using assms(2) u(1) by (simp add: ordered_areas_def)
    ultimately show ?thesis using assms(7,8) by (auto simp: in_area_def before_def proper_def)
  qed
  moreover have "in_area a (vma_at s v)" using assms(5,7-9) by (auto simp: in_area_def proper_def)
  ultimately have "find (\<lambda>u. in_area a (vma_at t u)) (?xs @ v # ?ys) = Some v"
    by (intro find_first) (auto simp: same)
  with t find_vma_run [OF t(2), of a] show ?thesis by (simp add: bnd_Ok insert_area_def)
qed

theorem added_area_is_found_witness:
  "\<exists>t. bnd (add_vma 0x9000 0xC000) (\<lambda>_. find_vma 0x9000 0x3800) two_areas = Ok (0xC000, t)"
  by (rule added_area_is_found [OF two_areas_wf(1,2) _ _ two_areas_wf(3)])
     (simp_all add: two_areas_wf(4-6) before_def area_end_def, simp_all add: area_at_def)

section \<open>Finding room\<close>

text \<open>A range of \<open>len\<close> bytes and a page behind \<open>x\<close> does not reach the end of the address space.\<close>

definition fits_behind :: "u64 \<Rightarrow> u64 \<Rightarrow> bool" where
  "fits_behind len x \<longleftrightarrow> unat x + unat len + 4096 < 2 ^ 64"

lemma unat_fits:
  assumes "fits_behind len x"
  shows "unat (x + PAGE_BLOCK_SIZE + len) = unat x + 4096 + unat len"
proof -
  have "unat (x + of_nat 4096) = unat x + 4096"
    using assms by (intro unat_add_of_nat) (simp add: fits_behind_def)
  moreover have "unat (x + of_nat 4096 + of_nat (unat len)) = unat (x + of_nat 4096) + unat len"
    using assms calculation by (intro unat_add_of_nat) (simp add: fits_behind_def)
  ultimately show ?thesis by (simp add: PAGE_BLOCK_SIZE_def)
qed

text \<open>Where the search stops: at the last area, or before a gap that is large enough.\<close>

lemma gap_loop:
  assumes "llist (next_area s) v (v # ys)" "fits_behind len x" "\<forall>u\<in>set ys. fits_behind len (end_addr (vma_at s u) + 1)"
  shows "\<exists>zs w us x'. loopM (gap_step len) (v, x) s = Ok ((w, x'), s) \<and> v # ys = zs @ w # us \<and> fits_behind len x' \<and>
    (us = [] \<or> end_addr (vma_at s w) \<le> x' \<and> x' + PAGE_BLOCK_SIZE + len \<le> start_addr (vma_at s (hd us)))"
  using assms
proof (induction ys arbitrary: v x)
  case Nil
  then have "gap_step len (v, x) s = Ok (Inr (v, x), s)" by (simp add: gap_step_def next_area_def)
  with Nil show ?case by (intro exI [of _ "[]"] exI [of _ v] exI [of _ "[]"] exI [of _ x]) (simp add: loopM_exit)
next
  case (Cons y ys)
  then have v: "v \<noteq> NULL" "next_area s v = y" "y \<noteq> NULL" "llist (next_area s) y (y # ys)" by auto
  let ?b = "end_addr (vma_at s v) \<le> x \<and> x + PAGE_BLOCK_SIZE + len \<le> start_addr (vma_at s y)"
  have step: "gap_step len (v, x) s = Ok (if ?b then Inr (v, x) else Inl (y, end_addr (vma_at s y) + 1), s)"
    using v by (simp add: gap_step_def next_area_def)
  show ?case
  proof (cases ?b)
    case True
    with step have "loopM (gap_step len) (v, x) s = Ok ((v, x), s)" by (simp add: loopM_exit)
    with True Cons.prems(2) show ?thesis
      by (intro exI [of _ "[]"] exI [of _ v] exI [of _ "y # ys"] exI [of _ x]) simp
  next
    case False
    with step have run: "loopM (gap_step len) (v, x) s = loopM (gap_step len) (y, end_addr (vma_at s y) + 1) s"
      by (intro loopM_continue) simp
    have "fits_behind len (end_addr (vma_at s y) + 1)" using Cons.prems(3) by simp
    from Cons.IH [OF v(4) this] Cons.prems(3) obtain zs w us x' where
      "loopM (gap_step len) (y, end_addr (vma_at s y) + 1) s = Ok ((w, x'), s)" "y # ys = zs @ w # us" "fits_behind len x'"
      "us = [] \<or> end_addr (vma_at s w) \<le> x' \<and> x' + PAGE_BLOCK_SIZE + len \<le> start_addr (vma_at s (hd us))" by auto
    then show ?thesis
      unfolding run by (intro exI [of _ "v # zs"] exI [of _ w] exI [of _ us] exI [of _ x']) simp
  qed
qed



section \<open>Removing an area\<close>

lemma dlist_remove:
  assumes "dlist nx pv h (xs @ x # v # ys)"
  shows "dlist (nx(x := nx v)) (if ys = [] then pv else pv(nx v := x)) h (xs @ x # ys)"
  using assms dlist_distinct [OF assms] unfolding dlist_def prevs_append
  by (cases ys) (auto simp: lseg_append)

lemma remove_walk:
  assumes "llist (next_area s) c (zs @ v # ys)" "v \<notin> set zs"
  shows "loopM (remove_step v) c s = loopM (remove_step v) v s"
  using assms
proof (induction zs arbitrary: c)
  case Nil
  then show ?case by simp
next
  case (Cons z zs)
  then have "next_area s z \<noteq> NULL" by (cases zs) auto
  with Cons.prems have "remove_step v c s = Ok (Inl (next_area s z), s)"
    by (auto simp: remove_step_def next_area_def)
  with Cons show ?case by (simp add: loopM_continue)
qed

lemma remove_vma_inner:
  assumes "area_list s mm (xs @ x # v # ys)"
  shows "\<exists>t. remove_vma mm v s = Ok ((), t) \<and> area_list t mm (xs @ x # ys)"
proof -
  have l: "mm \<noteq> NULL" "dlist (next_area s) (prev_area s) (mm_vma (mm_at s mm)) (xs @ x # v # ys)"
    using assms by (simp_all add: area_list_def)
  have d: "distinct (xs @ x # v # ys)" using l(2) by (rule dlist_distinct)
  have n: "llist (next_area s) (mm_vma (mm_at s mm)) ((xs @ [x]) @ v # ys)" using l(2) by (simp add: dlist_def)
  have p: "prev_area s v = x" "x \<noteq> NULL" "v \<noteq> NULL"
    using l(2) unfolding dlist_def prevs_append by (auto simp: lseg_append)
  have h: "mm_vma (mm_at s mm) \<noteq> v" using n d by (cases xs) (auto simp: lseg_append)
  have "remove_vma mm v s = loopM (remove_step v) v s"
    using l(1) h remove_walk [OF n] d by (auto simp: remove_vma_def)
  have xv: "x \<noteq> v" using d by simp
  note \<open>remove_vma mm v s = loopM (remove_step v) v s\<close>
  also have "\<exists>t. loopM (remove_step v) v s = Ok ((), t) \<and> area_list t mm (xs @ x # ys)"
  proof (cases ys)
    case Nil
    then have nv: "next_area s v = NULL" using n by (auto simp: lseg_append)
    define t where "t = s\<lparr>vma_at := (vma_at s)(x := (vma_at s x)\<lparr>vma_next := NULL\<rparr>, v := (vma_at s v)\<lparr>vma_prev := NULL\<rparr>)\<rparr>"
    have "remove_step v v s = Ok (Inr (), t)"
      using p nv xv by (simp add: remove_step_def t_def next_area_def prev_area_def)
    moreover have "next_area t = (next_area s)(x := next_area s v)" "prev_area t = (prev_area s)(v := NULL)" "mm_at t = mm_at s"
      using nv xv by (simp_all add: t_def next_area_def prev_area_def fun_eq_iff)
    moreover have "dlist nx (pv(v := NULL)) hd0 (xs @ [x]) = dlist nx pv hd0 (xs @ [x])" for nx pv hd0
      using d by (simp add: dlist_def)
    ultimately show ?thesis
      using dlist_remove [OF l(2)] l(1) Nil by (simp add: area_list_def loopM_exit)
  next
    case (Cons y zs)
    then have nv: "next_area s v = y" "y \<noteq> NULL" using n by (auto simp: lseg_append)
    define t where "t = s\<lparr>vma_at := (vma_at s)(x := (vma_at s x)\<lparr>vma_next := y\<rparr>, y := (vma_at s y)\<lparr>vma_prev := x\<rparr>)\<rparr>"
    have xy: "x \<noteq> v" "y \<noteq> v" "x \<noteq> y" "v \<noteq> y" using d Cons by auto
    have "remove_step v v s = Ok (Inr (), t)"
      using p nv xy by (simp add: remove_step_def t_def next_area_def prev_area_def)
    moreover have "next_area t = (next_area s)(x := next_area s v)" "prev_area t = (prev_area s)(next_area s v := x)" "mm_at t = mm_at s"
      using nv xy by (simp_all add: t_def next_area_def prev_area_def fun_eq_iff)
    ultimately show ?thesis
      using dlist_remove [OF l(2)] l(1) Cons by (simp add: area_list_def loopM_exit)
  qed
  finally show ?thesis .
qed

text \<open>
  C33: What removing an area does depends on its position. An area that is not the first is unlinked and
  the list of the others is intact. Removing the first of one or two areas dereferences a null
  pointer; removing the first of more leaves the back links wrong: the area that is now the first still
  points back at the removed one.
\<close>

theorem remove_vma_outcome:
  assumes "area_list s mm (xs @ v # ys)"
  shows "if xs \<noteq> [] then \<exists>t. remove_vma mm v s = Ok ((), t) \<and> area_list t mm (xs @ ys)
    else if length ys < 2 then remove_vma mm v s = Fault NullDeref
    else \<exists>t. remove_vma mm v s = Ok ((), t) \<and> llist (next_area t) (mm_vma (mm_at t mm)) ys \<and>
           prev_area t (hd ys) = v \<and> \<not> area_list t mm ys"
proof (cases xs rule: rev_cases)
  case (snoc zs x)
  with remove_vma_inner [of s mm zs x v ys] assms show ?thesis by simp
next
  case Nil
  have l: "mm \<noteq> NULL" "dlist (next_area s) (prev_area s) (mm_vma (mm_at s mm)) (v # ys)"
    using assms Nil by (simp_all add: area_list_def)
  then have v: "mm_vma (mm_at s mm) = v" "v \<noteq> NULL" "llist (next_area s) (next_area s v) ys" "v \<notin> set ys" "distinct ys"
    using dlist_distinct [OF l(2)] by (auto simp: dlist_def)
  show ?thesis
  proof (cases "length ys < 2")
    case True
    then have "ys = [] \<or> (\<exists>y. ys = [y])" by (cases ys; cases "tl ys") auto
    with v l(1) Nil True show ?thesis by (auto simp: remove_vma_def next_area_def)
  next
    case False
    then obtain y z zs where ys: "ys = y # z # zs" by (cases ys; cases "tl ys") auto
    define t where "t = s\<lparr>mm_at := (mm_at s)(mm := (mm_at s mm)\<lparr>mm_vma := y\<rparr>),
      vma_at := (vma_at s)(z := (vma_at s z)\<lparr>vma_prev := NULL\<rparr>)\<rparr>"
    have y: "next_area s v = y" "next_area s y = z" "y \<noteq> NULL" "z \<noteq> NULL" "y \<noteq> z" "prev_area s y = v"
      using v l(2) unfolding ys by (auto simp: dlist_def)
    have "remove_vma mm v s = Ok ((), t)"
      using v(1,2) y l(1) by (simp add: remove_vma_def t_def next_area_def)
    moreover have "next_area t = next_area s" "prev_area t y = v"
      using y by (auto simp: t_def next_area_def prev_area_def fun_eq_iff)
    moreover have "mm_vma (mm_at t mm) = y" by (simp add: t_def)
    ultimately show ?thesis
      using v y False Nil unfolding ys by (auto simp: area_list_def dlist_def)
  qed
qed

theorem remove_vma_outcome_witness:
  "remove_vma 0x9000 0xA000 two_areas = Fault NullDeref \<and>
   (\<exists>t. remove_vma 0x9000 0xB000 two_areas = Ok ((), t) \<and> area_list t 0x9000 [0xA000])"
  using remove_vma_outcome [of two_areas "0x9000" "[]" "0xA000" "[0xB000]"]
    remove_vma_outcome [of two_areas "0x9000" "[0xA000]" "0xB000" "[]"] two_areas_wf(1) by simp

end
