(* ===== verification/Elf.thy ===== *)
theory Elf
  imports Memory
begin

text \<open>
  Loading a program, \<^verbatim>\<open>sys/elf.c\<close> and \<^verbatim>\<open>include/sys/elf64.h\<close>. The headers are read from the file into
  pages of the kernel; their fields are words of memory at the offsets the structures give them.
\<close>

section \<open>Header fields\<close>

definition load16 :: "ptr \<Rightarrow> ('z util_state_scheme, u16) kop" where
  "load16 p = deref p (gets (\<lambda>s. ucast (le_word (bytes_at (kmem s) p 2))))"

definition load32 :: "ptr \<Rightarrow> ('z util_state_scheme, u32) kop" where
  "load32 p = deref p (gets (\<lambda>s. ucast (le_word (bytes_at (kmem s) p 4))))"

definition e_ident :: "ptr \<Rightarrow> u64 \<Rightarrow> ('z util_state_scheme, u8) kop" where
  "e_ident ehdr i = load (ehdr + i)"

definition e_entry :: "ptr \<Rightarrow> ('z util_state_scheme, u64) kop" where
  "e_entry ehdr = load64 (ehdr + 24)"

definition e_phoff :: "ptr \<Rightarrow> ('z util_state_scheme, u64) kop" where
  "e_phoff ehdr = load64 (ehdr + 32)"

definition e_phnum :: "ptr \<Rightarrow> ('z util_state_scheme, u16) kop" where
  "e_phnum ehdr = load16 (ehdr + 56)"

definition sizeof_ehdr :: u64 where
  "sizeof_ehdr = 64"

definition p_type :: "ptr \<Rightarrow> ('z util_state_scheme, u32) kop" where
  "p_type phdr = load32 phdr"

definition p_flags :: "ptr \<Rightarrow> ('z util_state_scheme, u32) kop" where
  "p_flags phdr = load32 (phdr + 4)"

definition p_offset :: "ptr \<Rightarrow> ('z util_state_scheme, u64) kop" where
  "p_offset phdr = load64 (phdr + 8)"

definition p_vaddr :: "ptr \<Rightarrow> ('z util_state_scheme, u64) kop" where
  "p_vaddr phdr = load64 (phdr + 16)"

definition p_filesz :: "ptr \<Rightarrow> ('z util_state_scheme, u64) kop" where
  "p_filesz phdr = load64 (phdr + 32)"

definition p_memsz :: "ptr \<Rightarrow> ('z util_state_scheme, u64) kop" where
  "p_memsz phdr = load64 (phdr + 40)"

definition sizeof_phdr :: u64 where
  "sizeof_phdr = 56"

section \<open>Constants\<close>

definition ELFMAG :: bytes where
  "ELFMAG = [0x7f, 69, 76, 70]"

definition ELFCLASS64 :: u8 where
  "ELFCLASS64 = 2"

definition ELFDATA2LSB :: u8 where
  "ELFDATA2LSB = 1"

definition PT_LOAD :: u32 where
  "PT_LOAD = 1"

definition ELF_READ :: u64 where
  "ELF_READ = 0x4"

definition ELF_WRITE :: u64 where
  "ELF_WRITE = 0x4 OR 0x2"

definition ELF_EXECUTE :: u64 where
  "ELF_EXECUTE = 0x4 OR 0x1"

section \<open>Operations\<close>

text \<open>One test of a byte of the identification, with its message.\<close>

definition check_byte :: "ptr \<Rightarrow> u64 \<Rightarrow> u8 \<Rightarrow> string \<Rightarrow> ('z util_state_scheme, u16) kop \<Rightarrow> ('z util_state_scheme, u16) kop" where
  "check_byte hdr i b msg cont =
     bnd (e_ident hdr i) (\<lambda>c. if c \<noteq> b then bnd (modify (kmsg msg)) (\<lambda>_. ret 0) else cont)"

definition check_elf_magic :: "ptr \<Rightarrow> ('z util_state_scheme, u16) kop" where
  "check_elf_magic hdr =
     (if hdr = NULL then ret 0
      else
        check_byte hdr 0 (ELFMAG ! 0) ''first byte of magic invalid\<newline>''
        (check_byte hdr 1 (ELFMAG ! 1) ''second byte of magic invalid\<newline>''
        (check_byte hdr 2 (ELFMAG ! 2) ''third byte of magic invalid\<newline>''
        (check_byte hdr 3 (ELFMAG ! 3) ''fourth byte of magic invalid\<newline>'' (ret 1)))))"

definition check_elf_file_validity :: "ptr \<Rightarrow> ('z util_state_scheme, u16) kop" where
  "check_elf_file_validity hdr =
     bnd (check_elf_magic hdr) (\<lambda>m.
     if m = 0 then ret 0
     else
       check_byte hdr 4 ELFCLASS64 ''elf file belongs to different architecture\<newline>''
       (check_byte hdr 5 ELFDATA2LSB ''elf file does not have correct byte order\<newline>'' (ret 1)))"

text \<open>Reading a header; the number of bytes read is cut to an \<^verbatim>\<open>int\<close>.\<close>

definition load_header :: "ptr \<Rightarrow> u64 \<Rightarrow> u64 \<Rightarrow> ('z file_state_scheme, ptr) kop" where
  "load_header fp sz offset =
     bnd kalloc (\<lambda>hdr.
     bnd (vfs_read fp hdr sz offset) (\<lambda>bytes.
     if sint (ucast bytes :: u32) < 0 then bnd (modify (phys_mem_free hdr)) (\<lambda>_. ret NULL) else ret hdr))"

definition load_elf_phdr :: "ptr \<Rightarrow> ptr \<Rightarrow> ('z file_state_scheme, ptr) kop" where
  "load_elf_phdr ehdr fp =
     bnd (e_phoff ehdr) (\<lambda>offset. bnd (e_phnum ehdr) (\<lambda>n. load_header fp (sizeof_phdr * ucast n) offset))"

definition load_elf_ehdr :: "ptr \<Rightarrow> ('z file_state_scheme, ptr) kop" where
  "load_elf_ehdr fp = load_header fp sizeof_ehdr 0"

text \<open>The tests exclude each other, so that a readable segment is only ever readable.\<close>

definition elf_protection :: "u64 \<Rightarrow> u64" where
  "elf_protection elf_prot =
     (if elf_prot AND ELF_READ \<noteq> 0 then PROT_READ
      else if elf_prot AND ELF_WRITE \<noteq> 0 then PROT_WRITE
      else if elf_prot AND ELF_EXECUTE \<noteq> 0 then PROT_EXEC
      else 0)"

definition elf_map :: "ptr \<Rightarrow> ptr \<Rightarrow> ('z file_state_scheme, u64) kop" where
  "elf_map fp phdr =
     bnd (p_offset phdr) (\<lambda>elf_offset.
     bnd (p_flags phdr) (\<lambda>elf_prot.
     bnd (p_vaddr phdr) (\<lambda>elf_vaddr.
     bnd (p_filesz phdr) (\<lambda>elf_filesz.
     bnd (p_memsz phdr) (\<lambda>elf_memsz.
     mmap_region fp elf_vaddr elf_filesz elf_memsz elf_offset (elf_protection (ucast elf_prot)))))))"

definition map_segments :: "ptr \<Rightarrow> ptr \<Rightarrow> ptr \<Rightarrow> ('z file_state_scheme, u32) kop" where
  "map_segments fp ehdr phdr =
     loopM (\<lambda>(i, ppnt).
       bnd (e_phnum ehdr) (\<lambda>n.
       if i < (ucast n :: u32) then
         bnd (p_type ppnt) (\<lambda>ty.
         if ty = PT_LOAD then
           bnd (elf_map fp ppnt) (\<lambda>r.
           if sint (ucast r :: u32) < 0 then
             bnd (modify (kmsg ''error in mapping elf file\<newline>'')) (\<lambda>_. ret (Inr (ucast r)))
           else ret (Inl (i + 1, ppnt + sizeof_phdr)))
         else ret (Inl (i + 1, ppnt + sizeof_phdr)))
       else ret (Inr 0))) (0, phdr)"

definition load_elf_binary :: "ptr \<Rightarrow> ('z file_state_scheme, u32) kop" where
  "load_elf_binary mm =
     bnd (get_mm mm mm_file) (\<lambda>filp.
     bnd (load_elf_ehdr filp) (\<lambda>ehdr.
     bnd (check_elf_file_validity ehdr) (\<lambda>valid.
     if valid = 0 then ret (- 1)
     else
       bnd (e_entry ehdr) (\<lambda>entry_point.
       bnd (upd_mm mm (mm_rip_update (\<lambda>_. entry_point))) (\<lambda>_.
       bnd (load_elf_phdr ehdr filp) (\<lambda>phdr.
       map_segments filp ehdr phdr))))))"

section \<open>Which files are accepted\<close>

lemma check_byte_run:
  "hdr + i \<noteq> NULL \<Longrightarrow> check_byte hdr i b msg cont s =
     (if kmem s (hdr + i) = b then cont s else Ok (0, kmsg msg s))"
  by (simp add: check_byte_def e_ident_def load_def)

lemma kmem_kmsg: "kmem (kmsg m s) = kmem s"
proof -
  have *: "phys_state.more t = phys_state.more s \<Longrightarrow> kmem t = kmem s" for t by (cases t, cases s) simp
  show ?thesis by (rule *) simp
qed

text \<open>
  C35: The check of the header of a program file returns 1 exactly when the file starts with the magic
  number of ELF, the 64-bit class and little-endian data; otherwise it prints why and returns 0. It
  never changes the header.
\<close>

theorem elf_validity_exact:
  assumes "valid_range hdr 6"
  shows "\<exists>t. check_elf_file_validity hdr s =
      Ok (if map (\<lambda>i. kmem s (hdr + of_nat i)) [0..<6] = [0x7F, 0x45, 0x4C, 0x46, 2, 1] then 1 else 0, t) \<and> kmem t = kmem s"
proof -
  have n: "hdr \<noteq> NULL" "hdr + 1 \<noteq> NULL" "hdr + 2 \<noteq> NULL" "hdr + 3 \<noteq> NULL" "hdr + 4 \<noteq> NULL" "hdr + 5 \<noteq> NULL"
    using valid_range_nonnull [OF assms, of 0] valid_range_nonnull [OF assms, of 1] valid_range_nonnull [OF assms, of 2]
      valid_range_nonnull [OF assms, of 3] valid_range_nonnull [OF assms, of 4] valid_range_nonnull [OF assms, of 5] by simp_all
  have bytes: "map (\<lambda>i. kmem s (hdr + of_nat i)) [0..<6] =
      [kmem s hdr, kmem s (hdr + 1), kmem s (hdr + 2), kmem s (hdr + 3), kmem s (hdr + 4), kmem s (hdr + 5)]"
    by (simp add: upt_rec)
  show ?thesis
    unfolding bytes check_elf_file_validity_def check_elf_magic_def
    using n by (auto simp: bnd_def check_byte_run kmem_kmsg ELFMAG_def ELFCLASS64_def ELFDATA2LSB_def kmem_kmsg)
qed

theorem elf_validity_exact_witness:
  "\<exists>t. check_elf_file_validity 0x5000 (terminal_machine [0x7F, 0x45, 0x4C, 0x46, 2, 1]) = Ok (1, t) \<and>
   (\<exists>u. check_elf_file_validity 0x5000 (terminal_machine [0x7F, 0x45, 0x4C, 0x46, 1, 1]) = Ok (0, u))"
proof -
  have v: "valid_range 0x5000 6" by (simp add: valid_range_def)
  have m: "kmem (terminal_machine cs) a = (if unat (a - 0x5000) < length cs then cs ! unat (a - 0x5000) else 0)" for cs a
    by (simp add: terminal_machine_def proc_state.defs)
  show ?thesis
    using elf_validity_exact [OF v, of "terminal_machine [0x7F, 0x45, 0x4C, 0x46, 2, 1]"]
      elf_validity_exact [OF v, of "terminal_machine [0x7F, 0x45, 0x4C, 0x46, 1, 1]"] by (auto simp: m upt_rec)
qed

end
