(* ===== verification/Process.thy ===== *)
theory Process
  imports Elf
begin

text \<open>
  Processes, \<^verbatim>\<open>sys/process.c\<close>: the lists of all processes and of zombies, creating a process, running a
  program in it, and its end. Code that calls the scheduler is modelled up to the moment at which the
  calling process is switched out; the result \<open>None\<close> says that it was, and a definition with the
  ending \<open>resumed\<close> is what it does when it runs again. \<open>ret_from_fork\<close> is an address the linker fixes.
\<close>

section \<open>Registers saved on the kernel stack\<close>

text \<open>The fields of \<^verbatim>\<open>struct reg_list\<close> in their order, eight bytes each.\<close>

datatype reg_field =
  reg_r15 | reg_r14 | reg_r13 | reg_r12 | reg_rbp | reg_rbx | reg_r11 | reg_r10 | reg_r9 | reg_r8 | reg_rax |
  reg_rcx | reg_rdx | reg_rsi | reg_rdi | reg_orig_rax | reg_rip | reg_cs | reg_rflags | reg_sp | reg_ss

definition reg_fields :: "reg_field list" where
  "reg_fields = [reg_r15, reg_r14, reg_r13, reg_r12, reg_rbp, reg_rbx, reg_r11, reg_r10, reg_r9, reg_r8, reg_rax,
     reg_rcx, reg_rdx, reg_rsi, reg_rdi, reg_orig_rax, reg_rip, reg_cs, reg_rflags, reg_sp, reg_ss]"

primrec reg_index :: "reg_field \<Rightarrow> nat" where
  "reg_index reg_r15 = 0" | "reg_index reg_r14 = 1" | "reg_index reg_r13 = 2" | "reg_index reg_r12 = 3"
| "reg_index reg_rbp = 4" | "reg_index reg_rbx = 5" | "reg_index reg_r11 = 6" | "reg_index reg_r10 = 7"
| "reg_index reg_r9 = 8" | "reg_index reg_r8 = 9" | "reg_index reg_rax = 10" | "reg_index reg_rcx = 11"
| "reg_index reg_rdx = 12" | "reg_index reg_rsi = 13" | "reg_index reg_rdi = 14" | "reg_index reg_orig_rax = 15"
| "reg_index reg_rip = 16" | "reg_index reg_cs = 17" | "reg_index reg_rflags = 18" | "reg_index reg_sp = 19"
| "reg_index reg_ss = 20"

definition reg_slot :: "ptr \<Rightarrow> reg_field \<Rightarrow> ptr" where
  "reg_slot regs f = regs + 8 * of_nat (reg_index f)"

definition sizeof_reg_list :: u64 where
  "sizeof_reg_list = 168"

definition set_reg :: "ptr \<Rightarrow> reg_field \<Rightarrow> u64 \<Rightarrow> 'z virt_state_scheme \<Rightarrow> 'z virt_state_scheme" where
  "set_reg regs f v = set_kword (reg_slot regs f) v"

definition copy_words :: "nat \<Rightarrow> ptr \<Rightarrow> ptr \<Rightarrow> 'z virt_state_scheme \<Rightarrow> 'z virt_state_scheme" where
  "copy_words n dest src = fold (\<lambda>i s. set_kword (dest + 8 * of_nat i) (kword (src + 8 * of_nat i) s) s) [0..<n]"

text \<open>\<^verbatim>\<open>my_memset\<close> of \<open>n\<close> words to 0, with the byte it stores behind them.\<close>

definition zero_words :: "nat \<Rightarrow> ptr \<Rightarrow> 'z virt_state_scheme \<Rightarrow> 'z virt_state_scheme" where
  "zero_words n p s =
     (let t = fold (\<lambda>i. set_kword (p + 8 * of_nat i) 0) [0..<n] s; e = p + 8 * of_nat n
      in set_kword e (kword e t AND NOT 0xFF) t)"

definition task_reg_list :: "ptr \<Rightarrow> ('z proc_state_scheme, ptr) kop" where
  "task_reg_list task = bnd (get_pcb task esp0) (\<lambda>e. ret (e - sizeof_reg_list))"

section \<open>Lists of processes\<close>

definition last_node :: "ptr \<Rightarrow> ('z proc_state_scheme, ptr) kop" where
  "last_node = loopM (\<lambda>t. bnd (get_plist t pl_next) (\<lambda>n. ret (if n \<noteq> NULL then Inl n else Inr t)))"

definition new_node :: "ptr \<Rightarrow> ('z proc_state_scheme, ptr option) kop" where
  "new_node process =
     bnd (call phys_mem_alloc) (\<lambda>a.
     if a = NULL then ret None
     else
       bnd (upd_plist (a OR KERNBASE) (\<lambda>_. \<lparr>pl_process = process, pl_next = NULL\<rparr>)) (\<lambda>_.
       ret (Some (a OR KERNBASE))))"

text \<open>Appending a node to the list that starts at \<open>h\<close>; the result is the new start.\<close>

definition append_node :: "ptr \<Rightarrow> ptr \<Rightarrow> ('z proc_state_scheme, ptr) kop" where
  "append_node h n =
     (if h = NULL then ret n
      else bnd (last_node h) (\<lambda>t. bnd (upd_plist t (pl_next_update (\<lambda>_. n))) (\<lambda>_. ret h)))"

definition insert_allproc :: "ptr \<Rightarrow> ('z proc_state_scheme, u32) kop" where
  "insert_allproc process =
     (if process = NULL then ret (- 1)
      else
        bnd (new_node process) (\<lambda>r.
        case r of
          None \<Rightarrow> ret (- 1)
        | Some n \<Rightarrow>
            bnd (gets allproc) (\<lambda>h.
            bnd (append_node h n) (\<lambda>h'.
            bnd (modify (allproc_update (\<lambda>_. h'))) (\<lambda>_.
            ret 0)))))"

definition insert_zombproc :: "ptr \<Rightarrow> ('z proc_state_scheme, u32) kop" where
  "insert_zombproc process =
     (if process = NULL then ret (- 1)
      else
        bnd (new_node process) (\<lambda>r.
        case r of
          None \<Rightarrow> ret (- 1)
        | Some n \<Rightarrow>
            bnd (gets zombproc) (\<lambda>h.
            bnd (append_node h n) (\<lambda>h'.
            bnd (modify (zombproc_update (\<lambda>_. h'))) (\<lambda>_.
            ret 0)))))"

text \<open>The new start of the list is stored in a parameter of the function, and is lost with it.\<close>

definition insert_into_pchildren :: "ptr \<Rightarrow> ptr \<Rightarrow> ('z proc_state_scheme, u32) kop" where
  "insert_into_pchildren pchildren process =
     (if process = NULL then ret (- 1)
      else
        bnd (new_node process) (\<lambda>r.
        case r of
          None \<Rightarrow> ret (- 1)
        | Some n \<Rightarrow> bnd (append_node pchildren n) (\<lambda>_. ret 0)))"

text \<open>Deleting from the list that starts at \<open>h\<close>; the result is the new start.\<close>

definition delete_step :: "ptr \<Rightarrow> u16 \<Rightarrow> ptr \<times> ptr \<Rightarrow> ('z proc_state_scheme, ptr \<times> ptr + ptr) kop" where
  "delete_step h p = (\<lambda>(prev, temp).
     bnd (get_plist temp id) (\<lambda>t.
     if pl_next t \<noteq> NULL then
       bnd (get_pcb (pl_process t) pid) (\<lambda>q.
       if q = p then
         bnd (upd_plist prev (pl_next_update (\<lambda>_. pl_next t))) (\<lambda>_.
         bnd (modify (phys_mem_free temp)) (\<lambda>_. ret (Inr h)))
       else ret (Inl (temp, pl_next t)))
     else
       bnd (upd_plist prev (pl_next_update (\<lambda>_. NULL))) (\<lambda>_.
       bnd (modify (phys_mem_free temp)) (\<lambda>_. ret (Inr h)))))"

definition delete_node :: "ptr \<Rightarrow> ptr \<Rightarrow> ('z proc_state_scheme, ptr) kop" where
  "delete_node h process =
     bnd (get_plist h id) (\<lambda>t0.
     bnd (get_pcb (pl_process t0) pid) (\<lambda>p0.
     bnd (get_pcb process pid) (\<lambda>p.
     if p0 = p then bnd (modify (phys_mem_free h)) (\<lambda>_. ret (pl_next t0))
     else loopM (delete_step h p) (h, h))))"

definition delete_from_allproc :: "ptr \<Rightarrow> ('z proc_state_scheme, u32) kop" where
  "delete_from_allproc process =
     (if process = NULL then ret (- 1)
      else
        bnd (gets allproc) (\<lambda>h.
        if h = NULL then ret 0
        else bnd (delete_node h process) (\<lambda>h'. bnd (modify (allproc_update (\<lambda>_. h'))) (\<lambda>_. ret 0))))"

definition delete_from_zombproc :: "ptr \<Rightarrow> ('z proc_state_scheme, u32) kop" where
  "delete_from_zombproc process =
     (if process = NULL then ret (- 1)
      else
        bnd (gets zombproc) (\<lambda>h.
        if h = NULL then ret 0
        else bnd (delete_node h process) (\<lambda>h'. bnd (modify (zombproc_update (\<lambda>_. h'))) (\<lambda>_. ret 0))))"

definition get_process_descriptor_from_pid :: "u32 \<Rightarrow> ('z proc_state_scheme, ptr) kop" where
  "get_process_descriptor_from_pid i =
     bnd (gets allproc) (\<lambda>h.
     bnd (loopM (\<lambda>t.
       if t = NULL then ret (Inr NULL)
       else
         bnd (get_plist t id) (\<lambda>n.
         if pl_process n = NULL then ret (Inr NULL)
         else
           bnd (get_pcb (pl_process n) pid) (\<lambda>q.
           ret (if ucast q = i then Inr (pl_process n) else Inl (pl_next n))))) h) (\<lambda>p.
     if p = NULL then bnd (modify (kmsg ''process has already been killed\<newline>'')) (\<lambda>_. ret NULL) else ret p))"

section \<open>Fork\<close>

definition CLONE_VM :: u32 where
  "CLONE_VM = 0x00000100"

definition CLONE_FS :: u32 where
  "CLONE_FS = 0x00000200"

definition increment_refcount_of_file :: "ptr \<Rightarrow> ('z file_state_scheme, unit) kop" where
  "increment_refcount_of_file filp = upd_file filp (\<lambda>f. f\<lparr>f_refcount := f_refcount f + 1\<rparr>)"

text \<open>The last area copied is not set before the first round, which does not use it.\<close>

definition dup_mm :: "ptr \<Rightarrow> ptr \<Rightarrow> ('z proc_state_scheme, unit) kop" where
  "dup_mm mm old_mm =
     bnd (get_mm old_mm mm_vma) (\<lambda>old_vma.
     loopM (\<lambda>(v, last_v).
       if v = NULL then ret (Inr ())
       else
         bnd kalloc (\<lambda>tmp.
         bnd (get_vma v id) (\<lambda>a.
         bnd (upd_vma tmp (\<lambda>_. a)) (\<lambda>_.
         bnd (upd_vma tmp (vma_next_update (\<lambda>_. NULL))) (\<lambda>_.
         bnd (case last_v of
                None \<Rightarrow>
                  bnd (upd_vma tmp (vma_prev_update (\<lambda>_. NULL))) (\<lambda>_.
                  upd_mm mm (mm_vma_update (\<lambda>_. tmp)))
              | Some l \<Rightarrow>
                  bnd (upd_vma tmp (vma_prev_update (\<lambda>_. l))) (\<lambda>_.
                  upd_vma l (vma_next_update (\<lambda>_. tmp)))) (\<lambda>_.
         bnd (get_vma v vma_next) (\<lambda>nx.
         ret (Inl (nx, Some tmp))))))))) (old_vma, None))"

definition copy_mm :: "u32 \<Rightarrow> ptr \<Rightarrow> ptr \<Rightarrow> ('z file_state_scheme, unit) kop" where
  "copy_mm clone_flags child parent =
     bnd (get_pcb parent pcb_mm) (\<lambda>old_mm.
     if old_mm = NULL then ret ()
     else if clone_flags AND CLONE_VM \<noteq> 0 then upd_pcb child (pcb_mm_update (\<lambda>_. old_mm))
     else
       bnd kalloc (\<lambda>mm.
       bnd (get_mm old_mm id) (\<lambda>m.
       bnd (upd_mm mm (\<lambda>_. m)) (\<lambda>_.
       bnd (get_mm mm mm_file) (\<lambda>f.
       bnd (increment_refcount_of_file f) (\<lambda>_.
       bnd (dup_mm mm old_mm) (\<lambda>_.
       upd_pcb child (pcb_mm_update (\<lambda>_. mm)))))))))"

text \<open>The addresses of an area by pages; both loops over the areas of the parent use them.\<close>

definition area_low :: "vm_map_entry \<Rightarrow> u64" where
  "area_low a = (if end_addr a < start_addr a then end_addr a else start_addr a)"

definition area_high :: "vm_map_entry \<Rightarrow> u64" where
  "area_high a = (if end_addr a < start_addr a then start_addr a else end_addr a)"

definition protect_area :: "u64 \<Rightarrow> vm_map_entry \<Rightarrow> ('z virt_state_scheme, bool) kop" where
  "protect_area cr3 a =
     loopM (\<lambda>i.
       if i < area_high a then
         bnd (call (change_flags_in_parent_page_tables i cr3 (PRESENT OR USERSUPERVISOR))) (\<lambda>err.
         if sint err < 0 then
           bnd (modify (kmsg ''Problems where changing flags in parent page tables\<newline>'')) (\<lambda>_. ret (Inr False))
         else ret (Inl (i + 4096)))
       else ret (Inr True)) (area_low a)"

definition share_area :: "u64 \<Rightarrow> u64 \<Rightarrow> vm_map_entry \<Rightarrow> ('z virt_state_scheme, unit) kop" where
  "share_area parent_cr3 child_cr3 a =
     loopM (\<lambda>i.
       if i < area_high a then
         bnd (gets (walk_pml4 parent_cr3 i)) (\<lambda>p.
         bnd (if p = - 1 \<or> p = 0 then ret ()
              else
                bnd (modify (map_virtual_address_to_physical_address i p (ucast (PRESENT OR USERSUPERVISOR)) child_cr3 False)) (\<lambda>_.
                modify (increment_reference_count_of_page p))) (\<lambda>_.
         ret (Inl (i + 4096))))
       else ret (Inr ())) (area_low a)"

definition copy_vm :: "ptr \<Rightarrow> ptr \<Rightarrow> ('z proc_state_scheme, u32) kop" where
  "copy_vm child parent =
     bnd (get_pcb parent pcb_mm) (\<lambda>parent_mm.
     bnd (get_mm parent_mm id) (\<lambda>pm.
     bnd (get_pcb child pcb_mm) (\<lambda>child_mm.
     bnd (gets get_pml4) (\<lambda>k.
     bnd (call (copy_page_tables 4 k)) (\<lambda>c.
     bnd (upd_mm child_mm (mm_cr3_update (\<lambda>_. c))) (\<lambda>_.
     bnd (loopM (\<lambda>v.
       if v = NULL then ret (Inr True)
       else
         bnd (get_vma v id) (\<lambda>a.
         bnd (protect_area (mm_cr3 pm) a) (\<lambda>done.
         ret (if done then Inl (vma_next a) else Inr False)))) (mm_vma pm)) (\<lambda>done.
     if \<not> done then ret (- 1)
     else
       bnd (get_mm parent_mm mm_vma) (\<lambda>h.
       bnd (loopM (\<lambda>v.
         if v = NULL then ret (Inr ())
         else
           bnd (get_vma v id) (\<lambda>a.
           bnd (get_mm parent_mm mm_cr3) (\<lambda>pc.
           bnd (get_mm child_mm mm_cr3) (\<lambda>cc.
           bnd (share_area pc cc a) (\<lambda>_.
           ret (Inl (vma_next a))))))) h) (\<lambda>_.
       ret 0)))))))))"

text \<open>
  The frame the child is switched to: seven words below the saved registers, of which the sixth and
  seventh are \<^verbatim>\<open>rbp\<close> and the return address.
\<close>

definition frame_r12 :: "ptr \<Rightarrow> ptr" where
  "frame_r12 f = f + 24"

definition frame_rbx :: "ptr \<Rightarrow> ptr" where
  "frame_rbx f = f + 32"

definition frame_ret_addr :: "ptr \<Rightarrow> ptr" where
  "frame_ret_addr f = f + 48"

definition copy_thread :: "u64 \<Rightarrow> ptr \<Rightarrow> ptr \<Rightarrow> u64 \<Rightarrow> u64 \<Rightarrow> ('z proc_state_scheme, unit) kop" where
  "copy_thread ret_from_fork child parent stack_start stack_size =
     bnd (call phys_mem_alloc) (\<lambda>a.
     bnd (gets is_paging) (\<lambda>pg.
     let k = (if pg \<noteq> 0 then a OR KERNBASE else a) in
     bnd (upd_pcb child (kstack_update (\<lambda>_. k))) (\<lambda>_.
     bnd (modify (clear_table k)) (\<lambda>_.
     bnd (get_pcb parent kstack) (\<lambda>pk.
     bnd (deref pk (deref k (modify (copy_words 512 k pk)))) (\<lambda>_.
     bnd (upd_pcb child (esp0_update (\<lambda>_. k + PAGE_BLOCK_SIZE))) (\<lambda>_.
     bnd (task_reg_list child) (\<lambda>childregs.
     let frame = childregs - 56 in
     bnd (modify (copy_words 21 (frame + 56) childregs)) (\<lambda>_.
     bnd (modify (set_kword (frame_ret_addr frame) ret_from_fork)) (\<lambda>_.
     bnd (upd_pcb child (rsp_update (\<lambda>_. frame))) (\<lambda>_.
     bnd (get_pcb child pcb_flags) (\<lambda>fl.
     if fl = PF_KTHREAD then
       bnd (modify (zero_words 21 childregs)) (\<lambda>_.
       bnd (modify (set_kword (frame_rbx frame) stack_start)) (\<lambda>_.
       modify (set_kword (frame_r12 frame) stack_size)))
     else
       bnd (modify (set_kword (frame_rbx frame) 0)) (\<lambda>_.
       bnd (task_reg_list parent) (\<lambda>parentregs.
       bnd (modify (copy_words 21 childregs parentregs)) (\<lambda>_.
       bnd (modify (set_reg childregs reg_rax 0)) (\<lambda>_.
       if stack_start \<noteq> 0 then modify (set_reg childregs reg_sp stack_start) else ret ()))))))))))))))))"

text \<open>The descriptors of the parent up to the first that is not open.\<close>

definition inherit_fds :: "ptr list \<Rightarrow> ptr list \<Rightarrow> ptr list" where
  "inherit_fds pt ct = takeWhile (\<lambda>f. f \<noteq> NULL) pt @ drop (length (takeWhile (\<lambda>f. f \<noteq> NULL) pt)) ct"

text \<open>The list of children: the loop moves the parent's pointer to the end of its own list.\<close>

definition add_child :: "ptr \<Rightarrow> ptr \<Rightarrow> ('z proc_state_scheme, unit) kop" where
  "add_child parent child =
     bnd (loopM (\<lambda>_ :: unit.
       bnd (get_pcb parent cptr) (\<lambda>c.
       if c \<noteq> NULL then
         bnd (get_plist c pl_next) (\<lambda>n.
         bnd (upd_pcb parent (cptr_update (\<lambda>_. n))) (\<lambda>_. ret (Inl ())))
       else ret (Inr ()))) ()) (\<lambda>_.
     bnd kalloc (\<lambda>n.
     bnd (upd_pcb parent (cptr_update (\<lambda>_. n))) (\<lambda>_.
     upd_plist n (\<lambda>_. \<lparr>pl_process = child, pl_next = NULL\<rparr>))))"

definition inherit_strings :: "u32 \<Rightarrow> ptr \<Rightarrow> ptr \<Rightarrow> ('z proc_state_scheme, unit) kop" where
  "inherit_strings clone_flags child parent =
     bnd (get_pcb child command) (\<lambda>c.
     bnd (if c = NULL then
            bnd kalloc (\<lambda>p.
            bnd (upd_pcb child (command_update (\<lambda>_. p))) (\<lambda>_.
            my_memset p 0 PAGE_BLOCK_SIZE))
          else ret ()) (\<lambda>_.
     bnd (get_pcb child command) (\<lambda>cc.
     bnd (get_pcb parent command) (\<lambda>pc.
     bnd (strlen_int pc) (\<lambda>n.
     bnd (my_memcpy cc pc (n + 1)) (\<lambda>_.
     bnd (get_pcb child cwd) (\<lambda>w.
     bnd (if w = NULL then
            bnd kalloc (\<lambda>p.
            bnd (upd_pcb child (cwd_update (\<lambda>_. p))) (\<lambda>_.
            my_memset p 0 PAGE_BLOCK_SIZE))
          else ret ()) (\<lambda>_.
     bnd (get_pcb child cwd) (\<lambda>cw.
     if clone_flags AND CLONE_FS \<noteq> 0 then my_memcpy_literal cw (bytes_of ''/'')
     else
       bnd (get_pcb parent cwd) (\<lambda>pw.
       bnd (strlen_int pw) (\<lambda>m.
       my_memcpy cw pw m)))))))))))"

definition do_fork :: "u64 \<Rightarrow> u32 \<Rightarrow> u64 \<Rightarrow> u64 \<Rightarrow> ('z file_state_scheme, u32) kop" where
  "do_fork ret_from_fork clone_flags stack_start stack_size =
     bnd (call phys_mem_alloc) (\<lambda>a.
     bnd (gets is_paging) (\<lambda>pg.
     let child = (if pg \<noteq> 0 then a OR KERNBASE else a) in
     bnd (upd_pcb child (\<lambda>_. zero_pcb)) (\<lambda>_.
     bnd get_current_process (\<lambda>parent.
     bnd (upd_pcb child (\<lambda>c. c\<lparr>process_state := NEW, on_rq := 0\<rparr>)) (\<lambda>_.
     bnd (get_pcb parent pcb_fd) (\<lambda>pt.
     bnd (upd_pcb child (\<lambda>c. c\<lparr>pcb_fd := inherit_fds pt (pcb_fd c)\<rparr>)) (\<lambda>_.
     bnd (add_child parent child) (\<lambda>_.
     bnd (upd_pcb child (\<lambda>c. c\<lparr>pptr := parent, time_slice := TIME_SLICE\<rparr>)) (\<lambda>_.
     bnd (inherit_strings clone_flags child parent) (\<lambda>_.
     bnd (copy_mm clone_flags child parent) (\<lambda>_.
     bnd (if clone_flags AND CLONE_VM = 0 then copy_vm child parent else ret 0) (\<lambda>err.
     if sint err < 0 then ret (- 1)
     else
       bnd (upd_pcb child (pcb_flags_update (\<lambda>_. if clone_flags AND CLONE_VM \<noteq> 0 then PF_KTHREAD else PF_UTHREAD))) (\<lambda>_.
       bnd (copy_thread ret_from_fork child parent stack_start stack_size) (\<lambda>_.
       bnd (upd_pcb child (\<lambda>c. c\<lparr>process_state := NORMAL, thread_state := RUNNING\<rparr>)) (\<lambda>_.
       bnd get_pid (\<lambda>i.
       bnd (upd_pcb child (pid_update (\<lambda>_. i))) (\<lambda>_.
       bnd (insert_allproc child) (\<lambda>err.
       if sint err < 0 then ret (- 1)
       else
         bnd (add_process_to_queue run_queue child) (\<lambda>_.
         bnd (upd_pcb child (on_rq_update (\<lambda>_. 1))) (\<lambda>_.
         bnd (get_pcb child pid) (\<lambda>i. ret (ucast i))))))))))))))))))))))"

definition SIGCHLD :: u32 where
  "SIGCHLD = 17"

definition sys_fork :: "u64 \<Rightarrow> ('z file_state_scheme, u32) kop" where
  "sys_fork ret_from_fork = do_fork ret_from_fork SIGCHLD 0 0"

section \<open>Running a program\<close>

definition switch_to_user_cr3 :: "('z proc_state_scheme, unit) kop" where
  "switch_to_user_cr3 =
     bnd get_current_process (\<lambda>c.
     bnd (get_pcb c pcb_mm) (\<lambda>mm.
     bnd (get_mm mm mm_cr3) (\<lambda>r. modify (set_pml4 r))))"

text \<open>The test for a failed allocation comes after the kernel base was added, and never succeeds.\<close>

definition mm_init :: "ptr \<Rightarrow> ('z proc_state_scheme, unit) kop" where
  "mm_init proc =
     bnd kalloc (\<lambda>mm.
     bnd (upd_mm mm (\<lambda>_. zero_mm)) (\<lambda>_.
     bnd (upd_mm mm (mm_exec_update (\<lambda>_. 0))) (\<lambda>_.
     bnd (gets get_pml4) (\<lambda>k.
     bnd (call (copy_page_tables 4 k)) (\<lambda>c.
     bnd (upd_mm mm (mm_cr3_update (\<lambda>_. c))) (\<lambda>_.
     if mm = NULL then modify (phys_mem_free mm)
     else upd_pcb proc (pcb_mm_update (\<lambda>_. mm))))))))"

text \<open>The bytes of the name are copied without the NUL that ends it.\<close>

definition getname :: "ptr \<Rightarrow> ('z util_state_scheme, ptr) kop" where
  "getname filename =
     bnd kalloc (\<lambda>path.
     bnd (strlen_int filename) (\<lambda>n.
     bnd (my_memcpy path filename n) (\<lambda>_.
     ret path)))"

definition start_thread :: "ptr \<Rightarrow> u64 \<Rightarrow> u64 \<Rightarrow> 'z virt_state_scheme \<Rightarrow> 'z virt_state_scheme" where
  "start_thread regs user_rsp user_rip s =
     set_reg regs reg_rflags (push_bit 9 1)
       (set_reg regs reg_ss 0x23
         (set_reg regs reg_cs 0x2B
           (set_reg regs reg_sp user_rsp
             (set_reg regs reg_rip user_rip s))))"

definition O_RDONLY :: u32 where
  "O_RDONLY = 0"

definition do_execve :: "ptr \<Rightarrow> ptr \<Rightarrow> ptr \<Rightarrow> ('z file_state_scheme, u32) kop" where
  "do_execve filename argv envp =
     bnd get_current_process (\<lambda>proc.
     bnd (getname filename) (\<lambda>pathname.
     bnd (do_open_exec pathname O_RDONLY 0) (\<lambda>fp.
     bnd kalloc (\<lambda>buf.
     bnd (get_pcb proc command) (\<lambda>c.
     bnd (if c \<noteq> NULL then
            bnd (my_memset c 0 PAGE_BLOCK_SIZE) (\<lambda>_.
            bnd (strlen_int filename) (\<lambda>n.
            my_memcpy c filename (n + 1)))
          else ret ()) (\<lambda>_.
     bnd (mm_init proc) (\<lambda>_.
     bnd (get_pcb proc pcb_mm) (\<lambda>mm.
     bnd (upd_mm mm (mm_file_update (\<lambda>_. fp))) (\<lambda>_.
     bnd (load_elf_binary mm) (\<lambda>e1.
     if sint e1 < 0 then bnd (modify (phys_mem_free buf)) (\<lambda>_. ret (- 1))
     else
       bnd (do_heap_vma mm) (\<lambda>e2.
       if sint e2 < 0 then bnd (modify (phys_mem_free buf)) (\<lambda>_. ret (- 1))
       else
         bnd (do_stack_vma mm argv envp) (\<lambda>e3.
         if sint e3 < 0 then bnd (modify (phys_mem_free buf)) (\<lambda>_. ret (- 1))
         else
           bnd (task_reg_list proc) (\<lambda>registers.
           bnd (get_mm mm id) (\<lambda>m.
           bnd (modify (start_thread registers (mm_exec m) (mm_rip m))) (\<lambda>_.
           ret 0)))))))))))))))"

definition sys_execve :: "ptr \<Rightarrow> ptr \<Rightarrow> ptr \<Rightarrow> ('z file_state_scheme, u32) kop" where
  "sys_execve filename argv envp = bnd (getname filename) (\<lambda>pathname. do_execve pathname argv envp)"

section \<open>Exit\<close>

definition reparent_process_to_init :: "ptr \<Rightarrow> ('z proc_state_scheme, unit) kop" where
  "reparent_process_to_init process =
     bnd (gets allproc) (\<lambda>h.
     bnd (if h = NULL then modify (kmsg ''init task undefined\<newline>'') else ret ()) (\<lambda>_.
     bnd (get_plist h pl_process) (\<lambda>init_task.
     bnd (upd_pcb process (pptr_update (\<lambda>_. init_task))) (\<lambda>_.
     bnd (get_pcb init_task cptr) (\<lambda>c.
     bnd (insert_into_pchildren c process) (\<lambda>err.
     if sint err < 0 then modify (kmsg ''undefined error while reparenting process to init\<newline>'') else ret ()))))))"

definition exit_notify :: "ptr \<Rightarrow> ('z proc_state_scheme, unit) kop" where
  "exit_notify process =
     bnd (get_pcb process pptr) (\<lambda>p. if p \<noteq> NULL then try_to_wake_up waiting_queue p else ret ())"

text \<open>Only descriptors of files that have no reference left are closed.\<close>

definition exit_files :: "ptr \<Rightarrow> ('z file_state_scheme, u32) kop" where
  "exit_files proc =
     loopM (\<lambda>i.
       bnd (get_fd proc i) (\<lambda>fp.
       if fp \<noteq> NULL then
         bnd (get_file fp f_refcount) (\<lambda>n.
         bnd (if n \<le> 0 then bnd (sys_close i) (\<lambda>_. set_fd proc i NULL) else ret ()) (\<lambda>_.
         ret (Inl (i + 1))))
       else ret (Inr 1))) 0"

definition exit_vmmaps :: "ptr \<Rightarrow> ptr \<Rightarrow> ('z file_state_scheme, u32) kop" where
  "exit_vmmaps process mm =
     bnd (get_mm mm mm_vma) (\<lambda>vmas.
     bnd (free_vmas mm vmas) (\<lambda>_.
     bnd (upd_mm mm (mm_vma_update (\<lambda>_. NULL))) (\<lambda>_.
     bnd (get_mm mm mm_cr3) (\<lambda>c.
     bnd (modify (free_page_range 4 c)) (\<lambda>_.
     ret 1)))))"

text \<open>The two loops of \<open>sys_exit\<close>: over the children, and over the list of all processes.\<close>

definition reparent_children :: "ptr \<Rightarrow> ('z proc_state_scheme, unit) kop" where
  "reparent_children =
     loopM (\<lambda>c. if c = NULL then ret (Inr ())
       else
         bnd (get_plist c pl_process) (\<lambda>p.
         bnd (reparent_process_to_init p) (\<lambda>_.
         bnd (get_plist c pl_next) (\<lambda>n.
         ret (Inl n)))))"

definition move_to_zombproc :: "ptr \<Rightarrow> ('z proc_state_scheme, unit) kop" where
  "move_to_zombproc proc =
     bnd (gets allproc) (loopM (\<lambda>t. if t = NULL then ret (Inr ())
       else
         bnd (get_plist t pl_process) (\<lambda>q.
         bnd (get_pcb q pid) (\<lambda>i.
         bnd (get_pcb proc pid) (\<lambda>j.
         bnd (if i = j then bnd (delete_from_allproc proc) (\<lambda>_. bnd (insert_zombproc proc) (\<lambda>_. ret ()))
              else ret ()) (\<lambda>_.
         bnd (get_plist t pl_next) (\<lambda>n.
         ret (Inl n))))))))"

text \<open>
  The result tells whether the caller goes on: \<open>True\<close> when \<open>schedule\<close> returned without a switch to
  another process.
\<close>

definition reschedule :: "('z proc_state_scheme, bool) kop" where
  "reschedule = bnd get_current_process (\<lambda>p. bnd schedule (\<lambda>_. gets (\<lambda>s. current s = p)))"

definition sys_exit :: "u32 \<Rightarrow> ('z file_state_scheme, unit option) kop" where
  "sys_exit status =
     bnd get_current_process (\<lambda>proc.
     bnd (get_pcb proc pid) (\<lambda>i.
     if i = 0 then bnd (modify (kmsg ''Attempt to kill idle task\<newline>'')) (\<lambda>_. ret (Some ()))
     else
       bnd (get_pcb proc cptr) (\<lambda>childlist.
       bnd (reparent_children childlist) (\<lambda>_.
       bnd (exit_files proc) (\<lambda>_.
       bnd (get_pcb proc pcb_mm) (\<lambda>mm.
       bnd (exit_vmmaps proc mm) (\<lambda>err.
       if sint err < 0 then ret (Some ())
       else
         bnd (move_to_zombproc proc) (\<lambda>_.
         bnd (upd_pcb proc (\<lambda>p. p\<lparr>process_exit_status := status, process_state := ZOMBIE, thread_state := STOPPED\<rparr>)) (\<lambda>_.
         bnd (exit_notify proc) (\<lambda>_.
         bnd reschedule (\<lambda>b. ret (if b then Some () else None))))))))))))"

section \<open>Wait\<close>

definition release_task :: "ptr \<Rightarrow> ('z proc_state_scheme, unit) kop" where
  "release_task dead_task =
     bnd (get_pcb dead_task kstack) (\<lambda>k.
     bnd (modify (phys_mem_free k)) (\<lambda>_.
     modify (phys_mem_free dead_task)))"

definition do_wait_thread :: "ptr \<Rightarrow> ('z proc_state_scheme, u32) kop" where
  "do_wait_thread child =
     bnd (get_pcb child process_state) (\<lambda>ps.
     bnd (get_pcb child thread_state) (\<lambda>ts.
     if ps = DEAD \<and> ts = STOPPED then ret 0
     else if ps = ZOMBIE \<and> ts = STOPPED then
       bnd (upd_pcb child (process_state_update (\<lambda>_. DEAD))) (\<lambda>_.
       bnd (get_pcb child pid) (\<lambda>i.
       bnd (delete_from_zombproc child) (\<lambda>_.
       bnd (release_task child) (\<lambda>_.
       ret (ucast i)))))
     else ret 0))"

definition store32 :: "ptr \<Rightarrow> u32 \<Rightarrow> ('z util_state_scheme, unit) kop" where
  "store32 p w = for_each [0..<4] (\<lambda>i. store (p + of_nat i) (ucast (drop_bit (8 * i) w)))"

text \<open>One pass over the children; 0 when none has ended.\<close>

definition wait_pass :: "ptr \<Rightarrow> ptr \<Rightarrow> ('z proc_state_scheme, u32) kop" where
  "wait_pass proc status =
     bnd (get_pcb proc cptr) (loopM (\<lambda>c.
       bnd (get_plist c pl_process) (\<lambda>child.
       bnd (do_wait_thread child) (\<lambda>retval.
       if retval \<noteq> 0 then
         bnd (upd_pcb proc (\<lambda>p. p\<lparr>process_state := NORMAL, thread_state := RUNNING\<rparr>)) (\<lambda>_.
         bnd (get_pcb child process_exit_status) (\<lambda>x.
         bnd (store32 status x) (\<lambda>_.
         bnd (kprintf ''successful exit with retval: %d\<newline>'' [VInt retval]) (\<lambda>_.
         ret (Inr retval)))))
       else
         bnd (get_plist c pl_next) (\<lambda>n.
         ret (if n \<noteq> NULL then Inl n else Inr 0))))))"

definition wait_loop :: "ptr \<Rightarrow> ptr \<Rightarrow> ('z proc_state_scheme, u32 option) kop" where
  "wait_loop proc status =
     loopM (\<lambda>_ :: unit.
       bnd (wait_pass proc status) (\<lambda>r.
       if r \<noteq> 0 then ret (Inr (Some r))
       else bnd reschedule (\<lambda>b. ret (if b then Inl () else Inr None)))) ()"

definition sys_wait :: "ptr \<Rightarrow> ('z proc_state_scheme, u32 option) kop" where
  "sys_wait status =
     bnd get_current_process (\<lambda>proc.
     bnd (get_pcb proc cptr) (\<lambda>c.
     if c = NULL then ret (Some (- 1))
     else
       bnd (upd_pcb proc (\<lambda>p. p\<lparr>process_state := NORMAL, thread_state := WAITING\<rparr>)) (\<lambda>_.
       wait_loop proc status)))"

definition sys_wait_resumed :: "ptr \<Rightarrow> ptr \<Rightarrow> ('z proc_state_scheme, u32 option) kop" where
  "sys_wait_resumed proc status = wait_loop proc status"

section \<open>The table of processes\<close>

text \<open>The record of one process in the caller's buffer.\<close>

definition put_process :: "ptr \<Rightarrow> ptr \<Rightarrow> ('z proc_state_scheme, unit) kop" where
  "put_process dest process =
     bnd (get_pcb process pid) (\<lambda>i.
     bnd (itoa (ucast i)) (\<lambda>p1.
     bnd (strlen_int p1) (\<lambda>n1.
     bnd (my_memcpy dest p1 (n1 + 1)) (\<lambda>_.
     bnd (get_pcb process pptr) (\<lambda>q.
     bnd (get_pcb q pid) (\<lambda>j.
     bnd (itoa (ucast j)) (\<lambda>p2.
     bnd (strlen_int p2) (\<lambda>n2.
     bnd (my_memcpy (dest + 6) p2 (n2 + 1)) (\<lambda>_.
     bnd (get_pcb process command) (\<lambda>c.
     bnd (strlen_int c) (\<lambda>n3.
     my_memcpy (dest + 12) c (n3 + 1))))))))))))"

text \<open>
  A loop over one of the lists: \<open>Inl\<close> the number of bytes written, or \<open>Inr\<close> when the buffer is full.
\<close>

definition put_list :: "ptr \<Rightarrow> u64 \<Rightarrow> ptr \<Rightarrow> u32 \<Rightarrow> ('z proc_state_scheme, u32 + u32) kop" where
  "put_list buf sz h n_written =
     loopM (\<lambda>(t, n).
       if t = NULL then ret (Inr (Inl n))
       else
         bnd (get_plist t id) (\<lambda>e.
         if pl_process e = NULL then ret (Inr (Inl n))
         else if sz < scast n then
           bnd (modify (kmsg ''size is full\<newline>'')) (\<lambda>_. ret (Inr (Inr (ucast sz))))
         else
           bnd (put_process (buf + scast n) (pl_process e)) (\<lambda>_.
           bnd (get_plist t pl_next) (\<lambda>nx.
           ret (Inl (nx, n + 32)))))) (h, n_written)"

definition sys_getprocs64 :: "ptr \<Rightarrow> u64 \<Rightarrow> ('z proc_state_scheme, u32) kop" where
  "sys_getprocs64 buf sz =
     bnd (my_memset buf 0 sz) (\<lambda>_.
     bnd get_current_process (\<lambda>proc.
     bnd (get_pcb proc pcb_mm) (\<lambda>mm.
     bnd (is_userspace_access_valid mm buf sz VERIFY_WRITE) (\<lambda>v.
     if v = 0 then ret (- 1)
     else
       bnd (gets allproc) (\<lambda>ah.
       bnd (gets zombproc) (\<lambda>zh.
       bnd (put_list buf sz ah 0) (\<lambda>r.
       case r of
         Inr full \<Rightarrow> ret full
       | Inl n \<Rightarrow>
           bnd (if zh = NULL then bnd (get_plist zh pl_process) (\<lambda>p. ret (p = NULL)) else ret False) (\<lambda>stop.
           if stop then ret n
           else
             bnd (put_list buf sz zh n) (\<lambda>r.
             case r of Inr full \<Rightarrow> ret full | Inl n \<Rightarrow> ret n)))))))))"

section \<open>The lists of processes as lists\<close>

definition next_node :: "'z proc_state_scheme \<Rightarrow> ptr \<Rightarrow> ptr" where
  "next_node s n = pl_next (plist_at s n)"

definition node_pid :: "'z proc_state_scheme \<Rightarrow> ptr \<Rightarrow> u16" where
  "node_pid s n = pid (pcb_at s (pl_process (plist_at s n)))"

text \<open>\<open>proc_list_of s h ns\<close>: the nodes from \<open>h\<close> on, each of which has a process.\<close>

definition proc_list_of :: "'z proc_state_scheme \<Rightarrow> ptr \<Rightarrow> ptr list \<Rightarrow> bool" where
  "proc_list_of s h ns \<longleftrightarrow> llist (next_node s) h ns \<and> (\<forall>n\<in>set ns. pl_process (plist_at s n) \<noteq> NULL)"

text \<open>What deleting leaves of a list: without the first node that matches, or without the last one when none matches.\<close>

fun drop_match :: "('a \<Rightarrow> bool) \<Rightarrow> 'a list \<Rightarrow> 'a list" where
  "drop_match P (y # z # zs) = (if P y then z # zs else y # drop_match P (z # zs))"
| "drop_match P ys = []"

fun without_match :: "('a \<Rightarrow> bool) \<Rightarrow> 'a list \<Rightarrow> 'a list" where
  "without_match P (x # xs) = (if P x then xs else x # drop_match P xs)"
| "without_match P [] = []"

lemma set_drop_match: "set (drop_match P xs) \<subseteq> set xs"
  by (induction P xs rule: drop_match.induct) auto

text \<open>The state after the successor \<open>y\<close> of node \<open>x\<close> was unlinked and given back.\<close>

definition unlinked :: "ptr \<Rightarrow> ptr \<Rightarrow> 'z proc_state_scheme \<Rightarrow> 'z proc_state_scheme" where
  "unlinked x y s = phys_mem_free y (s\<lparr>plist_at := (plist_at s)(x := (plist_at s x)\<lparr>pl_next := next_node s y\<rparr>)\<rparr>)"

lemma unlinked_fields [simp]:
  "next_node (unlinked x y s) = (next_node s)(x := next_node s y)" "pcb_at (unlinked x y s) = pcb_at s"
  "pl_process (plist_at (unlinked x y s) n) = pl_process (plist_at s n)"
  "allproc (unlinked x y s) = allproc s" "zombproc (unlinked x y s) = zombproc s"
  by (auto simp: unlinked_def next_node_def fun_eq_iff)

lemma proc_list_unlinked:
  "proc_list_of s h (xs @ x # y # ys) \<Longrightarrow> proc_list_of (unlinked x y s) h (xs @ x # ys)"
  using llist_unlink [of "next_node s" h xs x y ys] by (auto simp: proc_list_of_def)

lemma delete_step_run:
  assumes "x \<noteq> NULL" "y \<noteq> NULL" "pl_process (plist_at s y) \<noteq> NULL"
  shows "delete_step h p (x, y) s =
    (if next_node s y \<noteq> NULL \<and> node_pid s y \<noteq> p then Ok (Inl (y, next_node s y), s) else Ok (Inr h, unlinked x y s))"
  using assms by (simp add: delete_step_def unlinked_def next_node_def node_pid_def)

definition same_processes :: "'z proc_state_scheme \<Rightarrow> 'z proc_state_scheme \<Rightarrow> bool" where
  "same_processes s t \<longleftrightarrow> pcb_at t = pcb_at s \<and> (\<forall>n. pl_process (plist_at t n) = pl_process (plist_at s n)) \<and>
     allproc t = allproc s \<and> zombproc t = zombproc s"

lemma delete_loop:
  assumes "proc_list_of s h (xs @ x # y # ys)"
  shows "\<exists>t. loopM (delete_step h p) (x, y) s = Ok (h, t) \<and>
    proc_list_of t h (xs @ x # drop_match (\<lambda>n. node_pid s n = p) (y # ys)) \<and> same_processes s t"
  using assms
proof (induction ys arbitrary: xs x y)
  case (Nil xs x y)
  then have "x \<noteq> NULL" "y \<noteq> NULL" "pl_process (plist_at s y) \<noteq> NULL" "next_node s y = NULL"
    by (auto simp: proc_list_of_def lseg_append)
  with proc_list_unlinked [OF Nil] show ?case
    by (simp add: loopM_exit delete_step_run same_processes_def)
next
  case (Cons z zs xs x y)
  then have n: "x \<noteq> NULL" "y \<noteq> NULL" "pl_process (plist_at s y) \<noteq> NULL" "next_node s y = z" "z \<noteq> NULL"
    by (auto simp: proc_list_of_def lseg_append)
  show ?case
  proof (cases "node_pid s y = p")
    case True
    with n proc_list_unlinked [OF Cons.prems] show ?thesis
      by (simp add: loopM_exit delete_step_run same_processes_def)
  next
    case False
    then have "loopM (delete_step h p) (x, y) s = loopM (delete_step h p) (y, z) s"
      using n by (intro loopM_continue) (simp add: delete_step_run)
    with Cons.IH [of "xs @ [x]" y z] Cons.prems False show ?thesis by simp
  qed
qed

lemma delete_node_run:
  assumes "proc_list_of s h (x # xs)" "p \<noteq> NULL"
  shows "\<exists>h' t. delete_node h p s = Ok (h', t) \<and>
    proc_list_of t h' (without_match (\<lambda>n. node_pid s n = pid (pcb_at s p)) (x # xs)) \<and> same_processes s t"
proof -
  have h: "h = x" "x \<noteq> NULL" "pl_process (plist_at s x) \<noteq> NULL" using assms(1) by (auto simp: proc_list_of_def)
  show ?thesis
  proof (cases "node_pid s x = pid (pcb_at s p)")
    case True
    moreover have "proc_list_of (phys_mem_free x s) (next_node s x) xs"
      using assms(1) by (auto simp: proc_list_of_def next_node_def cong: lseg_cong)
    ultimately show ?thesis
      using h assms(2) by (auto simp: delete_node_def node_pid_def next_node_def same_processes_def)
  next
    case False
    then have run: "delete_node x p s = loopM (delete_step x (pid (pcb_at s p))) (x, x) s"
      using h assms(2) by (simp add: delete_node_def node_pid_def)
    show ?thesis
    proof (cases xs)
      case Nil
      then have "next_node s x = NULL" using assms(1) h by (simp add: proc_list_of_def)
      moreover have "proc_list_of (unlinked x x s) x [x]"
        using h \<open>next_node s x = NULL\<close> by (simp add: proc_list_of_def)
      ultimately show ?thesis
        using False h Nil by (simp add: run loopM_exit delete_step_run same_processes_def)
    next
      case (Cons y ys)
      then have "next_node s x = y" "y \<noteq> NULL" using assms(1) h by (auto simp: proc_list_of_def)
      then have "loopM (delete_step x (pid (pcb_at s p))) (x, x) s = loopM (delete_step x (pid (pcb_at s p))) (x, y) s"
        using h False by (intro loopM_continue) (simp add: delete_step_run)
      with delete_loop [of s h "[]" x y ys "pid (pcb_at s p)"] assms(1) h False Cons show ?thesis
        by (auto simp: run)
    qed
  qed
qed

text \<open>Appending, and looking a process up by its pid.\<close>

lemma last_node_run:
  assumes "llist (next_node s) h (xs @ [x])"
  shows "last_node h s = Ok (x, s)"
  using assms
proof (induction xs arbitrary: h)
  case Nil
  then have "bnd (get_plist h pl_next) (\<lambda>n. ret (if n \<noteq> NULL then Inl n else Inr h)) s = Ok (Inr x, s)"
    by (simp add: next_node_def)
  then show ?case unfolding last_node_def by (rule loopM_exit)
next
  case (Cons y ys)
  then have l: "h = y" "y \<noteq> NULL" "llist (next_node s) (next_node s y) (ys @ [x])" by auto
  then have "next_node s y \<noteq> NULL" by (cases ys) auto
  then have "bnd (get_plist h pl_next) (\<lambda>n. ret (if n \<noteq> NULL then Inl n else Inr h)) s = Ok (Inl (next_node s y), s)"
    using l by (simp add: next_node_def)
  with Cons.IH [OF l(3)] show ?case unfolding last_node_def by (simp add: loopM_continue)
qed

lemma append_node_run:
  assumes "llist (next_node s) h ns" "n \<noteq> NULL" "n \<notin> set ns" "next_node s n = NULL"
  shows "\<exists>h' t. append_node h n s = Ok (h', t) \<and> llist (next_node t) h' (ns @ [n]) \<and>
    pcb_at t = pcb_at s \<and> (\<forall>m. pl_process (plist_at t m) = pl_process (plist_at s m))"
proof (cases ns rule: rev_cases)
  case Nil
  with assms show ?thesis by (simp add: append_node_def)
next
  case (snoc xs x)
  let ?t = "s\<lparr>plist_at := (plist_at s)(x := (plist_at s x)\<lparr>pl_next := n\<rparr>)\<rparr>"
  have "h \<noteq> NULL" "x \<noteq> NULL"
    using llist_head_iff [OF assms(1)] lseg_nonNULL [OF assms(1)] snoc by auto
  then have "append_node h n s = Ok (h, ?t)"
    using last_node_run [of s h xs x] assms(1) snoc by (simp add: append_node_def bnd_Ok)
  moreover have "next_node ?t = (next_node s)(x := n, n := NULL)"
    using assms(3,4) snoc by (auto simp: next_node_def fun_eq_iff)
  ultimately show ?thesis
    using llist_snoc [of "next_node s" h xs x n] assms snoc by auto
qed

lemma insert_allproc_run:
  assumes "proc_list_of s (allproc s) ns" "p \<noteq> NULL" "fst (phys_mem_alloc s) \<noteq> NULL"
    and "n = fst (phys_mem_alloc s) OR KERNBASE" "n \<notin> set ns"
  shows "\<exists>t. insert_allproc p s = Ok (0, t) \<and> proc_list_of t (allproc t) (ns @ [n]) \<and> pcb_at t = pcb_at s \<and>
    pl_process (plist_at t n) = p \<and> (\<forall>m\<in>set ns. pl_process (plist_at t m) = pl_process (plist_at s m))"
proof -
  have n: "n \<noteq> NULL" using assms(4) by simp
  define u where "u = (snd (phys_mem_alloc s))\<lparr>plist_at := (plist_at s)(n := \<lparr>pl_process = p, pl_next = NULL\<rparr>)\<rparr>"
  have u: "next_node u = (next_node s)(n := NULL)" "pcb_at u = pcb_at s" "allproc u = allproc s"
    by (auto simp: u_def next_node_def fun_eq_iff)
  have new: "new_node p s = Ok (Some n, u)"
    using assms(3) n by (simp add: new_node_def u_def assms(4) bnd_call)
  have "llist (next_node u) (allproc u) ns"
    using assms(1,5) lseg_cong [of ns "next_node u" "next_node s" "allproc s" NULL]
    by (auto simp: u proc_list_of_def)
  from append_node_run [OF this n assms(5)] obtain h' t where t:
    "append_node (allproc u) n u = Ok (h', t)" "llist (next_node t) h' (ns @ [n])" "pcb_at t = pcb_at s"
    "\<forall>m. pl_process (plist_at t m) = pl_process (plist_at u m)" by (auto simp: u)
  have "insert_allproc p s = Ok (0, t\<lparr>allproc := h'\<rparr>)"
    using new t(1) assms(2) by (simp add: insert_allproc_def bnd_Ok)
  moreover have "next_node (t\<lparr>allproc := h'\<rparr>) = next_node t" by (simp add: next_node_def fun_eq_iff)
  moreover have "pl_process (plist_at u n) = p" "\<forall>m\<in>set ns. pl_process (plist_at u m) = pl_process (plist_at s m)"
    using assms(5) by (auto simp: u_def)
  ultimately show ?thesis using t assms(1,2) by (auto simp: proc_list_of_def)
qed

lemma get_process_descriptor_from_pid_run:
  assumes "proc_list_of s (allproc s) ns" "find (\<lambda>n. ucast (node_pid s n) = i) ns = Some n"
  shows "get_process_descriptor_from_pid i s = Ok (pl_process (plist_at s n), s)"
proof -
  have l: "llist (next_node s) (allproc s) ns" "\<forall>m\<in>set ns. pl_process (plist_at s m) \<noteq> NULL"
    using assms(1) by (auto simp: proc_list_of_def)
  have "n \<in> set ns" using assms(2) by (auto simp: find_Some_iff)
  moreover have "loopM (\<lambda>t. if t = NULL then ret (Inr NULL)
       else bnd (get_plist t id) (\<lambda>n. if pl_process n = NULL then ret (Inr NULL)
         else bnd (get_pcb (pl_process n) pid) (\<lambda>q. ret (if ucast q = i then Inr (pl_process n) else Inl (pl_next n)))))
       (allproc s) s =
     Ok (case find (\<lambda>n. ucast (node_pid s n) = i) ns of None \<Rightarrow> NULL | Some n \<Rightarrow> pl_process (plist_at s n), s)"
    by (rule loopM_list_scan [OF l(1)])
       (use l(2) lseg_nonNULL [OF l(1)] in \<open>auto simp: node_pid_def next_node_def\<close>)
  ultimately show ?thesis
    using l(2) assms(2) by (simp add: get_process_descriptor_from_pid_def bnd_Ok)
qed

lemma ucast_pid_inj: "(ucast a :: u32) = ucast b \<longleftrightarrow> a = (b :: u16)"
  by (simp add: word_unat_eq_iff unsigned_ucast_eq take_bit_nat_eq_self unsigned_less order_less_trans [OF unsigned_less])

lemma drop_match_snoc: "\<forall>x\<in>set xs. \<not> P x \<Longrightarrow> drop_match P (xs @ [n]) = xs"
  by (induction P xs rule: drop_match.induct) auto

lemma without_match_snoc: "\<forall>x\<in>set xs. \<not> P x \<Longrightarrow> P n \<Longrightarrow> without_match P (xs @ [n]) = xs"
  by (cases xs) (auto simp: drop_match_snoc)

lemma delete_from_allproc_run:
  assumes "proc_list_of s (allproc s) ns" "p \<noteq> NULL"
  shows "\<exists>t. delete_from_allproc p s = Ok (0, t) \<and>
    proc_list_of t (allproc t) (without_match (\<lambda>n. node_pid s n = pid (pcb_at s p)) ns)"
proof (cases ns)
  case Nil
  with assms show ?thesis by (simp add: delete_from_allproc_def proc_list_of_def)
next
  case (Cons x xs)
  then obtain h' t where "delete_node (allproc s) p s = Ok (h', t)"
    "proc_list_of t h' (without_match (\<lambda>n. node_pid s n = pid (pcb_at s p)) ns)"
    using delete_node_run [of s "allproc s" x xs p] assms by auto
  moreover have "allproc s \<noteq> NULL" using assms(1) Cons by (auto simp: proc_list_of_def)
  moreover have "proc_list_of (t\<lparr>allproc := h'\<rparr>) h' ms = proc_list_of t h' ms" for ms
    by (simp add: proc_list_of_def next_node_def cong: lseg_cong)
  ultimately show ?thesis using assms(2) by (simp add: delete_from_allproc_def bnd_Ok)
qed

text \<open>
  C16: The list of all processes. A process that was inserted is found under its pid when no process
  listed before has that pid, and deleting it again gives back the list as it was.
\<close>

theorem process_list_roundtrip:
  assumes "proc_list_of s (allproc s) ns" "p \<noteq> NULL" "fst (phys_mem_alloc s) \<noteq> NULL"
    and "fst (phys_mem_alloc s) OR KERNBASE \<notin> set ns"
    and "\<forall>m\<in>set ns. node_pid s m \<noteq> pid (pcb_at s p)"
  shows "\<exists>t u. insert_allproc p s = Ok (0, t) \<and>
    get_process_descriptor_from_pid (ucast (pid (pcb_at s p))) t = Ok (p, t) \<and>
    delete_from_allproc p t = Ok (0, u) \<and> proc_list_of u (allproc u) ns"
proof -
  define n where "n = fst (phys_mem_alloc s) OR KERNBASE"
  from insert_allproc_run [OF assms(1-3) n_def] assms(4) obtain t where t:
    "insert_allproc p s = Ok (0, t)" "proc_list_of t (allproc t) (ns @ [n])" "pcb_at t = pcb_at s"
    "pl_process (plist_at t n) = p" "\<forall>m\<in>set ns. pl_process (plist_at t m) = pl_process (plist_at s m)"
    by (auto simp: n_def)
  have pids: "\<forall>m\<in>set ns. node_pid t m \<noteq> pid (pcb_at t p)" "node_pid t n = pid (pcb_at t p)"
    using assms(5) t by (auto simp: node_pid_def)
  have "find (\<lambda>m. (ucast (node_pid t m) :: u32) = ucast (pid (pcb_at t p))) (ns @ n # []) = Some n"
    by (rule find_first) (use pids in \<open>auto simp: ucast_pid_inj\<close>)
  then have "get_process_descriptor_from_pid (ucast (pid (pcb_at s p))) t = Ok (p, t)"
    using get_process_descriptor_from_pid_run [OF t(2)] t(3,4) by simp
  moreover from delete_from_allproc_run [OF t(2) assms(2)] obtain u where
    "delete_from_allproc p t = Ok (0, u)" "proc_list_of u (allproc u) ns"
    using without_match_snoc [of ns "\<lambda>m. node_pid t m = pid (pcb_at t p)" n] pids by auto
  ultimately show ?thesis using t(1) by blast
qed

text \<open>
  Deleting a process that is not on a list of at least two processes still returns 0, and takes the
  last process of the list off it.
\<close>

theorem delete_unlisted_takes_last:
  assumes "proc_list_of s (allproc s) ns" "p \<noteq> NULL" "2 \<le> length ns"
    and "\<forall>m\<in>set ns. node_pid s m \<noteq> pid (pcb_at s p)"
  shows "\<exists>t. delete_from_allproc p s = Ok (0, t) \<and> proc_list_of t (allproc t) (butlast ns)"
proof -
  obtain xs n where ns: "ns = xs @ [n]" using assms(3) by (cases ns rule: rev_cases) auto
  with assms(3) have "xs \<noteq> []" by auto
  have "without_match (\<lambda>m. node_pid s m = pid (pcb_at s p)) ns = xs"
    using ns assms(4) \<open>xs \<noteq> []\<close> by (cases xs) (auto simp: drop_match_snoc)
  with delete_from_allproc_run [OF assms(1,2)] ns show ?thesis by simp
qed

text \<open>A list of the processes 1 and 2, and a third process with pid 3 that is not on it.\<close>

definition two_processes :: proc_state where
  "two_processes = (idle_machine ((\<lambda>_. zero_pcb)(0x1000 := zero_pcb\<lparr>pid := 1\<rparr>, 0x2000 := zero_pcb\<lparr>pid := 2\<rparr>, 0x3000 := zero_pcb\<lparr>pid := 3\<rparr>)))
     \<lparr>allproc := 0xA000,
      plist_at := (\<lambda>_. \<lparr>pl_process = NULL, pl_next = NULL\<rparr>)
        (0xA000 := \<lparr>pl_process = 0x1000, pl_next = 0xB000\<rparr>, 0xB000 := \<lparr>pl_process = 0x2000, pl_next = NULL\<rparr>)\<rparr>"

lemma two_processes_wf:
  "proc_list_of two_processes (allproc two_processes) [0xA000, 0xB000]"
  "\<forall>m\<in>set [0xA000, 0xB000]. node_pid two_processes m \<noteq> pid (pcb_at two_processes 0x3000)"
  "pid (pcb_at two_processes 0x3000) = 3"
  by (simp_all add: two_processes_def proc_list_of_def next_node_def node_pid_def idle_machine_def virt_state.defs)

lemma two_processes_alloc:
  "fst (phys_mem_alloc two_processes) = 0x3000"
  by code_simp

theorem process_list_roundtrip_witness:
  "\<exists>t u. insert_allproc 0x3000 two_processes = Ok (0, t) \<and> get_process_descriptor_from_pid 3 t = Ok (0x3000, t) \<and>
     delete_from_allproc 0x3000 t = Ok (0, u) \<and> proc_list_of u (allproc u) [0xA000, 0xB000]"
  using process_list_roundtrip [OF two_processes_wf(1) _ _ _ two_processes_wf(2)] two_processes_alloc two_processes_wf(3)
  by (simp add: KERNBASE_def)

theorem delete_unlisted_takes_last_witness:
  "\<exists>t. delete_from_allproc 0x3000 two_processes = Ok (0, t) \<and> proc_list_of t (allproc t) [0xA000]"
  using delete_unlisted_takes_last [OF two_processes_wf(1) _ _ two_processes_wf(2)] by simp

end
