(* ===== verification/Signal.thy ===== *)
theory Signal
  imports Process
begin

text \<open>
  Signals, \<^verbatim>\<open>sys/signal.c\<close>. A signal is a flag in the control block of its target, which the timer
  interrupt looks at; a target that waits on a queue is woken.
\<close>

definition mark_pending :: "ptr \<Rightarrow> u32 \<Rightarrow> ('z proc_state_scheme, unit) kop" where
  "mark_pending proc sig =
     (if sig = 9 then upd_pcb proc (is_sigkill_pending_update (\<lambda>_. 1))
      else if sig = 11 then upd_pcb proc (is_sigsegv_pending_update (\<lambda>_. 1))
      else ret ())"

text \<open>Waking the target, by the queue its state says it is on; \<open>False\<close> when it has already stopped.\<close>

definition wake_target :: "ptr \<Rightarrow> ('z proc_state_scheme, bool) kop" where
  "wake_target proc =
     bnd (get_pcb proc thread_state) (\<lambda>ts.
     bnd (get_pcb proc process_state) (\<lambda>ps.
     if ts = SLEEPING \<and> ps = NORMAL then bnd (try_to_wake_up sleeping_queue proc) (\<lambda>_. ret True)
     else if ts = BLOCKED \<and> ps = NORMAL then bnd (try_to_wake_up blocked_queue proc) (\<lambda>_. ret True)
     else if ts = WAITING \<and> ps = NORMAL then bnd (try_to_wake_up waiting_queue proc) (\<lambda>_. ret True)
     else if ts = STOPPED then bnd (modify (kmsg ''Process is already dead\<newline>'')) (\<lambda>_. ret False)
     else ret True))"

definition send_signal :: "u32 \<Rightarrow> u32 \<Rightarrow> ('z proc_state_scheme, u32 option) kop" where
  "send_signal i sig =
     bnd (get_process_descriptor_from_pid i) (\<lambda>proc.
     if proc = NULL then ret (Some 1)
     else
       bnd (mark_pending proc sig) (\<lambda>_.
       bnd (get_pcb proc on_rq) (\<lambda>r.
       if r = 0 then
         bnd (wake_target proc) (\<lambda>woken.
         if \<not> woken then ret (Some 1)
         else bnd reschedule (\<lambda>b. ret (if b then Some 1 else None)))
       else ret (Some 1))))"

definition send_signal_resumed :: "('z proc_state_scheme, u32) kop" where
  "send_signal_resumed = ret 1"

text \<open>The process id is unsigned, so the first test never succeeds.\<close>

definition sys_kill :: "u32 \<Rightarrow> u32 \<Rightarrow> ('z proc_state_scheme, u32 option) kop" where
  "sys_kill i sig =
     bnd get_current_process (\<lambda>c.
     if i < 0 then ret (Some 0)
     else if i = 0 \<or> i = 1 then
       bnd (modify (kmsg ''cannot kill swapper and idle process in BLEH\<newline>'')) (\<lambda>_. ret (Some 0))
     else
       bnd (get_pcb c pid) (\<lambda>j.
       if ucast j = i then
         bnd (modify (kmsg ''kill -9 <current> is about to kill current process\<newline>'')) (\<lambda>_. ret (Some 9))
       else send_signal i sig))"

end
