(* ===== verification/Page_Faults.thy ===== *)
theory Page_Faults
  imports Signal
begin

text \<open>
  Page faults, \<^verbatim>\<open>sys/page_faults.c\<close>: the handler, copying a shared page on a write, and bringing in pages
  of anonymous areas and of files. The bytes of user memory are those the running process sees.
\<close>

definition PG_FAULT_PRESENT :: u32 where
  "PG_FAULT_PRESENT = 0x1"

definition PG_FAULT_WRITE :: u32 where
  "PG_FAULT_WRITE = 0x2"

definition copy_regs :: "ptr \<Rightarrow> ('z proc_state_scheme, ptr) kop" where
  "copy_regs regs =
     bnd get_current_process (\<lambda>c.
     bnd (task_reg_list c) (\<lambda>k_regs.
     bnd (deref regs (deref k_regs (modify (copy_words 21 k_regs regs)))) (\<lambda>_.
     ret k_regs)))"

text \<open>The flags of a page of an area.\<close>

definition area_flags :: "vm_map_entry \<Rightarrow> u64" where
  "area_flags a =
     (if protection a AND PROT_WRITE \<noteq> 0 then PRESENT OR READWRITE OR USERSUPERVISOR
      else PRESENT OR USERSUPERVISOR)"

definition do_copy_on_write_fault :: "ptr \<Rightarrow> ptr \<Rightarrow> u64 \<Rightarrow> ('z proc_state_scheme, u32) kop" where
  "do_copy_on_write_fault mm v addr =
     bnd (get_mm mm mm_cr3) (\<lambda>cr3.
     bnd (call (find_page_from_virt addr cr3)) (\<lambda>page.
     if reference_count page = 1 then
       bnd (call (change_flags_in_parent_page_tables addr cr3 (ucast USER_PAGE))) (\<lambda>err.
       if sint err < 0 then ret (- 1)
       else bnd (modify (set_pml4 cr3)) (\<lambda>_. ret 1))
     else if 1 < reference_count page then
       bnd (call phys_mem_alloc) (\<lambda>phys_addr.
       bnd (my_memcpy (phys_addr OR KERNBASE) addr (uint (PAGE_BLOCK_SIZE - 1))) (\<lambda>_.
       bnd (modify (map_virtual_address_to_physical_address addr phys_addr USER_PAGE cr3 False)) (\<lambda>_.
       bnd (modify (decrement_reference_count_of_page page)) (\<lambda>_.
       bnd (modify (set_pml4 cr3)) (\<lambda>_. ret 1)))))
     else bnd (modify (kmsg ''Page ref count should not be 0\<newline>'')) (\<lambda>_. ret (- 1))))"

definition do_anon_fault :: "ptr \<Rightarrow> ptr \<Rightarrow> u64 \<Rightarrow> ('z proc_state_scheme, u32) kop" where
  "do_anon_fault mm v address =
     bnd (get_vma v id) (\<lambda>a.
     let flags = area_flags a in
     if vma_file a = NULL then
       let addr = page_round_up address in
       bnd (call phys_mem_alloc) (\<lambda>page.
       bnd (get_mm mm mm_cr3) (\<lambda>cr3.
       bnd (call (change_flags_in_parent_page_tables addr cr3 flags)) (\<lambda>_.
       bnd (modify (map_virtual_address_to_physical_address addr page (ucast flags) cr3 False)) (\<lambda>_.
       bnd (my_memset addr 0 (PAGE_BLOCK_SIZE - 1)) (\<lambda>_.
       ret 1)))))
     else ret 1)"

text \<open>
  The number of bytes and the file offset are kept in variables of type \<^verbatim>\<open>int\<close>; only when the page
  starts with the area is the number of bytes read looked at.
\<close>

definition int_of_u64 :: "u64 \<Rightarrow> u32" where
  "int_of_u64 w = ucast w"

definition do_file_fault :: "ptr \<Rightarrow> ptr \<Rightarrow> u64 \<Rightarrow> ('z file_state_scheme, u32) kop" where
  "do_file_fault mm v address =
     (let align = page_round_up address in
      bnd (get_vma v id) (\<lambda>a.
      bnd (call phys_mem_alloc) (\<lambda>phys_addr.
      bnd (get_mm mm mm_cr3) (\<lambda>cr3.
      bnd (modify (map_virtual_address_to_physical_address align phys_addr (ucast (area_flags a)) cr3 False)) (\<lambda>_.
      bnd (my_memset align 0 (PAGE_BLOCK_SIZE - 1)) (\<lambda>_.
      bnd (get_mm mm mm_file) (\<lambda>fp.
      if align < start_addr a then
        let diff = int_of_u64 (start_addr a - align);
            to_read = int_of_u64 (if align + PAGE_BLOCK_SIZE \<le> end_addr a then (align + PAGE_BLOCK_SIZE) - start_addr a
                                  else end_addr a - start_addr a) in
        bnd (vfs_read fp (align + scast diff) (scast to_read) (scast (int_of_u64 (fileoffset a)))) (\<lambda>_. ret 1)
      else if start_addr a < align \<and> align < end_addr a then
        let to_read = int_of_u64 (if align + PAGE_BLOCK_SIZE \<le> end_addr a then PAGE_BLOCK_SIZE else end_addr a - align) in
        bnd (vfs_read fp align (scast to_read) (scast (int_of_u64 (fileoffset a + (align - start_addr a))))) (\<lambda>_. ret 1)
      else if start_addr a = align then
        let to_read = int_of_u64 (if align + PAGE_BLOCK_SIZE \<le> end_addr a then PAGE_BLOCK_SIZE
                                  else end_addr a - start_addr a) in
        bnd (vfs_read fp align (scast to_read) (scast (int_of_u64 (fileoffset a)))) (\<lambda>n.
        let num_read = sint (int_of_u64 n) in
        if num_read \<le> 0 \<or> num_read < sint to_read then bnd (modify (phys_mem_free phys_addr)) (\<lambda>_. ret 0)
        else ret 1)
      else ret 1)))))))"

definition call_fault_fn :: "fault_fn \<Rightarrow> ptr \<Rightarrow> ptr \<Rightarrow> u64 \<Rightarrow> ('z file_state_scheme, u32) kop" where
  "call_fault_fn f mm v address =
     (case f of
        NoFaultFn \<Rightarrow> fail NullDeref
      | DoAnonFault \<Rightarrow> do_anon_fault mm v address
      | DoFileFault \<Rightarrow> do_file_fault mm v address)"

text \<open>The signal for the running process; \<open>None\<close> when that process is switched out.\<close>

definition kill_current :: "ptr \<Rightarrow> ('z proc_state_scheme, unit option) kop" where
  "kill_current proc =
     bnd (get_pcb proc pid) (\<lambda>i. bnd (sys_kill (ucast i) 11) (\<lambda>r. ret (map_option (\<lambda>_. ()) r)))"

definition do_page_fault :: "ptr \<Rightarrow> u32 \<Rightarrow> u64 \<Rightarrow> ('z file_state_scheme, unit option) kop" where
  "do_page_fault regs error_code address =
     (if KERNBASE < address \<and> sint error_code < 4 then ret (Some ())
      else
        bnd get_current_process (\<lambda>proc.
        bnd (get_pcb proc pcb_mm) (\<lambda>mm.
        bnd (find_vma mm address) (\<lambda>v.
        if v = NULL then
          bnd (find_closest_vma mm address) (\<lambda>closest.
          if closest = NULL then
            bnd (get_vma closest start_addr) (\<lambda>st.
            if st = STACK_START then
              bnd (expand_stack mm address) (\<lambda>err. if sint err < 0 then kill_current proc else ret (Some ()))
            else ret (Some ()))
          else kill_current proc)
        else
          let addr = page_round_up address in
          if error_code AND PG_FAULT_PRESENT \<noteq> 0 \<and> error_code AND PG_FAULT_WRITE \<noteq> 0 then
            bnd (get_vma v protection) (\<lambda>pr.
            bnd (if pr AND PROT_WRITE \<noteq> 0 then bnd (do_copy_on_write_fault mm v addr) (\<lambda>_. ret ()) else ret ()) (\<lambda>_.
            ret (Some ())))
          else
            bnd (get_vma v vma_fault) (\<lambda>f.
            bnd (call_fault_fn f mm v addr) (\<lambda>_.
            ret (Some ())))))))"

text \<open>\<open>cr2\<close> is the register with the address of the fault.\<close>

definition page_fault_handler :: "u64 \<Rightarrow> ptr \<Rightarrow> u32 \<Rightarrow> ('z file_state_scheme, unit option) kop" where
  "page_fault_handler cr2 regs error_code = do_page_fault regs error_code cr2"

section \<open>Changing flags keeps the translations\<close>

text \<open>What a walk sees of an entry.\<close>

definition shape :: "u64 \<Rightarrow> bool \<times> u64" where
  "shape e = (present e, get_physical_address e)"

lemma tblwalk_shape: "(\<And>a. shape (m' a) = shape (m a)) \<Longrightarrow> tblwalk m' r is = tblwalk m r is"
  by (induction "is" arbitrary: r) (auto simp: shape_def)

lemma address_space_shape: "(\<And>a. shape (m' a) = shape (m a)) \<Longrightarrow> address_space m' r = address_space m r"
  using tblwalk_shape [of m' m r] by (auto simp: address_space_def shape_def fun_eq_iff split: option.split)

lemma ptree_shape: "(\<And>a. shape (m' a) = shape (m a)) \<Longrightarrow> ptree m' U r = ptree m U r"
  using tblwalk_shape [of m' m r] by (simp add: ptree_def)

lemma shape_or: "present e \<Longrightarrow> unat f < 4096 \<Longrightarrow> shape (e OR f) = shape e"
  using flags_not_in_field [of f] by (simp add: shape_def get_physical_address_def bit.conj_disj_distrib2)

text \<open>A state whose tables have the same shape: nothing a walk sees has changed.\<close>

definition same_tables :: "'z virt_state_scheme \<Rightarrow> 'z virt_state_scheme \<Rightarrow> bool" where
  "same_tables s t \<longleftrightarrow> (\<forall>a. shape (pmem t a) = shape (pmem s a)) \<and> page_array t = page_array s \<and>
     free_page_list t = free_page_list s \<and> virt_state.more t = virt_state.more s"

lemma same_tables_refl: "same_tables s s"
  by (simp add: same_tables_def)

lemma same_tables_write:
  assumes "same_tables s t" "present (pmem t (entry tbl i))" "unat f < 4096"
  shows "same_tables s (write_entry tbl i (pmem t (entry tbl i) OR f) t)"
  using assms shape_or [OF assms(2,3)] by (auto simp: same_tables_def write_entry_def)

lemma same_tables_space:
  assumes "same_tables s t" "space_ok s r"
  shows "space_ok t r" "address_space (pmem t) r = address_space (pmem s) r"
proof -
  have "used_of t = used_of s" "ascending t = ascending s"
    using assms(1) by (simp_all add: same_tables_def used_of_def ascending_def pages_wf_def frames_of_def)
  then show "space_ok t r" "address_space (pmem t) r = address_space (pmem s) r"
    using assms ptree_shape [of "pmem t" "pmem s"] address_space_shape [of "pmem t" "pmem s"]
    by (simp_all add: space_ok_def same_tables_def)
qed

text \<open>Writing a present entry into a last-level table only touches the page of that entry.\<close>

lemma leaf_write_spec:
  assumes "space_ok s r" "tblwalk (pmem s) r (fst (page_key virt)) = Some pt" "present e"
  shows "space_ok (write_entry pt (get_index_of_pt virt) e s) r \<and>
    address_space (pmem (write_entry pt (get_index_of_pt virt) e s)) r = (address_space (pmem s) r)(page_key virt \<mapsto> get_physical_address e)"
proof -
  from assms(1) have asc: "ascending s" and tree: "ptree (pmem s) (used_of s) r" by (simp_all add: space_ok_def)
  note leaf = tree used_frame_addr [OF asc] assms(2) page_key_path(1) page_key_path(2) index_bounds(4)
  have same: "tblwalk ((pmem s)(entry pt (get_index_of_pt virt) := e)) r js = tblwalk (pmem s) r js" if "table_path js" for js
    by (rule leaf_tblwalk [OF leaf that])
  then have "ptree ((pmem s)(entry pt (get_index_of_pt virt) := e)) (used_of s) r" using tree by (simp add: ptree_def)
  moreover have "page_key virt = (fst (page_key virt), get_index_of_pt virt)" by (simp add: page_key_def)
  ultimately show ?thesis
    using leaf_address_space [OF leaf assms(3)] asc by (simp add: write_entry_def space_ok_def)
qed

lemma change_flags_spec:
  fixes virt :: u64
  assumes "space_ok s r" "unat flags < 4096" "present flags"
  defines "t \<equiv> snd (change_flags_in_parent_page_tables virt r flags s)"
  shows "space_ok t r \<and> page_array t = page_array s \<and> virt_state.more t = virt_state.more s \<and>
    (\<forall>k. k \<noteq> page_key virt \<longrightarrow> address_space (pmem t) r k = address_space (pmem s) r k)"
proof -
  let ?i4 = "get_index_of_pml4 virt" and ?i3 = "get_index_of_pdpt virt" and ?i2 = "get_index_of_pdt virt" and ?i1 = "get_index_of_pt virt"
  have early: ?thesis if "same_tables s t" using that same_tables_space [OF that assms(1)] by (simp add: same_tables_def)
  define s1 where "s1 = write_entry r ?i4 (pmem s (entry r ?i4) OR flags) s"
  define pdpt where "pdpt = get_physical_address (pmem s (entry r ?i4) OR flags)"
  define s2 where "s2 = write_entry pdpt ?i3 (pmem s1 (entry pdpt ?i3) OR flags) s1"
  define pdt where "pdt = get_physical_address (pmem s1 (entry pdpt ?i3) OR flags)"
  define s3 where "s3 = write_entry pdt ?i2 (pmem s2 (entry pdt ?i2) OR flags) s2"
  define pt where "pt = get_physical_address (pmem s2 (entry pdt ?i2) OR flags)"
  define e where "e = pmem s3 (entry pt ?i1) OR flags"
  have t: "t = (if \<not> present (pmem s (entry r ?i4)) then s else if \<not> present (pmem s1 (entry pdpt ?i3)) then s1
      else if \<not> present (pmem s2 (entry pdt ?i2)) then s2 else set_pml4 r (write_entry pt ?i1 e s3))"
    by (simp add: t_def change_flags_in_parent_page_tables_def Let_def s1_def s2_def s3_def pdpt_def pdt_def pt_def e_def)
  show ?thesis
  proof (cases "present (pmem s (entry r ?i4)) \<and> present (pmem s1 (entry pdpt ?i3)) \<and> present (pmem s2 (entry pdt ?i2))")
    case False
    then have "same_tables s t"
      using assms(2) by (auto simp: t s1_def s2_def intro!: same_tables_write same_tables_refl)
    then show ?thesis by (rule early)
  next
    case True
    have st: "same_tables s s1" "same_tables s s2" "same_tables s s3"
      using True assms(2) by (auto simp: s1_def s2_def s3_def intro!: same_tables_write same_tables_refl)
    have sh: "shape (pmem s a) = shape (pmem s' a)" if "same_tables s s'" for s' a using that by (simp add: same_tables_def)
    have e4: "present (pmem s3 (entry r ?i4))" "get_physical_address (pmem s3 (entry r ?i4)) = pdpt"
      using sh [OF st(3), of "entry r ?i4"] shape_or [of "pmem s (entry r ?i4)" flags] True assms(2) by (auto simp: pdpt_def shape_def)
    have e3: "present (pmem s3 (entry pdpt ?i3))" "get_physical_address (pmem s3 (entry pdpt ?i3)) = pdt"
      using sh [OF st(3), of "entry pdpt ?i3"] sh [OF st(1), of "entry pdpt ?i3"] shape_or [of "pmem s1 (entry pdpt ?i3)" flags] True assms(2)
      by (auto simp: pdt_def shape_def)
    have e2: "present (pmem s3 (entry pdt ?i2))" "get_physical_address (pmem s3 (entry pdt ?i2)) = pt"
      using sh [OF st(3), of "entry pdt ?i2"] sh [OF st(2), of "entry pdt ?i2"] shape_or [of "pmem s2 (entry pdt ?i2)" flags] True assms(2)
      by (auto simp: pt_def shape_def)
    have "tblwalk (pmem s3) r (fst (page_key virt)) = Some pt"
      using e4 e3 e2 by (simp add: page_key_def)
    from leaf_write_spec [OF same_tables_space(1) [OF st(3) assms(1)] this, of e] assms(3)
    have "space_ok (write_entry pt ?i1 e s3) r"
      "address_space (pmem (write_entry pt ?i1 e s3)) r = (address_space (pmem s3) r)(page_key virt \<mapsto> get_physical_address e)"
      by (simp_all add: e_def)
    moreover have "space_ok (set_pml4 r u) r = space_ok u r" for u :: "'a virt_state_scheme"
      by (simp add: space_ok_def set_pml4_def ascending_def pages_wf_def used_of_def frames_of_def)
    moreover have "t = set_pml4 r (write_entry pt ?i1 e s3)" using True by (simp add: t)
    moreover have "pmem (set_pml4 r u) = pmem u" "page_array (set_pml4 r u) = page_array u"
      "virt_state.more (set_pml4 r u) = virt_state.more u" for u :: "'a virt_state_scheme"
      by (simp_all add: set_pml4_def)
    moreover have "page_array (write_entry pt ?i1 e s3) = page_array s" "virt_state.more (write_entry pt ?i1 e s3) = virt_state.more s"
      using st(3) by (simp_all add: write_entry_def same_tables_def)
    ultimately show ?thesis
      using same_tables_space(2) [OF st(3) assms(1)] by simp
  qed
qed

section \<open>Anonymous memory\<close>

lemma area_flags_facts: "unat (area_flags a) < 4096" "present (area_flags a)" "unat (ucast (area_flags a) :: u32) < 4096"
  "present (ucast (ucast (area_flags a) :: u32))"
  by (simp_all add: area_flags_def PRESENT_def READWRITE_def USERSUPERVISOR_def present_def)

lemma alloc_space:
  assumes "space_ok s r" "0 < free_frames s"
  shows "space_ok (snd (phys_mem_alloc s)) r" "free_frames s \<le> Suc (free_frames (snd (phys_mem_alloc s)))"
    "frame_addr (fst (phys_mem_alloc s))" "fst (phys_mem_alloc s) \<notin> used_of s"
proof -
  from assms(1) have asc: "ascending s" and tree: "ptree (pmem s) (used_of s) r" by (simp_all add: space_ok_def)
  from asc have wf: "pages_wf s" by (simp add: ascending_def)
  have nf: "\<not> frames_of s \<subseteq> used_of s"
    using assms(2) by (auto simp: free_frames_def Diff_eq_empty_iff [THEN iffD2])
  note alloc = pa.alloc_fresh [OF wf nf] and asc1 = ascending_alloc [OF asc nf]
  show "space_ok (snd (phys_mem_alloc s)) r"
    using asc1(1) tree alloc by (auto simp: space_ok_def ptree_def)
  show "free_frames s \<le> Suc (free_frames (snd (phys_mem_alloc s)))"
    using pa.card_run [OF wf, of 1] pa.frames_alloc [OF wf] by (simp add: free_frames_def)
  show "frame_addr (fst (phys_mem_alloc s))" "fst (phys_mem_alloc s) \<notin> used_of s"
    using asc1(3) alloc by simp_all
qed

lemma page_round_up_page:
  assumes "4096 \<le> addr"
  shows "page_round_up addr AND 0xFFF = 0" "4096 \<le> page_round_up addr" "valid_range (page_round_up addr) 4096"
proof -
  have u: "unat (page_round_up addr) = unat addr div 4096 * 4096"
    using assms by (simp add: page_round_up_def unat_page_base word_less_nat_alt word_le_nat_alt minus_mod_eq_div_mult)
  then show "page_round_up addr AND 0xFFF = 0" unfolding page_aligned_iff by simp
  have "4096 \<le> unat addr" using assms by (simp add: word_le_nat_alt)
  then have "1 \<le> unat addr div 4096" by (simp add: div_greater_zero_iff Suc_le_eq)
  then show ge: "4096 \<le> page_round_up addr" using u by (simp add: word_le_nat_alt)
  have "unat addr < 2 ^ 64" using unsigned_less [of addr] by simp
  then have "unat addr div 4096 < 2 ^ 52" by (simp add: less_mult_imp_div_less)
  then have "unat (page_round_up addr) + 4096 \<le> 2 ^ 64" using u by simp
  moreover have "page_round_up addr \<noteq> 0" using ge by auto
  ultimately show "valid_range (page_round_up addr) 4096" by (simp add: valid_range_def)
qed

lemma page_round_up_idem: "page_round_up (page_round_up addr) = page_round_up addr"
  by (simp add: page_round_up_def and.assoc)

lemma space_kmem [simp]: "space_ok (s\<lparr>kmem := k\<rparr>) r = space_ok s r" "walk_pml4 r a (s\<lparr>kmem := k\<rparr>) = walk_pml4 r a s"
  by (simp_all add: space_ok_def ascending_def pages_wf_def used_of_def frames_of_def walk_pml4_def Let_def)

lemma do_anon_fault_run:
  assumes "space_ok s r" "4 \<le> free_frames s" "mm \<noteq> NULL" "mm_cr3 (mm_at s mm) = r"
    and "v \<noteq> NULL" "vma_file (vma_at s v) = NULL" "4096 \<le> addr"
  shows "\<exists>t f. do_anon_fault mm v addr s = Ok (1, t) \<and> f \<notin> used_of s \<and> space_ok t r \<and> cr3_reg t = r \<and>
    address_space (pmem t) r = (address_space (pmem s) r)(page_key (page_round_up addr) \<mapsto> f) \<and>
    walk_pml4 r (page_round_up addr) t = f \<and> (\<forall>i<4096. kmem t (page_round_up addr + of_nat i) = 0)"
proof -
  let ?p = "page_round_up addr" and ?fl = "area_flags (vma_at s v)" and ?f = "fst (phys_mem_alloc s)" and ?s1 = "snd (phys_mem_alloc s)"
  note page = page_round_up_page [OF assms(7)]
  have "0 < free_frames s" using assms(2) by simp
  note a = alloc_space [OF assms(1) this]
  define s2 where "s2 = snd (change_flags_in_parent_page_tables ?p r ?fl ?s1)"
  have c: "space_ok s2 r" "page_array s2 = page_array ?s1"
    "\<forall>k. k \<noteq> page_key ?p \<longrightarrow> address_space (pmem s2) r k = address_space (pmem ?s1) r k"
    using change_flags_spec [OF a(1) area_flags_facts(1,2), where virt = ?p] by (simp_all add: s2_def)
  have "free_frames s2 = free_frames ?s1" using c(2) by (simp add: free_frames_def frames_of_def used_of_def)
  then have free: "3 \<le> free_frames s2" using a(2) assms(2) by simp
  define s3 where "s3 = map_virtual_address_to_physical_address ?p ?f (ucast ?fl) r False s2"
  have f: "?f AND 4095 = 0" "?f AND ENTRY_ADDRESS = ?f" using a(3) frame_in_field by (auto simp: frame_addr_def)
  have m: "space_ok s3 r" "cr3_reg s3 = r" "address_space (pmem s3) r = (address_space (pmem s2) r)(page_key ?p \<mapsto> ?f)"
    "walk_pml4 r ?p s3 = ?f"
    using map_spec [OF c(1) free _ f area_flags_facts(4,3), of ?p] page(1) by (simp_all add: s3_def Let_def)
  have space: "address_space (pmem s3) r = (address_space (pmem s) r)(page_key ?p \<mapsto> ?f)"
    using c(3) by (auto simp: m(3) fun_eq_iff)
  define k where "k = (fill (kmem s3) ?p 4095 (\<lambda>_. 0))(?p + 4095 := 0)"
  have set: "my_memset ?p 0 (PAGE_BLOCK_SIZE - 1) s3 = Ok ((), s3\<lparr>kmem := k\<rparr>)"
    using my_memset_run [of ?p "PAGE_BLOCK_SIZE - 1" 0 s3] page(3) by (simp add: PAGE_BLOCK_SIZE_def k_def)
  have zero: "k (?p + of_nat i) = 0" if "i < 4096" for i
    using that fill_at [of i 4095 "kmem s3" ?p "\<lambda>_. 0"] by (cases "i = 4095") (auto simp: k_def)
  have "do_anon_fault mm v addr s = Ok (1, s3\<lparr>kmem := k\<rparr>)"
    using assms(3-6) set by (simp add: do_anon_fault_def Let_def s3_def s2_def bnd_Ok)
  then show ?thesis
    using a(4) m space zero by (intro exI [of _ "s3\<lparr>kmem := k\<rparr>"] exI [of _ ?f]) simp
qed

lemma area_list_nonNULL: "area_list s mm vs \<Longrightarrow> v \<in> set vs \<Longrightarrow> v \<noteq> NULL"
  unfolding area_list_def dlist_def using lseg_nonNULL by blast

text \<open>
  C2: A page fault in an anonymous area. The handler looks the area up, takes a frame that was not in
  use, and maps exactly the page of the faulting address to it: the translation of every other page stays,
  the tables stay a tree, and the page reads as zeros when the handler returns.
\<close>

theorem page_fault_maps_anonymous_page:
  assumes "current s \<noteq> NULL" "mm = pcb_mm (pcb_at s (current s))" "area_list s mm vs"
    and "find (\<lambda>v. in_area addr (vma_at s v)) vs = Some v" "vma_fault (vma_at s v) = DoAnonFault" "vma_file (vma_at s v) = NULL"
    and "\<not> (KERNBASE < addr \<and> sint error_code < 4)" "4096 \<le> addr"
    and "error_code AND PG_FAULT_PRESENT = 0 \<or> error_code AND PG_FAULT_WRITE = 0"
    and "space_ok s (mm_cr3 (mm_at s mm))" "4 \<le> free_frames s"
  shows "\<exists>t f. do_page_fault regs error_code addr s = Ok (Some (), t) \<and> f \<notin> used_of s \<and>
    (let r = mm_cr3 (mm_at s mm); p = page_round_up addr
     in space_ok t r \<and> cr3_reg t = r \<and> walk_pml4 r p t = f \<and>
        address_space (pmem t) r = (address_space (pmem s) r)(page_key p \<mapsto> f) \<and>
        (\<forall>i<4096. kmem t (p + of_nat i) = 0))"
proof -
  have mm: "mm \<noteq> NULL" using assms(3) by (simp add: area_list_def)
  have "v \<in> set vs" using assms(4) by (auto simp: find_Some_iff)
  then have v: "v \<noteq> NULL" using area_list_nonNULL [OF assms(3)] by blast
  have fv: "find_vma mm addr s = Ok (v, s)" using find_vma_run [OF assms(3), of addr] assms(4) by simp
  have p: "4096 \<le> page_round_up addr" by (rule page_round_up_page(2) [OF assms(8)])
  have "do_page_fault regs error_code addr s = bnd (do_anon_fault mm v (page_round_up addr)) (\<lambda>_. ret (Some ())) s"
    using assms(1,2,5,7,9) v fv
    by (auto simp: do_page_fault_def get_current_process_def bnd_Ok call_fault_fn_def Let_def)
  with do_anon_fault_run [OF assms(10,11) mm refl v assms(6) p] show ?thesis
    by (auto simp: bnd_Ok page_round_up_idem Let_def)
qed

section \<open>Addresses outside every area\<close>

definition closer :: "u64 \<Rightarrow> 'z proc_state_scheme \<Rightarrow> ptr \<Rightarrow> ptr" where
  "closer addr s v =
     (if prev_area s v \<noteq> NULL \<and> \<not> sint (ucast (start_addr (vma_at s v) - addr) :: u32) \<le> sint (ucast (addr - end_addr (vma_at s (prev_area s v))) :: u32)
      then prev_area s v else v)"

lemma find_closest_vma_run:
  assumes "area_list s mm vs"
  shows "find_closest_vma mm addr s =
    Ok (case find (\<lambda>v. addr < start_addr (vma_at s v)) vs of None \<Rightarrow> NULL | Some v \<Rightarrow> closer addr s v, s)"
proof -
  have l: "mm \<noteq> NULL" "llist (next_area s) (mm_vma (mm_at s mm)) vs"
    using assms by (simp_all add: area_list_def dlist_def)
  have "loopM (\<lambda>v. if v = NULL then ret (Inr NULL)
       else bnd (get_vma v id) (\<lambda>a.
         if addr < start_addr a then
           if vma_prev a \<noteq> NULL then
             bnd (get_vma (vma_prev a) end_addr) (\<lambda>pe.
             ret (Inr (if sint (ucast (start_addr a - addr) :: u32) \<le> sint (ucast (addr - pe) :: u32) then v else vma_prev a)))
           else ret (Inr v)
         else ret (Inl (vma_next a)))) (mm_vma (mm_at s mm)) s =
     Ok (case find (\<lambda>v. addr < start_addr (vma_at s v)) vs of None \<Rightarrow> NULL | Some v \<Rightarrow> closer addr s v, s)"
    by (rule loopM_list_scan [OF l(2)])
       (use lseg_nonNULL [OF l(2)] in \<open>auto simp: next_area_def closer_def prev_area_def\<close>)
  with l(1) show ?thesis by (simp add: find_closest_vma_def)
qed

text \<open>
  C31: A page fault at an address outside every area does not end the process. When no area starts above
  the address, the handler dereferences the null pointer; otherwise it asks for the process to be killed,
  which for the running process only prints a message, so that the faulting instruction is run again.
\<close>

theorem page_fault_outside_areas:
  assumes "current s \<noteq> NULL" "mm = pcb_mm (pcb_at s (current s))" "area_list s mm vs"
    and "\<forall>v\<in>set vs. \<not> in_area addr (vma_at s v)" "\<not> (KERNBASE < addr \<and> sint error_code < 4)"
  shows "do_page_fault regs error_code addr s =
    (if \<forall>v\<in>set vs. start_addr (vma_at s v) \<le> addr then Fault NullDeref
     else Ok (Some (), kmsg (if pid (pcb_at s (current s)) = 0 \<or> pid (pcb_at s (current s)) = 1
                             then ''cannot kill swapper and idle process in BLEH\<newline>''
                             else ''kill -9 <current> is about to kill current process\<newline>'') s))"
proof -
  have "find (\<lambda>v. in_area addr (vma_at s v)) vs = None" using assms(4) by (simp add: find_None_iff)
  then have fv: "find_vma mm addr s = Ok (NULL, s)" using find_vma_run [OF assms(3), of addr] by simp
  have run: "do_page_fault regs error_code addr s =
     bnd (find_closest_vma mm addr) (\<lambda>closest.
       if closest = NULL then
         bnd (get_vma closest start_addr) (\<lambda>st.
         if st = STACK_START then
           bnd (expand_stack mm addr) (\<lambda>err. if sint err < 0 then kill_current (current s) else ret (Some ()))
         else ret (Some ()))
       else kill_current (current s)) s"
    using assms(1,2,5) fv by (auto simp: do_page_fault_def get_current_process_def bnd_Ok)
  show ?thesis
  proof (cases "\<forall>v\<in>set vs. start_addr (vma_at s v) \<le> addr")
    case True
    then have "find (\<lambda>v. addr < start_addr (vma_at s v)) vs = None" by (auto simp: find_None_iff)
    then show ?thesis
      using True find_closest_vma_run [OF assms(3), of addr] by (simp add: run bnd_Ok)
  next
    case False
    then obtain v where v: "find (\<lambda>v. addr < start_addr (vma_at s v)) vs = Some v"
      by (cases "find (\<lambda>v. addr < start_addr (vma_at s v)) vs") (auto simp: find_None_iff)
    then have "v \<in> set vs" by (auto simp: find_Some_iff)
    then have "v \<noteq> NULL" using area_list_nonNULL [OF assms(3)] by blast
    then have "closer addr s v \<noteq> NULL" by (auto simp: closer_def)
    moreover have "(ucast (pid (pcb_at s (current s))) :: u32) = 0 \<longleftrightarrow> pid (pcb_at s (current s)) = 0"
      "(ucast (pid (pcb_at s (current s))) :: u32) = 1 \<longleftrightarrow> pid (pcb_at s (current s)) = 1"
      using ucast_pid_inj [of _ 0] ucast_pid_inj [of _ 1] by simp_all
    ultimately show ?thesis
      using False assms(1) find_closest_vma_run [OF assms(3), of addr] v
      by (simp add: run bnd_Ok kill_current_def sys_kill_def get_current_process_def)
  qed
qed

text \<open>A process with one anonymous area, on the small machine.\<close>

definition anon_machine :: file_state where
  "anon_machine = (terminal_machine [])
     \<lparr>current := 0x9000, pcb_at := (\<lambda>_. zero_pcb\<lparr>pid := 5, pcb_mm := 0xB000\<rparr>),
      mm_at := (\<lambda>_. zero_mm\<lparr>mm_vma := 0xC000, mm_cr3 := 0x1000\<rparr>),
      vma_at := (\<lambda>_. (area_at 0x400000 0x500000 NULL NULL)\<lparr>vma_fault := DoAnonFault\<rparr>)\<rparr>"

lemma anon_machine_wf:
  "current anon_machine \<noteq> NULL" "0xB000 = pcb_mm (pcb_at anon_machine (current anon_machine))"
  "area_list anon_machine 0xB000 [0xC000]" "space_ok anon_machine (mm_cr3 (mm_at anon_machine 0xB000))"
  "4 \<le> free_frames anon_machine" "mm_cr3 (mm_at anon_machine 0xB000) = 0x1000"
  "vma_at anon_machine v = (area_at 0x400000 0x500000 NULL NULL)\<lparr>vma_fault := DoAnonFault\<rparr>"
  "pid (pcb_at anon_machine p) = 5"
proof -
  have f: "page_array anon_machine = page_array small_machine" "free_page_list anon_machine = free_page_list small_machine"
    "pmem anon_machine = pmem small_machine"
    by (simp_all add: anon_machine_def terminal_machine_def proc_state.defs idle_machine_def virt_state.defs)
  show m: "mm_cr3 (mm_at anon_machine 0xB000) = 0x1000" by (simp add: anon_machine_def)
  show "space_ok anon_machine (mm_cr3 (mm_at anon_machine 0xB000))"
    using small_machine_ok f unfolding m
    by (simp add: space_ok_def ascending_def pages_wf_def used_of_def frames_of_def)
  show "4 \<le> free_frames anon_machine"
    using small_machine_free f by (simp add: free_frames_def used_of_def frames_of_def)
qed (simp_all add: anon_machine_def area_list_def dlist_def next_area_def prev_area_def area_at_def)

theorem page_fault_maps_anonymous_page_witness:
  "\<exists>t f. do_page_fault 0x8000 6 0x400123 anon_machine = Ok (Some (), t) \<and> f \<notin> used_of anon_machine \<and>
     walk_pml4 0x1000 0x400000 t = f \<and> (\<forall>i<4096. kmem t (0x400000 + of_nat i) = 0)"
proof -
  have "(0x400123 :: u64) AND NOT 0xFFF = 0x400000" by simp
  then have "page_round_up 0x400123 = 0x400000" by (simp add: page_round_up_def)
  moreover have "find (\<lambda>v. in_area 0x400123 (vma_at anon_machine v)) [0xC000] = Some 0xC000"
    by (simp add: anon_machine_wf(7) in_area_def area_end_def area_at_def)
  note page_fault_maps_anonymous_page [OF anon_machine_wf(1-3) this _ _ _ _ _ anon_machine_wf(4,5), of 6 "0x8000"]
  ultimately show ?thesis
    by (simp add: anon_machine_wf(6,7) area_at_def PG_FAULT_PRESENT_def KERNBASE_def Let_def) blast
qed

theorem page_fault_outside_areas_witness:
  "do_page_fault 0x8000 6 0x700000 anon_machine = Fault NullDeref \<and>
   do_page_fault 0x8000 6 0x300000 anon_machine = Ok (Some (), kmsg ''kill -9 <current> is about to kill current process\<newline>'' anon_machine)"
proof -
  note f = page_fault_outside_areas [OF anon_machine_wf(1-3)]
  have "do_page_fault 0x8000 6 0x700000 anon_machine = Fault NullDeref"
    using f [of "0x700000" 6 "0x8000"]
    by (simp add: anon_machine_wf(7,8) in_area_def area_end_def area_at_def KERNBASE_def)
  moreover have "do_page_fault 0x8000 6 0x300000 anon_machine = Ok (Some (), kmsg ''kill -9 <current> is about to kill current process\<newline>'' anon_machine)"
    using f [of "0x300000" 6 "0x8000"]
    by (simp add: anon_machine_wf(7,8) in_area_def area_end_def area_at_def KERNBASE_def)
  ultimately show ?thesis by blast
qed

section \<open>Data segments\<close>

text \<open>
  C32: A program cannot write to its data. A segment that is readable and writable gives an area without
  write permission, and a write to a present page of such an area is a fault the handler returns from
  without changing anything, so that the write faults again.
\<close>

theorem write_to_segment_unresolved:
  assumes "current s \<noteq> NULL" "mm = pcb_mm (pcb_at s (current s))" "area_list s mm vs"
    and "find (\<lambda>v. in_area addr (vma_at s v)) vs = Some v"
    and "protection (vma_at s v) = elf_protection fl" "fl AND ELF_READ \<noteq> 0"
    and "\<not> (KERNBASE < addr \<and> sint error_code < 4)"
    and "error_code AND PG_FAULT_PRESENT \<noteq> 0" "error_code AND PG_FAULT_WRITE \<noteq> 0"
  shows "do_page_fault regs error_code addr s = Ok (Some (), s)"
proof -
  have v: "v \<noteq> NULL" using area_list_nonNULL [OF assms(3)] assms(4) by (auto simp: find_Some_iff)
  have fv: "find_vma mm addr s = Ok (v, s)" using find_vma_run [OF assms(3), of addr] assms(4) by simp
  have "protection (vma_at s v) AND PROT_WRITE = 0"
    using assms(5,6) by (simp add: elf_protection_def PROT_READ_def PROT_WRITE_def)
  then show ?thesis
    using assms(1,2,7-9) v fv by (auto simp: do_page_fault_def get_current_process_def bnd_Ok Let_def)
qed

theorem write_to_segment_unresolved_witness:
  "do_page_fault 0x8000 7 0x400123 (anon_machine\<lparr>vma_at := (\<lambda>_. (area_at 0x400000 0x500000 NULL NULL)\<lparr>protection := elf_protection 6\<rparr>)\<rparr>) =
     Ok (Some (), anon_machine\<lparr>vma_at := (\<lambda>_. (area_at 0x400000 0x500000 NULL NULL)\<lparr>protection := elf_protection 6\<rparr>)\<rparr>)"
proof (rule write_to_segment_unresolved [where mm = "0xB000" and vs = "[0xC000]" and v = "0xC000" and fl = 6])
qed (simp_all add: anon_machine_def area_list_def dlist_def next_area_def prev_area_def area_at_def in_area_def area_end_def
    ELF_READ_def KERNBASE_def PG_FAULT_PRESENT_def PG_FAULT_WRITE_def)

end
