(* ===== verification/Keyboard.thy ===== *)
theory Keyboard
  imports Terminals
begin

text \<open>
  The interrupt controller, \<^verbatim>\<open>sys/pic.c\<close>, and the keyboard driver, \<^verbatim>\<open>sys/keyboard.c\<close>: the interrupt
  handler translates a scan code, tracks the shift and control keys, edits the terminal's line
  buffer and echoes on the screen.
\<close>

section \<open>The interrupt controller\<close>

definition I86_PIC_MASTER_COMMAND_REGISTER :: u16 where
  "I86_PIC_MASTER_COMMAND_REGISTER = 0x20"

definition I86_PIC_SLAVE_COMMAND_REGISTER :: u16 where
  "I86_PIC_SLAVE_COMMAND_REGISTER = 0xA0"

definition I86_PIC_MASTER_DATA_REGISTER :: u16 where
  "I86_PIC_MASTER_DATA_REGISTER = 0x21"

definition I86_PIC_SLAVE_DATA_REGISTER :: u16 where
  "I86_PIC_SLAVE_DATA_REGISTER = 0xA1"

definition I86_PIC_END_OF_INTERRUPT :: u8 where
  "I86_PIC_END_OF_INTERRUPT = 0x20"

definition INIT_PIC_CMD_WORD :: u8 where
  "INIT_PIC_CMD_WORD = 0x11"

definition MODE_8086 :: u8 where
  "MODE_8086 = 0x01"

definition i86_initialize_pic :: "u8 \<Rightarrow> u8 \<Rightarrow> 'z file_state_scheme \<Rightarrow> 'z file_state_scheme" where
  "i86_initialize_pic pic_master_base pic_slave_base s =
     (let a1 = inb I86_PIC_MASTER_DATA_REGISTER s;
          a2 = inb I86_PIC_SLAVE_DATA_REGISTER s
      in fold (\<lambda>(port, val). outb port val)
           [(I86_PIC_MASTER_COMMAND_REGISTER, INIT_PIC_CMD_WORD), (I86_PIC_SLAVE_COMMAND_REGISTER, INIT_PIC_CMD_WORD),
            (I86_PIC_MASTER_DATA_REGISTER, pic_master_base), (I86_PIC_SLAVE_DATA_REGISTER, pic_slave_base),
            (I86_PIC_MASTER_DATA_REGISTER, 4), (I86_PIC_SLAVE_DATA_REGISTER, 2),
            (I86_PIC_MASTER_DATA_REGISTER, MODE_8086), (I86_PIC_SLAVE_DATA_REGISTER, MODE_8086),
            (I86_PIC_MASTER_DATA_REGISTER, a1), (I86_PIC_SLAVE_DATA_REGISTER, a2)] s)"

text \<open>The register and the bit of an interrupt line.\<close>

definition i86_set_mask :: "u32 \<Rightarrow> 'z file_state_scheme \<Rightarrow> 'z file_state_scheme" where
  "i86_set_mask irq s =
     (if 7 < irq then
        outb I86_PIC_SLAVE_DATA_REGISTER (inb I86_PIC_SLAVE_DATA_REGISTER s OR push_bit (unat (irq - 8)) 1) s
      else
        outb I86_PIC_MASTER_DATA_REGISTER (inb I86_PIC_MASTER_DATA_REGISTER s OR push_bit (unat irq) 1) s)"

definition i86_clear_mask :: "u32 \<Rightarrow> 'z file_state_scheme \<Rightarrow> 'z file_state_scheme" where
  "i86_clear_mask irq s =
     (if 7 < irq then
        outb I86_PIC_SLAVE_DATA_REGISTER (inb I86_PIC_SLAVE_DATA_REGISTER s AND NOT (push_bit (unat (irq - 8)) 1)) s
      else
        outb I86_PIC_MASTER_DATA_REGISTER (inb I86_PIC_MASTER_DATA_REGISTER s AND NOT (push_bit (unat irq) 1)) s)"

definition i86_read_status_regs :: "u8 \<Rightarrow> 'z file_state_scheme \<Rightarrow> u16 \<times> 'z file_state_scheme" where
  "i86_read_status_regs cmd s =
     (let t = outb I86_PIC_SLAVE_COMMAND_REGISTER cmd (outb I86_PIC_MASTER_COMMAND_REGISTER cmd s)
      in (push_bit 8 (ucast (inb I86_PIC_SLAVE_COMMAND_REGISTER t)) OR ucast (inb I86_PIC_MASTER_COMMAND_REGISTER t), t))"

definition i86_pic_send_eoi_command :: "u32 \<Rightarrow> 'z file_state_scheme \<Rightarrow> 'z file_state_scheme" where
  "i86_pic_send_eoi_command irq s =
     outb I86_PIC_MASTER_COMMAND_REGISTER I86_PIC_END_OF_INTERRUPT
       (if 7 < irq then outb I86_PIC_SLAVE_COMMAND_REGISTER I86_PIC_END_OF_INTERRUPT s else s)"

definition i86_pic_send_data :: "u8 \<Rightarrow> u8 \<Rightarrow> 'z file_state_scheme \<Rightarrow> 'z file_state_scheme" where
  "i86_pic_send_data data picNum s =
     (if 1 < picNum then s
      else if picNum = 0 then outb I86_PIC_MASTER_DATA_REGISTER data s
      else outb I86_PIC_SLAVE_DATA_REGISTER data s)"

definition i86_pic_read_data :: "u8 \<Rightarrow> 'z file_state_scheme \<Rightarrow> u8" where
  "i86_pic_read_data picNum s =
     (if 1 < picNum then 0
      else if picNum = 0 then inb I86_PIC_MASTER_DATA_REGISTER s
      else inb I86_PIC_SLAVE_DATA_REGISTER s)"

section \<open>Scan codes\<close>

definition KEYBOARD_CONTROLLER_STATUS_REGISTER :: u16 where
  "KEYBOARD_CONTROLLER_STATUS_REGISTER = 0x64"

definition KEYBOARD_ENCODER_INPUT_REGISTER :: u16 where
  "KEYBOARD_ENCODER_INPUT_REGISTER = 0x60"

definition KEYBOARD_OUTPUT_BUFFER_STATUS :: u8 where
  "KEYBOARD_OUTPUT_BUFFER_STATUS = 1"

definition KEYBOARD_CONTROLLER_COMMAND_REGISTER :: u16 where
  "KEYBOARD_CONTROLLER_COMMAND_REGISTER = 0x64"

definition KEYBOARD_ENCODER_COMMAND_REGISTER :: u16 where
  "KEYBOARD_ENCODER_COMMAND_REGISTER = 0x60"

definition KEYBOARD_INPUT_BUFFER_STATUS :: u8 where
  "KEYBOARD_INPUT_BUFFER_STATUS = 2"

text \<open>
  Sending a command polls until the input buffer is empty. The second function polls the data port
  where the first polls the status port.
\<close>

definition send_command_to_controller :: "u8 \<Rightarrow> ('z file_state_scheme, unit) kop" where
  "send_command_to_controller cmd =
     bnd (loopM (\<lambda>_ :: unit. bnd (gets (inb KEYBOARD_CONTROLLER_STATUS_REGISTER)) (\<lambda>b.
            ret (if b AND KEYBOARD_INPUT_BUFFER_STATUS = 0 then Inr () else Inl ()))) ()) (\<lambda>_.
     modify (outb KEYBOARD_CONTROLLER_COMMAND_REGISTER cmd))"

definition send_command_to_encoder :: "u8 \<Rightarrow> ('z file_state_scheme, unit) kop" where
  "send_command_to_encoder cmd =
     bnd (loopM (\<lambda>_ :: unit. bnd (gets (inb KEYBOARD_ENCODER_INPUT_REGISTER)) (\<lambda>b.
            ret (if b AND KEYBOARD_INPUT_BUFFER_STATUS = 0 then Inr () else Inl ()))) ()) (\<lambda>_.
     modify (outb KEYBOARD_ENCODER_COMMAND_REGISTER cmd))"

text \<open>The characters the table lists; the entries behind them are 0. 2 and 3 stand for shift, 4 for control.\<close>

definition scancode_table :: "u8 list" where
  "scancode_table =
     [0, 27] @ bytes_of ''1234567890-='' @ [8, 9] @ bytes_of ''qwertyuiop[]'' @ [10, 4] @
     bytes_of ''asdfghjkl;'' @ [39, 96, 2, 92] @ bytes_of ''zxcvbnm,./'' @ [3] @ bytes_of ''*'' @ [0] @ bytes_of '' '' @
     [0, 0, 0, 0, 0, 0, 0, 0, 0, 0, 0, 0, 0, 0, 0] @ bytes_of ''-'' @ [0, 0, 0] @ bytes_of ''+'' @
     [0, 0, 0, 0, 0, 0, 0, 0, 0, 0, 0]"

definition scancodes :: "u8 \<Rightarrow> u8" where
  "scancodes k = (if unat k < length scancode_table then scancode_table ! unat k else 0)"

section \<open>The interrupt handler\<close>

text \<open>Echo by \<^verbatim>\<open>kprintf\<close>, unless the output has been stopped with control-S.\<close>

definition echo :: "bytes \<Rightarrow> ('z file_state_scheme, unit) kop" where
  "echo cs = bnd (gets stop_buffer_output) (\<lambda>b. if b = 0 then kprintf_bytes cs [] else ret ())"

text \<open>The characters the first switch gives with the shift key held.\<close>

definition shift_chars :: "(u8 \<times> u8) list" where
  "shift_chars = zip (bytes_of ''abcdefghijklmnopqrstuvwxyz1234567890'') (bytes_of ''ABCDEFGHIJKLMNOPQRSTUVWXYZ!@#$%^&*()'')"

definition shift_switch :: "u8 \<Rightarrow> ('z file_state_scheme, unit) kop" where
  "shift_switch c =
     (case map_of shift_chars c of
        None \<Rightarrow> ret ()
      | Some C \<Rightarrow> bnd (insert_char_into_input_buffer C) (\<lambda>_. echo [C]))"

text \<open>One blank over the character left of the cursor, which moves there.\<close>

definition blank_left :: "('z file_state_scheme, unit) kop" where
  "blank_left =
     bnd (modify (\<lambda>s. set_x (get_x s - 1) s)) (\<lambda>_.
     bnd (kprintf_bytes (bytes_of '' '') []) (\<lambda>_.
     modify (\<lambda>s. set_x (get_x s - 1) s)))"

definition blank_line :: "('z file_state_scheme, unit) kop" where
  "blank_line = bnd (gets line_cursor) (\<lambda>n. for_each [0..<nat (sint n + 1)] (\<lambda>_. blank_left))"

definition ctrl_switch :: "u8 \<Rightarrow> ('z file_state_scheme, unit) kop" where
  "ctrl_switch c =
     (if c = ch CHR ''h'' then
        bnd erase_char_from_input_buffer (\<lambda>_.
        bnd (modify (\<lambda>s. set_x (get_x s - 1) s)) (\<lambda>_.
        bnd (echo (bytes_of '' '')) (\<lambda>_.
        modify (\<lambda>s. set_x (get_x s - 1) s))))
      else if c = ch CHR ''q'' then
        bnd blank_line (\<lambda>_.
        bnd (gets stop_buffer_output) (\<lambda>b.
        if b \<noteq> 0 then
          bnd (modify (stop_buffer_output_update (\<lambda>_. 0))) (\<lambda>_.
          bnd (gets line_cursor) (\<lambda>n.
          bnd (gets input_buffer) (\<lambda>ib.
          for_each [0..<nat (sint n)] (\<lambda>i. bnd (load (ib + of_nat i)) (\<lambda>x. modify (kputchar x))))))
        else
          bnd (insert_char_into_input_buffer (ch CHR ''^'')) (\<lambda>_.
          bnd (insert_char_into_input_buffer (ch CHR ''Q'')) (\<lambda>_.
          kprintf_bytes (bytes_of ''^Q'') []))))
      else if c = ch CHR ''s'' then
        bnd (modify clear_input_buffer) (\<lambda>_. modify (stop_buffer_output_update (\<lambda>_. 1)))
      else if c = ch CHR ''u'' then
        bnd blank_line (\<lambda>_. modify clear_input_buffer)
      else if c \<in> set (bytes_of ''abcdefgijklmnoprtvwxyz'') then
        bnd (insert_char_into_input_buffer (ch CHR ''^'')) (\<lambda>_.
        bnd (insert_char_into_input_buffer (c - 32)) (\<lambda>_.
        echo [ch CHR ''^'', c - 32]))
      else ret ())"

definition plain_key :: "u8 \<Rightarrow> ('z file_state_scheme, unit) kop" where
  "plain_key c =
     bnd (insert_char_into_input_buffer c) (\<lambda>_.
     bnd (gets stop_buffer_output) (\<lambda>b. if b = 0 then modify (kputchar c) else ret ()))"

definition make_code :: "u8 \<Rightarrow> ('z file_state_scheme, unit) kop" where
  "make_code c =
     (if c = 2 \<or> c = 3 then modify (shift_key_update (\<lambda>_. 1))
      else if c = 4 then modify (ctrl_key_update (\<lambda>_. 1))
      else
        bnd (gets shift_key) (\<lambda>sh.
        bnd (gets ctrl_key) (\<lambda>ct.
        if sh \<noteq> 0 then shift_switch c
        else if ct \<noteq> 0 then ctrl_switch c
        else plain_key c)))"

definition break_code :: "u8 \<Rightarrow> ('z file_state_scheme, unit) kop" where
  "break_code c =
     bnd (if c = 2 \<or> c = 3 then modify (shift_key_update (\<lambda>_. 0)) else ret ()) (\<lambda>_.
     if c = 4 then modify (ctrl_key_update (\<lambda>_. 0)) else ret ())"

definition i86_keyboard_irq :: "('z file_state_scheme, unit) kop" where
  "i86_keyboard_irq =
     bnd (modify (i86_pic_send_eoi_command 1)) (\<lambda>_.
     bnd (modify (i86_set_mask 0)) (\<lambda>_.
     bnd (gets (inb KEYBOARD_CONTROLLER_STATUS_REGISTER)) (\<lambda>st.
     bnd (if KEYBOARD_OUTPUT_BUFFER_STATUS AND st \<noteq> 0 then
            bnd (gets (inb KEYBOARD_ENCODER_INPUT_REGISTER)) (\<lambda>scancode.
            if scancode AND 0x80 \<noteq> 0 then break_code (scancodes (scancode - 0x80))
            else make_code (scancodes scancode))
          else ret ()) (\<lambda>_.
     modify (i86_clear_mask 0)))))"

section \<open>What a sequence of key events means\<close>

text \<open>
  The characters a sequence of scan codes without the control key adds to the line: \<open>sh\<close> says whether
  the shift key is held.
\<close>

definition added :: "bool \<Rightarrow> u8 \<Rightarrow> bytes" where
  "added sh k =
     (if k AND 0x80 \<noteq> 0 \<or> scancodes k \<in> {2, 3} then []
      else if sh then (case map_of shift_chars (scancodes k) of None \<Rightarrow> [] | Some C \<Rightarrow> [C])
      else [scancodes k])"

definition held :: "bool \<Rightarrow> u8 \<Rightarrow> bool" where
  "held sh k =
     (if k AND 0x80 \<noteq> 0 then sh \<and> scancodes (k - 0x80) \<notin> {2, 3} else sh \<or> scancodes k \<in> {2, 3})"

fun line_of :: "bool \<Rightarrow> u8 list \<Rightarrow> bytes" where
  "line_of sh [] = []"
| "line_of sh (k # ks) = added sh k @ line_of (held sh k) ks"

text \<open>A key event: the keyboard has a code ready and raises its interrupt.\<close>

definition key_event :: "u8 \<Rightarrow> ('z file_state_scheme, unit) kop" where
  "key_event k =
     bnd (modify (\<lambda>s. s\<lparr>dev_in := (dev_in s)(KEYBOARD_CONTROLLER_STATUS_REGISTER := 1, KEYBOARD_ENCODER_INPUT_REGISTER := k)\<rparr>))
       (\<lambda>_. i86_keyboard_irq)"

text \<open>Writing to the interrupt controller does not change what the keyboard has ready.\<close>

definition pic_is_separate :: "'z file_state_scheme \<Rightarrow> bool" where
  "pic_is_separate s \<longleftrightarrow> (\<forall>p v d. p \<in> {I86_PIC_MASTER_COMMAND_REGISTER, I86_PIC_MASTER_DATA_REGISTER} \<longrightarrow>
     dev_react s p v d KEYBOARD_CONTROLLER_STATUS_REGISTER = d KEYBOARD_CONTROLLER_STATUS_REGISTER \<and>
     dev_react s p v d KEYBOARD_ENCODER_INPUT_REGISTER = d KEYBOARD_ENCODER_INPUT_REGISTER)"

lemma file_of_console_more:
  "console.more t = console.more s \<Longrightarrow> kmem t = kmem s \<and> input_buffer t = input_buffer s \<and>
    line_cursor t = line_cursor s \<and> head t = head s \<and> shift_key t = shift_key s \<and> ctrl_key t = ctrl_key s \<and>
    stop_buffer_output t = stop_buffer_output s \<and> dev_react t = dev_react s \<and> dev_in t = dev_in s"
  by (cases t, cases s) simp

text \<open>The parts of the state that matter between key events.\<close>

definition keyboard_view :: "'z file_state_scheme \<Rightarrow> 'z file_state_scheme \<Rightarrow> bool" where
  "keyboard_view s t \<longleftrightarrow> kmem t = kmem s \<and> input_buffer t = input_buffer s \<and> line_cursor t = line_cursor s \<and>
     head t = head s \<and> dev_react t = dev_react s"

lemma keyboard_view_typed: "keyboard_view s t \<Longrightarrow> typed t cs = typed s cs"
  by (simp add: keyboard_view_def typed_def)

lemma kprintf_bytes_single: "kprintf_bytes [c] [] s = Ok ((), if c \<noteq> ch CHR ''%'' then kputchar c s else s)"
  by simp

lemma echo_run: "\<exists>t. echo [c] s = Ok ((), t) \<and> console.more t = console.more s"
  by (simp add: echo_def)

lemma plain_key_run:
  assumes "typed s cs" "length cs < 4096"
  shows "\<exists>t. plain_key c s = Ok ((), t) \<and> typed t (cs @ [c]) \<and> shift_key t = shift_key s \<and> ctrl_key t = ctrl_key s \<and>
    dev_react t = dev_react s"
proof -
  define s1 where "s1 = s\<lparr>kmem := (kmem s)(head s := c), head := head s + 1, line_cursor := line_cursor s + 1\<rparr>"
  have i: "insert_char_into_input_buffer c s = Ok ((), s1)" "typed s1 (cs @ [c])"
    using insert_typed [OF assms] by (simp_all add: s1_def)
  have m: "console.more (kputchar c s1) = console.more s1" by simp
  have "typed (kputchar c s1) (cs @ [c])"
    using i(2) file_of_console_more [OF m] by (simp add: typed_def)
  moreover have "shift_key s1 = shift_key s" "ctrl_key s1 = ctrl_key s" "dev_react s1 = dev_react s"
    by (simp_all add: s1_def)
  ultimately show ?thesis
    using i file_of_console_more [OF m] by (simp add: plain_key_def bnd_Ok)
qed

lemma shift_switch_run:
  assumes "typed s cs" "length cs < 4096"
  shows "\<exists>t. shift_switch c s = Ok ((), t) \<and>
    typed t (cs @ (case map_of shift_chars c of None \<Rightarrow> [] | Some C \<Rightarrow> [C])) \<and>
    shift_key t = shift_key s \<and> ctrl_key t = ctrl_key s \<and> dev_react t = dev_react s"
proof (cases "map_of shift_chars c")
  case None
  with assms show ?thesis by (simp add: shift_switch_def)
next
  case (Some C)
  define s1 where "s1 = s\<lparr>kmem := (kmem s)(head s := C), head := head s + 1, line_cursor := line_cursor s + 1\<rparr>"
  have i: "insert_char_into_input_buffer C s = Ok ((), s1)" "typed s1 (cs @ [C])"
    using insert_typed [OF assms] by (simp_all add: s1_def)
  obtain t where t: "echo [C] s1 = Ok ((), t)" "console.more t = console.more s1" using echo_run by blast
  have "shift_key s1 = shift_key s" "ctrl_key s1 = ctrl_key s" "dev_react s1 = dev_react s"
    by (simp_all add: s1_def)
  then show ?thesis
    using i t Some file_of_console_more [OF t(2)] by (simp add: shift_switch_def bnd_Ok typed_def)
qed

lemma outb_fields [simp]:
  "kmem (outb p v s) = kmem s" "input_buffer (outb p v s) = input_buffer s" "line_cursor (outb p v s) = line_cursor s"
  "head (outb p v s) = head s" "shift_key (outb p v s) = shift_key s" "ctrl_key (outb p v s) = ctrl_key s"
  "stop_buffer_output (outb p v s) = stop_buffer_output s" "dev_react (outb p v s) = dev_react s"
  "dev_in (outb p v s) = dev_react s p v (dev_in s)"
  by (simp_all add: outb_def)

lemma typed_outb [simp]: "typed (outb p v s) cs = typed s cs"
  by (simp add: typed_def)

lemma typed_dev_in [simp]: "typed (s\<lparr>dev_in := d\<rparr>) cs = typed s cs"
  by (simp add: typed_def)

text \<open>The handler without the controller traffic around it.\<close>

definition handle_code :: "u8 \<Rightarrow> ('z file_state_scheme, unit) kop" where
  "handle_code k = (if k AND 0x80 \<noteq> 0 then break_code (scancodes (k - 0x80)) else make_code (scancodes k))"

lemma key_event_run:
  assumes "pic_is_separate s" "typed s cs"
  shows "\<exists>s1. typed s1 cs \<and> shift_key s1 = shift_key s \<and> ctrl_key s1 = ctrl_key s \<and> dev_react s1 = dev_react s \<and>
    key_event k s = bnd (handle_code k) (\<lambda>_. modify (i86_clear_mask 0)) s1"
proof -
  define s0 where "s0 = s\<lparr>dev_in := (dev_in s)(KEYBOARD_CONTROLLER_STATUS_REGISTER := 1, KEYBOARD_ENCODER_INPUT_REGISTER := k)\<rparr>"
  define s1 where "s1 = i86_set_mask 0 (i86_pic_send_eoi_command 1 s0)"
  have r: "KEYBOARD_CONTROLLER_STATUS_REGISTER \<noteq> KEYBOARD_ENCODER_INPUT_REGISTER"
    by (simp add: KEYBOARD_CONTROLLER_STATUS_REGISTER_def KEYBOARD_ENCODER_INPUT_REGISTER_def)
  have d: "dev_in s1 KEYBOARD_CONTROLLER_STATUS_REGISTER = 1" "dev_in s1 KEYBOARD_ENCODER_INPUT_REGISTER = k"
    using assms(1) r by (simp_all add: s1_def s0_def i86_set_mask_def i86_pic_send_eoi_command_def pic_is_separate_def)
  have "key_event k s = bnd (handle_code k) (\<lambda>_. modify (i86_clear_mask 0)) s1"
    using d by (simp add: key_event_def i86_keyboard_irq_def handle_code_def inb_def
        KEYBOARD_OUTPUT_BUFFER_STATUS_def s1_def s0_def)
  moreover have "typed s1 cs" "shift_key s1 = shift_key s" "ctrl_key s1 = ctrl_key s" "dev_react s1 = dev_react s"
    using assms(2) by (simp_all add: s1_def s0_def i86_set_mask_def i86_pic_send_eoi_command_def)
  ultimately show ?thesis by blast
qed

lemma clear_mask_fields [simp]:
  "typed (i86_clear_mask i s) cs = typed s cs" "shift_key (i86_clear_mask i s) = shift_key s"
  "ctrl_key (i86_clear_mask i s) = ctrl_key s" "dev_react (i86_clear_mask i s) = dev_react s"
  by (simp_all add: i86_clear_mask_def)

lemma typed_keys [simp]:
  "typed (s\<lparr>shift_key := v\<rparr>) cs = typed s cs" "typed (s\<lparr>ctrl_key := v\<rparr>) cs = typed s cs"
  by (simp_all add: typed_def)

lemma low_code: "(k :: u8) AND 0x80 = 0 \<Longrightarrow> k AND 0x7F = k"
proof -
  assume "k AND 0x80 = 0"
  moreover have "(k AND 0x80) OR (k AND NOT 0x80) = k" by (simp add: bit_eq_iff bit_simps) blast
  moreover have "NOT (0x80 :: u8) = 0x7F" by simp
  ultimately show ?thesis by (simp only: or.left_neutral)
qed

lemma handle_code_run:
  assumes "typed s cs" "length cs < 4096" "ctrl_key s = 0" "scancodes (k AND 0x7F) \<noteq> 4"
  shows "\<exists>t. handle_code k s = Ok ((), t) \<and> typed t (cs @ added (shift_key s \<noteq> 0) k) \<and>
    (shift_key t \<noteq> 0) = held (shift_key s \<noteq> 0) k \<and> ctrl_key t = 0 \<and> dev_react t = dev_react s"
proof (cases "k AND 0x80 = 0")
  case False
  with assms show ?thesis by (simp add: handle_code_def break_code_def added_def held_def)
next
  case True
  have c: "scancodes k \<noteq> 4" using assms(4) low_code [OF True] by simp
  consider "scancodes k \<in> {2, 3}" | "scancodes k \<notin> {2, 3}" "shift_key s \<noteq> 0" | "scancodes k \<notin> {2, 3}" "shift_key s = 0" by blast
  then show ?thesis
  proof cases
    case 1
    with True assms show ?thesis by (auto simp: handle_code_def make_code_def added_def held_def)
  next
    case 2
    with True c assms(3) show ?thesis
      using shift_switch_run [OF assms(1,2), of "scancodes k"] by (auto simp: handle_code_def make_code_def added_def held_def)
  next
    case 3
    with True c assms(3) show ?thesis
      using plain_key_run [OF assms(1,2), of "scancodes k"] by (auto simp: handle_code_def make_code_def added_def held_def)
  qed
qed



end
