(* ===== verification/Pit.thy ===== *)
theory Pit
  imports Process Keyboard
begin

text \<open>
  The timer, \<^verbatim>\<open>sys/pit.c\<close>: programming the counter, and the interrupt, which counts down the sleeping
  processes, delivers signals to the running process and ends its time slice.
\<close>

section \<open>The counter\<close>

definition I86_PIT_DATA_REGISTER_0 :: u16 where
  "I86_PIT_DATA_REGISTER_0 = 0x40"

definition I86_PIT_DATA_REGISTER_1 :: u16 where
  "I86_PIT_DATA_REGISTER_1 = 0x41"

definition I86_PIT_DATA_REGISTER_2 :: u16 where
  "I86_PIT_DATA_REGISTER_2 = 0x42"

definition I86_PIT_COMMAND_REGISTER :: u16 where
  "I86_PIT_COMMAND_REGISTER = 0x43"

definition INIT_PIT_CMD_WORD :: u8 where
  "INIT_PIT_CMD_WORD = 0x34"

definition freq :: u32 where
  "freq = 1000"

definition i86_start_counter :: "'z file_state_scheme \<Rightarrow> 'z file_state_scheme" where
  "i86_start_counter s =
     (if freq = 0 then s
      else
        let val = ucast (1193180 div freq) :: u16 in
        outb I86_PIT_DATA_REGISTER_0 (ucast (drop_bit 8 val AND 0xff))
          (outb I86_PIT_DATA_REGISTER_0 (ucast (val AND 0xff))
            (outb I86_PIT_COMMAND_REGISTER INIT_PIT_CMD_WORD s)))"

definition i86_pit_send_data :: "u16 \<Rightarrow> u8 \<Rightarrow> 'z file_state_scheme \<Rightarrow> 'z file_state_scheme" where
  "i86_pit_send_data data counterNum =
     (if 2 < counterNum then id
      else if counterNum = 0 then outb I86_PIT_DATA_REGISTER_0 (ucast data)
      else if counterNum = 1 then outb I86_PIT_DATA_REGISTER_1 (ucast data)
      else outb I86_PIT_DATA_REGISTER_2 (ucast data))"

definition i86_pit_read_data :: "u8 \<Rightarrow> 'z file_state_scheme \<Rightarrow> u16" where
  "i86_pit_read_data counterNum s =
     (if 2 < counterNum then 0
      else if counterNum = 0 then ucast (inb I86_PIT_DATA_REGISTER_0 s)
      else if counterNum = 1 then ucast (inb I86_PIT_DATA_REGISTER_1 s)
      else ucast (inb I86_PIT_DATA_REGISTER_2 s))"

definition get_number_of_ticks_since_boot :: "'z proc_state_scheme \<Rightarrow> u64" where
  "get_number_of_ticks_since_boot s = scast (ticks s)"

section \<open>Sleeping by waiting for the tick counter\<close>

text \<open>The counter is compared as an unsigned number. Nothing in the loop changes it.\<close>

definition sys_sleep :: "u64 \<Rightarrow> ('z proc_state_scheme, unit) kop" where
  "sys_sleep seconds =
     bnd (gets (\<lambda>s. ucast (scast (ticks s) + seconds * 1000 :: u64) :: u32)) (\<lambda>timer_ticks.
     bnd (loopM (\<lambda>_ :: unit. bnd (gets ticks) (\<lambda>t. ret (if t < timer_ticks then Inl () else Inr ()))) ()) (\<lambda>_.
     modify (kmsg ''sleep done\<newline>'')))"

section \<open>The interrupt\<close>

text \<open>
  The loop follows the link of a process after it was woken, when the link belongs to the run queue.
\<close>

definition sleeper_step :: "ptr \<Rightarrow> ('z proc_state_scheme, ptr + unit) kop" where
  "sleeper_step p =
     (if p = NULL then ret (Inr ())
      else
        bnd (get_pcb p sleep_time) (\<lambda>t.
        bnd (if t = 0 then try_to_wake_up sleeping_queue p
             else upd_pcb p (\<lambda>c. c\<lparr>sleep_time := sleep_time c - 1\<rparr>)) (\<lambda>_.
        bnd (get_pcb p next_in_queue) (\<lambda>n.
        ret (Inl n)))))"

definition count_down_sleepers :: "('z proc_state_scheme, unit) kop" where
  "count_down_sleepers = bnd (gets (\<lambda>s. processes (queues s sleeping_queue))) (loopM sleeper_step)"

definition deliver_signals :: "ptr \<Rightarrow> ('z file_state_scheme, unit option) kop" where
  "deliver_signals proc =
     bnd (get_pcb proc id) (\<lambda>c.
     if is_sigkill_pending c \<noteq> 0 then
       bnd (upd_pcb proc (is_sigkill_pending_update (\<lambda>_. 0))) (\<lambda>_. sys_exit 9)
     else if is_sigsegv_pending c \<noteq> 0 then
       bnd (upd_pcb proc (is_sigsegv_pending_update (\<lambda>_. 0))) (\<lambda>_. sys_exit 11)
     else ret (Some ()))"

definition i86_pit_irq :: "('z file_state_scheme, unit option) kop" where
  "i86_pit_irq =
     bnd (modify (i86_set_mask 1)) (\<lambda>_.
     bnd (modify (i86_pic_send_eoi_command 0)) (\<lambda>_.
     bnd count_down_sleepers (\<lambda>_.
     bnd get_current_process (\<lambda>proc.
     bnd (deliver_signals proc) (\<lambda>r.
     case r of
       None \<Rightarrow> ret None
     | Some _ \<Rightarrow>
         bnd (upd_pcb proc (\<lambda>c. c\<lparr>time_slice := time_slice c - 1\<rparr>)) (\<lambda>_.
         bnd (get_pcb proc time_slice) (\<lambda>t.
         bnd (if t \<le> 0 then reschedule else ret True) (\<lambda>b.
         if b then bnd (modify (i86_clear_mask 1)) (\<lambda>_. ret (Some ())) else ret None))))))))"

definition i86_pit_irq_resumed :: "('z file_state_scheme, unit) kop" where
  "i86_pit_irq_resumed = modify (i86_clear_mask 1)"

section \<open>What a tick does\<close>

definition one_less :: "pcb \<Rightarrow> pcb" where
  "one_less c = c\<lparr>sleep_time := sleep_time c - 1\<rparr>"

definition ticked :: "ptr set \<Rightarrow> 'z proc_state_scheme \<Rightarrow> 'z proc_state_scheme" where
  "ticked P s = s\<lparr>pcb_at := \<lambda>p. if p \<in> P then one_less (pcb_at s p) else pcb_at s p\<rparr>"

lemma ticked_insert: "p \<notin> P \<Longrightarrow> ticked (insert p P) s = ticked P (set_pcb p one_less s)"
  by (auto simp: ticked_def set_pcb_def fun_eq_iff)

lemma ticked_fields [simp]:
  "ticked {} s = s" "next_of (ticked P s) = next_of s" "queues (ticked P s) = queues s"
  "pid (pcb_at (ticked P s) p) = pid (pcb_at s p)" "p \<notin> P \<Longrightarrow> pcb_at (ticked P s) p = pcb_at s p"
  by (auto simp: ticked_def one_less_def next_of_def fun_eq_iff)

lemma sleepers_walk:
  assumes "lseg (next_of s) p ps q" "distinct ps" "\<And>x. x \<in> set ps \<Longrightarrow> sleep_time (pcb_at s x) \<noteq> 0"
  shows "loopM sleeper_step p s = loopM sleeper_step q (ticked (set ps) s)"
  using assms
proof (induction ps arbitrary: p s)
  case Nil
  then show ?case by simp
next
  case (Cons x xs)
  let ?s = "set_pcb x one_less s"
  have x: "p = x" "x \<noteq> NULL" "sleep_time (pcb_at s x) \<noteq> 0" using Cons.prems by auto
  have n: "next_of ?s = next_of s" by (auto simp: next_of_def set_pcb_def one_less_def fun_eq_iff)
  have "sleeper_step p s = Ok (Inl (next_of s x), ?s)"
    using x by (simp add: sleeper_step_def set_pcb_def one_less_def next_of_def)
  moreover have "loopM sleeper_step (next_of s x) ?s = loopM sleeper_step q (ticked (set xs) ?s)"
    by (rule Cons.IH) (use Cons.prems n in \<open>auto simp: set_pcb_def\<close>)
  ultimately show ?case using Cons.prems(2) by (simp add: loopM_continue ticked_insert)
qed

lemma wake_deep_sleeper_diverges:
  assumes "holds sleeping_queue s (a # b # ps)" "p \<noteq> NULL" "p \<noteq> a" "p \<noteq> b"
    and "pid (pcb_at s a) \<noteq> pid (pcb_at s p)" "pid (pcb_at s b) \<noteq> pid (pcb_at s p)"
  shows "try_to_wake_up sleeping_queue p s = Diverge"
proof -
  define t where "t = set_pcb p (thread_state_update (\<lambda>_. RUNNING)) (set_pcb p (process_state_update (\<lambda>_. NORMAL)) s)"
  have "next_of t = next_of s" by (auto simp: t_def next_of_def set_pcb_def fun_eq_iff)
  then have "holds sleeping_queue t (a # b # ps)" using assms(1) by (simp add: holds_def t_def)
  then have "remove_process_from_queue sleeping_queue p t = Diverge"
    by (rule remove_deeper_diverges) (use assms in \<open>auto simp: t_def\<close>)
  with assms(2) show ?thesis
    by (simp add: try_to_wake_up_def upd_pcb_run t_def bnd_def del: run_access bnd_access)
qed

text \<open>
  C30: A tick of the timer. As long as no sleeping process has expired, every process on the sleeping
  queue has its remaining time lowered by one and nothing else of the state changes. When the first two
  sleepers have time left and a later one has expired, the interrupt handler never returns.
\<close>

theorem timer_tick:
  assumes "holds sleeping_queue s ps" "inj_on (\<lambda>p. pid (pcb_at s p)) (set ps)"
  shows "if \<forall>p\<in>set ps. sleep_time (pcb_at s p) \<noteq> 0
    then count_down_sleepers s = Ok ((), ticked (set ps) s)
    else 2 \<le> length ps \<and> (\<forall>p\<in>set (take 2 ps). sleep_time (pcb_at s p) \<noteq> 0) \<longrightarrow> count_down_sleepers s = Diverge"
proof -
  have l: "llist (next_of s) (processes (queues s sleeping_queue)) ps" and d: "distinct ps"
    using assms(1) llist_distinct by (auto simp: holds_def)
  have start: "count_down_sleepers s = loopM sleeper_step (processes (queues s sleeping_queue)) s"
    by (simp add: count_down_sleepers_def)
  show ?thesis
  proof (cases "\<forall>p\<in>set ps. sleep_time (pcb_at s p) \<noteq> 0")
    case True
    then have "count_down_sleepers s = loopM sleeper_step NULL (ticked (set ps) s)"
      using sleepers_walk [OF l d] by (simp add: start)
    also have "\<dots> = Ok ((), ticked (set ps) s)"
      by (rule loopM_exit) (simp add: sleeper_step_def)
    finally show ?thesis using True by (simp only: if_P)
  next
    case False
    moreover have "count_down_sleepers s = Diverge"
      if two: "2 \<le> length ps" "\<forall>p\<in>set (take 2 ps). sleep_time (pcb_at s p) \<noteq> 0"
    proof -
      obtain xs p ys where ps: "ps = xs @ p # ys" "sleep_time (pcb_at s p) = 0" "\<forall>x\<in>set xs. sleep_time (pcb_at s x) \<noteq> 0"
        using split_list_first_prop [of ps "\<lambda>p. sleep_time (pcb_at s p) = 0"] False by blast
      have "2 \<le> length xs"
        using two ps by (cases xs; cases "tl xs") auto
      then obtain a b zs where xs: "xs = a # b # zs" by (cases xs; cases "tl xs") auto
      let ?t = "ticked (set xs) s"
      have seg: "lseg (next_of s) (processes (queues s sleeping_queue)) xs p" "p \<noteq> NULL"
        using l by (auto simp: ps(1) lseg_append)
      have "count_down_sleepers s = loopM sleeper_step p ?t"
        using sleepers_walk [OF seg(1)] d ps by (simp add: start)
      also have "try_to_wake_up sleeping_queue p ?t = Diverge"
      proof (rule wake_deep_sleeper_diverges)
        show "holds sleeping_queue ?t (a # b # zs @ p # ys)" using l ps(1) xs by (simp add: holds_def)
        show "pid (pcb_at ?t a) \<noteq> pid (pcb_at ?t p)" "pid (pcb_at ?t b) \<noteq> pid (pcb_at ?t p)"
          using assms(2) d unfolding ps(1) xs inj_on_def by auto
      qed (use seg(2) d ps(1) xs in auto)
      then have "sleeper_step p ?t = Diverge"
        using seg(2) ps d by (simp add: sleeper_step_def bnd_def get_pcb_def gets_def deref_def ret_def)
      then have "loopM sleeper_step p ?t = Diverge" by (subst loopM_unfold) simp
      finally show ?thesis .
    qed
    ultimately show ?thesis by auto
  qed
qed

text \<open>Three sleepers; the third has \<open>k\<close> ticks left.\<close>

definition three_sleepers :: "u64 \<Rightarrow> proc_state" where
  "three_sleepers k = rehead sleeping_queue 0x1000 (idle_machine ((\<lambda>_. zero_pcb)
     (0x1000 := zero_pcb\<lparr>pid := 1, sleep_time := 5, next_in_queue := 0x2000\<rparr>,
      0x2000 := zero_pcb\<lparr>pid := 2, sleep_time := 7, next_in_queue := 0x3000\<rparr>,
      0x3000 := zero_pcb\<lparr>pid := 3, sleep_time := k\<rparr>)))"

lemma three_sleepers_wf:
  "holds sleeping_queue (three_sleepers k) [0x1000, 0x2000, 0x3000]"
  "inj_on (\<lambda>p. pid (pcb_at (three_sleepers k) p)) (set [0x1000, 0x2000, 0x3000])"
  by (simp_all add: three_sleepers_def holds_def next_of_def idle_machine_def virt_state.defs rehead_def zero_pcb_def)

theorem timer_tick_witness:
  "count_down_sleepers (three_sleepers 9) = Ok ((), ticked {0x1000, 0x2000, 0x3000} (three_sleepers 9)) \<and>
   count_down_sleepers (three_sleepers 0) = Diverge"
  using timer_tick [OF three_sleepers_wf, of 9] timer_tick [OF three_sleepers_wf, of 0]
  by (simp add: three_sleepers_def idle_machine_def virt_state.defs rehead_def)



end
