(* ===== verification/Descriptors.thy ===== *)
theory Descriptors
  imports Pit
begin

text \<open>
  The tables the processor reads, \<^verbatim>\<open>sys/gdt.c\<close>, \<^verbatim>\<open>sys/idt.c\<close> and \<^verbatim>\<open>sys/common.c\<close>: the segment descriptors
  with the descriptor of the task state segment, the gates of the interrupts, and the functions that
  fill them. Addresses of handlers and of the task state segment are fixed by the linker.
\<close>

section \<open>State\<close>

record idtentry =
  offset_low :: u16
  selector :: u16
  ist :: u8
  type_attr :: u8
  offset_mid :: u16
  offset_high :: u32
  gate_reserved :: u32

definition zero_gate :: idtentry where
  "zero_gate = \<lparr>offset_low = 0, selector = 0, ist = 0, type_attr = 0, offset_mid = 0, offset_high = 0, gate_reserved = 0\<rparr>"

record desc_state = file_state +
  idt :: "u8 \<Rightarrow> idtentry"
  gdt :: "u64 list"
  interrupts :: bool

section \<open>Segments\<close>

definition GDT_CS :: u64 where "GDT_CS = 0x00180000000000"

definition GDT_DS :: u64 where "GDT_DS = 0x00100000000000"

definition DPL0 :: u64 where "DPL0 = 0x00000000000000"

definition DPL3 :: u64 where "DPL3 = 0x00600000000000"

definition GDT_P :: u64 where "GDT_P = 0x00800000000000"

definition GDT_L :: u64 where "GDT_L = 0x20000000000000"

definition GDT_W :: u64 where "GDT_W = 0x00020000000000"

definition initial_gdt :: "u64 list" where
  "initial_gdt =
     [0, GDT_CS OR GDT_P OR DPL0 OR GDT_L, GDT_DS OR GDT_P OR GDT_W OR DPL0, 0,
      GDT_DS OR GDT_P OR GDT_W OR DPL3, GDT_CS OR GDT_P OR DPL3 OR GDT_L] @ replicate 26 0"

text \<open>Storing into a bit field: \<open>n\<close> bits from position \<open>i\<close> of a word.\<close>

definition set_bits_at :: "nat \<Rightarrow> nat \<Rightarrow> u64 \<Rightarrow> u64 \<Rightarrow> u64" where
  "set_bits_at i n v w = (w AND NOT (push_bit i (mask n))) OR push_bit i (take_bit n v)"

definition sizeof_tss :: u64 where
  "sizeof_tss = 104"

text \<open>The field for the upper part of the base lies across the border of the two words.\<close>

definition tss_descriptor_low :: "u64 \<Rightarrow> u64 \<Rightarrow> u64" where
  "tss_descriptor_low tss w =
     set_bits_at 56 8 (drop_bit 24 tss)
       (set_bits_at 55 1 0
         (set_bits_at 48 4 0
           (set_bits_at 47 1 1
             (set_bits_at 45 2 0
               (set_bits_at 40 5 9
                 (set_bits_at 16 24 tss
                   (set_bits_at 0 16 (sizeof_tss - 1) w)))))))"

definition tss_descriptor_high :: "u64 \<Rightarrow> u64 \<Rightarrow> u64" where
  "tss_descriptor_high tss w = set_bits_at 0 32 (drop_bit 8 (take_bit 40 (drop_bit 24 tss))) w"

definition init_gdt :: "u64 \<Rightarrow> 'z desc_state_scheme \<Rightarrow> 'z desc_state_scheme" where
  "init_gdt tss s =
     s\<lparr>gdt := (gdt s)[6 := tss_descriptor_low tss (gdt s ! 6), 7 := tss_descriptor_high tss (gdt s ! 7)]\<rparr>"

section \<open>Interrupt gates\<close>

definition set_idt_func :: "u8 \<Rightarrow> u64 \<Rightarrow> u16 \<Rightarrow> u8 \<Rightarrow> 'z desc_state_scheme \<Rightarrow> 'z desc_state_scheme" where
  "set_idt_func i base_addr code_seg access s =
     s\<lparr>idt := (idt s)(i :=
        \<lparr>offset_low = ucast (base_addr AND 0xffff), selector = code_seg, ist = 0, type_attr = access,
         offset_mid = ucast (drop_bit 16 base_addr AND 0xffff),
         offset_high = ucast (drop_bit 32 base_addr AND 0xffffffff), gate_reserved = 0\<rparr>)\<rparr>"

definition init_idt :: "'z desc_state_scheme \<Rightarrow> 'z desc_state_scheme" where
  "init_idt s = s\<lparr>idt := (\<lambda>_. zero_gate)\<rparr>"

definition set_int_vect :: "u8 \<Rightarrow> u64 \<Rightarrow> 'z desc_state_scheme \<Rightarrow> 'z desc_state_scheme" where
  "set_int_vect int_num f = set_idt_func int_num f 0x08 0x8E"

definition set_int_vect_ring3 :: "u8 \<Rightarrow> u64 \<Rightarrow> 'z desc_state_scheme \<Rightarrow> 'z desc_state_scheme" where
  "set_int_vect_ring3 int_num f = set_idt_func int_num f 0x08 0xEE"

definition set_default_interrupts :: "u64 \<Rightarrow> 'z desc_state_scheme \<Rightarrow> 'z desc_state_scheme" where
  "set_default_interrupts default_handler = fold (\<lambda>i. set_int_vect (of_nat i) default_handler) [0..<256]"

definition i86_initialize_pit :: "u64 \<Rightarrow> 'z desc_state_scheme \<Rightarrow> 'z desc_state_scheme" where
  "i86_initialize_pit i86_pit_wrapper = set_int_vect 32 i86_pit_wrapper"

definition i86_initialize_keyboard_interrupt :: "u64 \<Rightarrow> 'z desc_state_scheme \<Rightarrow> 'z desc_state_scheme" where
  "i86_initialize_keyboard_interrupt i86_keyboard_wrapper = set_int_vect 33 i86_keyboard_wrapper"

definition i86_initialize_page_fault_handler :: "u64 \<Rightarrow> 'z desc_state_scheme \<Rightarrow> 'z desc_state_scheme" where
  "i86_initialize_page_fault_handler i86_page_fault_handler = set_int_vect 14 i86_page_fault_handler"

definition initialize :: "u64 \<Rightarrow> u64 \<Rightarrow> 'z desc_state_scheme \<Rightarrow> 'z desc_state_scheme" where
  "initialize i86_pit_wrapper i86_keyboard_wrapper s =
     i86_initialize_keyboard_interrupt i86_keyboard_wrapper
       (i86_start_counter (i86_initialize_pit i86_pit_wrapper (i86_initialize_pic 0x20 0x28 s)))"

definition enable_all_interrupts :: "'z desc_state_scheme \<Rightarrow> 'z desc_state_scheme" where
  "enable_all_interrupts s = s\<lparr>interrupts := True\<rparr>"

definition disable_all_interrupts :: "'z desc_state_scheme \<Rightarrow> 'z desc_state_scheme" where
  "disable_all_interrupts s = s\<lparr>interrupts := False\<rparr>"

section \<open>What the processor reads\<close>

definition gate_offset :: "idtentry \<Rightarrow> u64" where
  "gate_offset g = push_bit 32 (ucast (offset_high g)) OR push_bit 16 (ucast (offset_mid g)) OR ucast (offset_low g)"

definition gate_present :: "idtentry \<Rightarrow> bool" where
  "gate_present g = bit (type_attr g) 7"

text \<open>A 64-bit interrupt gate that only the kernel may raise, into the code segment of the kernel.\<close>

definition kernel_gate :: "idtentry \<Rightarrow> bool" where
  "kernel_gate g \<longleftrightarrow> gate_present g \<and> take_bit 4 (type_attr g) = 0xE \<and> take_bit 2 (drop_bit 5 (type_attr g)) = 0 \<and>
     selector g = 8 \<and> ist g = 0 \<and> gate_reserved g = 0"

lemma split_offset:
  "push_bit 32 (ucast (ucast (drop_bit 32 a AND 0xffffffff) :: u32)) OR
   push_bit 16 (ucast (ucast (drop_bit 16 a AND 0xffff) :: u16)) OR ucast (ucast (a AND 0xffff) :: u16) = (a :: u64)"
proof -
  have m: "(0xffff :: u64) = mask 16" "(0xffffffff :: u64) = mask 32" by (simp_all add: mask_eq_exp_minus_1)
  show ?thesis
    unfolding m
  proof (rule bit_eqI)
    fix n :: nat
    consider "n < 16" | "16 \<le> n" "n < 32" | "32 \<le> n" by linarith
    then show "bit (push_bit 32 (ucast (ucast (drop_bit 32 a AND mask 32) :: u32) :: u64) OR
      push_bit 16 (ucast (ucast (drop_bit 16 a AND mask 16) :: u16)) OR ucast (ucast (a AND mask 16) :: u16)) n = bit a n"
      using bit_imp_le_length [of a n] by cases (auto simp: bit_simps)
  qed
qed

lemma idt_outb [simp]: "idt (outb p v s) = idt s"
  by (simp add: outb_def)

lemma idt_start_counter [simp]: "idt (i86_start_counter s) = idt s"
  by (simp add: i86_start_counter_def Let_def)

lemma idt_initialize_pic [simp]: "idt (i86_initialize_pic a b s) = idt s"
  by (simp add: i86_initialize_pic_def Let_def)

lemma idt_set_int_vect:
  "idt (set_int_vect n f s) i = (if i = n then idt (set_int_vect n f s) n else idt s i)"
  "gate_offset (idt (set_int_vect n f s) n) = f" "kernel_gate (idt (set_int_vect n f s) n)"
  by (simp_all add: set_int_vect_def set_idt_func_def gate_offset_def split_offset kernel_gate_def gate_present_def)

text \<open>
  C34: The gates after the start of the kernel. The timer, the keyboard and the page fault have
  well-formed gates of the kernel from which the processor reassembles exactly the address of the
  handler; no other vector has a gate that is present, since \<^verbatim>\<open>set_default_interrupts\<close> is never called.
\<close>

theorem gates_after_start:
  fixes s :: "'z desc_state_scheme"
  shows "let g = idt (i86_initialize_page_fault_handler pf (initialize pit kb (init_idt s)))
    in (\<forall>i. gate_present (g i) \<longleftrightarrow> i \<in> {14, 32, 33}) \<and> (\<forall>i. kernel_gate (g i) \<longleftrightarrow> i \<in> {14, 32, 33}) \<and>
       gate_offset (g 14) = pf \<and> gate_offset (g 32) = pit \<and> gate_offset (g 33) = kb"
proof -
  define g where "g = idt (i86_initialize_page_fault_handler pf (initialize pit kb (init_idt s)))"
  have g: "kernel_gate (g 14)" "kernel_gate (g 32)" "kernel_gate (g 33)"
    "gate_offset (g 14) = pf" "gate_offset (g 32) = pit" "gate_offset (g 33) = kb"
    by (simp_all add: g_def i86_initialize_page_fault_handler_def initialize_def i86_initialize_keyboard_interrupt_def
        i86_initialize_pit_def set_int_vect_def set_idt_func_def gate_offset_def split_offset kernel_gate_def gate_present_def)
  have z: "g i = zero_gate" if "i \<noteq> 14" "i \<noteq> 32" "i \<noteq> 33" for i
    using that
    by (simp add: g_def i86_initialize_page_fault_handler_def initialize_def i86_initialize_keyboard_interrupt_def
        i86_initialize_pit_def set_int_vect_def set_idt_func_def init_idt_def)
  have n: "\<not> gate_present zero_gate" by (simp add: gate_present_def zero_gate_def)
  have k: "kernel_gate (g i) \<longleftrightarrow> i \<in> {14, 32, 33}" for i
    using g(1-3) z [of i] n by (cases "i = 14 \<or> i = 32 \<or> i = 33") (auto simp: kernel_gate_def)
  have p: "gate_present (g i) \<longleftrightarrow> i \<in> {14, 32, 33}" for i
    using k [of i] z [of i] n by (cases "i = 14 \<or> i = 32 \<or> i = 33") (auto simp: kernel_gate_def)
  show ?thesis
    unfolding Let_def g_def [symmetric] using p k g(4-6) by blast
qed

definition tss_base :: "u64 \<Rightarrow> u64 \<Rightarrow> u64" where
  "tss_base lo hi = push_bit 32 (take_bit 32 hi) OR push_bit 24 (take_bit 8 (drop_bit 56 lo)) OR take_bit 24 (drop_bit 16 lo)"

lemma split_base:
  "push_bit 32 (take_bit 32 (drop_bit 32 a)) OR push_bit 24 (take_bit 8 (drop_bit 24 a)) OR take_bit 24 a = (a :: u64)"
proof (rule bit_eqI)
  fix n :: nat
  consider "n < 24" | "24 \<le> n" "n < 32" | "32 \<le> n" by linarith
  then show "bit (push_bit 32 (take_bit 32 (drop_bit 32 a)) OR push_bit 24 (take_bit 8 (drop_bit 24 a)) OR take_bit 24 a) n = bit a n"
    using bit_imp_le_length [of a n] by cases (auto simp: bit_simps)
qed

lemma bit_set_bits_at:
  "bit (set_bits_at i n v w) k \<longleftrightarrow> k < 64 \<and> (if i \<le> k \<and> k < i + n then bit v (k - i) else bit w k)"
  using bit_imp_le_length [of w k] by (auto simp: set_bits_at_def bit_simps)

lemma field_set_bits_at:
  "i \<le> j \<Longrightarrow> j + m \<le> i + n \<Longrightarrow> i + n \<le> 64 \<Longrightarrow> take_bit m (drop_bit j (set_bits_at i n v w)) = take_bit m (drop_bit (j - i) v)"
  "j + m \<le> i \<or> i + n \<le> j \<Longrightarrow> take_bit m (drop_bit j (set_bits_at i n v w)) = take_bit m (drop_bit j w)"
  by (rule bit_eqI, auto simp: bit_simps bit_set_bits_at dest: bit_imp_le_length)+

text \<open>
  Setting up the segments gives a task state descriptor from which the processor reassembles the
  address of the task state segment, its limit, the type of an available segment at privilege level 0 and
  the present bit; all other descriptors stay as they were.
\<close>

theorem init_gdt_descriptor:
  assumes "length (gdt s) = 32"
  shows "let lo = gdt (init_gdt tss s) ! 6; hi = gdt (init_gdt tss s) ! 7
    in tss_base lo hi = tss \<and> take_bit 16 (drop_bit 0 lo) = sizeof_tss - 1 \<and> take_bit 5 (drop_bit 40 lo) = 9 \<and>
       take_bit 2 (drop_bit 45 lo) = 0 \<and> bit lo 47 \<and>
       (\<forall>i. i \<noteq> 6 \<and> i \<noteq> 7 \<longrightarrow> gdt (init_gdt tss s) ! i = gdt s ! i)"
proof -
  let ?lo = "tss_descriptor_low tss (gdt s ! 6)" and ?hi = "tss_descriptor_high tss (gdt s ! 7)"
  have e: "gdt (init_gdt tss s) ! 6 = ?lo" "gdt (init_gdt tss s) ! 7 = ?hi"
    using assms by (simp_all add: init_gdt_def)
  have "take_bit 24 (drop_bit 16 ?lo) = take_bit 24 tss" "take_bit 8 (drop_bit 56 ?lo) = take_bit 8 (drop_bit 24 tss)"
    "take_bit 32 ?hi = take_bit 32 (drop_bit 32 tss)"
    unfolding tss_descriptor_low_def tss_descriptor_high_def
    by (simp_all add: field_set_bits_at field_set_bits_at(1) [of 0 0, simplified] drop_bit_take_bit)
  then have "tss_base ?lo ?hi = tss" by (simp add: tss_base_def split_base)
  moreover have "take_bit 16 (drop_bit 0 ?lo) = sizeof_tss - 1" "take_bit 5 (drop_bit 40 ?lo) = 9"
    "take_bit 2 (drop_bit 45 ?lo) = 0" "bit ?lo 47"
    unfolding tss_descriptor_low_def
    by (simp_all add: bit_set_bits_at field_set_bits_at field_set_bits_at(1) [of 0 0, simplified] field_set_bits_at(2) [of 0, simplified] sizeof_tss_def)
  ultimately show ?thesis unfolding e Let_def by (simp add: init_gdt_def)
qed

theorem init_gdt_descriptor_witness:
  "\<exists>s :: desc_state. tss_base (gdt (init_gdt 0xFFFFFFFF80212345 s) ! 6) (gdt (init_gdt 0xFFFFFFFF80212345 s) ! 7) = 0xFFFFFFFF80212345"
proof -
  define s :: desc_state where "s = file_state.extend (terminal_machine []) \<lparr>idt = (\<lambda>_. zero_gate), gdt = initial_gdt, interrupts = False\<rparr>"
  have "length (gdt s) = 32" by (simp add: s_def file_state.defs initial_gdt_def)
  from init_gdt_descriptor [OF this, of "0xFFFFFFFF80212345"] show ?thesis unfolding Let_def by blast
qed

end
