(* ===== verification/Kernel_Stack.thy ===== *)
theory Kernel_Stack
  imports Process
begin

text \<open>
  Kernel stacks. A kernel stack is one page, reached through the kernel base; this theory reads and
  writes it word by word and shows what \<^verbatim>\<open>copy_thread\<close> of \<^verbatim>\<open>sys/process.c\<close> puts on the stack of a forked process.
\<close>

section \<open>Words of a page\<close>

text \<open>Word \<open>i\<close> of the page at physical address \<open>a\<close>, seen through the kernel base.\<close>

definition page_word :: "u64 \<Rightarrow> nat \<Rightarrow> 'z virt_state_scheme \<Rightarrow> u64" where
  "page_word a i s = pmem s (entry a (of_nat i))"

definition word_at :: "u64 \<Rightarrow> nat \<Rightarrow> ptr" where
  "word_at a i = (a OR KERNBASE) + 8 * of_nat i"

lemma kpa_page_word: "i < 512 \<Longrightarrow> get_kpa (word_at a i) = entry a (of_nat i)"
proof -
  assume "i < 512"
  then have "ucast (of_nat i :: u16) = (of_nat i :: u64)"
    by (simp add: word_unat_eq_iff unsigned_ucast_eq unat_of_nat take_bit_nat_eq_self)
  then show ?thesis by (simp add: entry_def word_at_def)
qed

lemma kword_page: "i < 512 \<Longrightarrow> kword (word_at a i) s = page_word a i s"
  by (simp add: kword_def page_word_def kpa_page_word)

lemma set_kword_page:
  assumes "i < 512" "j < 512" "low_page a" "low_page b"
  shows "page_word b j (set_kword (word_at a i) v s) = (if b = a \<and> j = i then v else page_word b j s)"
proof -
  have "(of_nat j :: u16) = of_nat i \<longleftrightarrow> j = i" using assms(1,2) by (metis unat_of_nat_u16)
  then show ?thesis
    using assms by (simp add: set_kword_def page_word_def kpa_page_word entry_inject unat_of_nat_u16)
qed

lemma copy_words_Suc:
  "copy_words (Suc n) d src s = (let t = copy_words n d src s in set_kword (d + 8 * of_nat n) (kword (src + 8 * of_nat n) t) t)"
  by (simp add: copy_words_def Let_def)

lemma shift_word: "word_at a i + 8 * of_nat n = word_at a (i + n)"
  by (simp add: word_at_def algebra_simps)

lemma copy_words_page:
  assumes "low_page a" "low_page b" "a \<noteq> b" "i + n \<le> 512" "k + n \<le> 512" "low_page c" "j < 512"
  shows "page_word c j (copy_words n (word_at a i) (word_at b k) s) =
    (if c = a \<and> i \<le> j \<and> j < i + n then page_word b (k + (j - i)) s else page_word c j s)"
  using assms(4-)
proof (induction n arbitrary: c j)
  case 0
  then show ?case by (auto simp: copy_words_def)
next
  case (Suc n)
  have "page_word b (k + n) (copy_words n (word_at a i) (word_at b k) s) = page_word b (k + n) s"
    using Suc.IH [of b "k + n"] Suc.prems assms(2,3) by auto
  with Suc show ?case
    using assms(1,2) by (auto simp: copy_words_Suc Let_def shift_word kword_page set_kword_page less_Suc_eq simp del: of_nat_add)
qed

lemma copy_words_self: "copy_words n p p s = s"
proof -
  have "set_kword q (kword q s) s = s" for q by (simp add: set_kword_def kword_def)
  then show ?thesis by (induction n) (simp_all add: copy_words_Suc copy_words_def)
qed

lemma copy_words_frame [simp]:
  "virt_state.more (copy_words n d p s) = virt_state.more s"
  by (induction n) (simp_all add: copy_words_def set_kword_def)

lemma page_word_clear_table:
  assumes "low_page a" "low_page b" "b \<noteq> a" "0 < j" "j < 512"
  shows "page_word b j (clear_table (a OR KERNBASE) s) = page_word b j s"
proof -
  obtain k l where kl: "unat a = 4096 * k" "unat b = 4096 * l"
    using low_page_nat(2) [OF assms(1)] low_page_nat(2) [OF assms(2)] by (auto elim!: dvdE)
  have e: "unat (entry b (of_nat j)) = unat b + 8 * j"
    using unat_entry [of b "of_nat j"] assms by (simp add: unat_of_nat_u16)
  have a: "unat (a + 4096) = unat a + 4096"
    using unat_add_of_nat [of a 4096] low_page_nat(1) [OF assms(1)] by simp
  have "k \<noteq> l" using assms(3) kl by (auto simp: word_unat_eq_iff)
  then consider "k + 1 \<le> l" | "l + 1 \<le> k" by linarith
  then have "\<not> (unat a \<le> unat (entry b (of_nat j)) \<and> unat (entry b (of_nat j)) < unat a + 4096)"
    "unat (entry b (of_nat j)) \<noteq> unat (a + 4096)"
    unfolding e a kl by (cases; use assms(4,5) in linarith)+
  moreover have "get_kpa a = a" using assms(1) by (simp add: low_page_def kpa_low)
  ultimately show ?thesis
    by (auto simp: page_word_def clear_table_def clear_words_def)
qed

section \<open>Saved registers\<close>

text \<open>The saved registers end at the top of the page: they are its words from 491 on.\<close>

lemma reg_index_less: "reg_index f < 21"
  by (cases f) simp_all

lemma reg_index_rax: "reg_index f = 10 \<longleftrightarrow> f = reg_rax"
  by (cases f) simp_all

lemma top_slots:
  "(a OR KERNBASE) + PAGE_BLOCK_SIZE - sizeof_reg_list = word_at a 491"
  "frame_ret_addr (word_at a 491 - 56) = word_at a 490" "frame_rbx (word_at a 491 - 56) = word_at a 488"
  "reg_slot (word_at a 491) f = word_at a (491 + reg_index f)"
  by (simp_all add: word_at_def PAGE_BLOCK_SIZE_def sizeof_reg_list_def frame_ret_addr_def frame_rbx_def reg_slot_def)

lemma page_word_upd [simp]:
  "page_word a i (s\<lparr>pcb_at := f\<rparr>) = page_word a i s" "page_word a i (s\<lparr>cpu := c\<rparr>) = page_word a i s"
  by (simp_all add: page_word_def)

lemma page_word_alloc [simp]: "page_word a i (snd (phys_mem_alloc s)) = page_word a i s"
  by (simp add: page_word_def)

text \<open>The pages of the stack of the child after \<open>copy_thread\<close>, for a process of a user.\<close>

definition forked_stack :: "u64 \<Rightarrow> u64 \<Rightarrow> u64 \<Rightarrow> 'z virt_state_scheme \<Rightarrow> 'z virt_state_scheme" where
  "forked_stack ret_from_fork a b s =
     set_kword (word_at a 501) 0
       (copy_words 21 (word_at a 491) (word_at b 491)
         (set_kword (word_at a 488) 0
           (set_kword (word_at a 490) ret_from_fork
             (copy_words 512 (word_at a 0) (word_at b 0) (clear_table (a OR KERNBASE) s)))))"

lemma forked_stack_words:
  assumes "low_page a" "low_page b" "a \<noteq> b"
  shows "i < 21 \<Longrightarrow> page_word a (491 + i) (forked_stack r a b s) = (if i = 10 then 0 else page_word b (491 + i) s)"
    and "page_word a 490 (forked_stack r a b s) = r" "page_word a 488 (forked_stack r a b s) = 0"
proof -
  have c: "page_word b j (clear_table (a OR KERNBASE) s) = page_word b j s" if "0 < j" "j < 512" for j
    using page_word_clear_table [of a b j s] assms that by simp
  note [simp] = copy_words_page set_kword_page
  show "i < 21 \<Longrightarrow> page_word a (491 + i) (forked_stack r a b s) = (if i = 10 then 0 else page_word b (491 + i) s)"
    using assms c [of "491 + i"] by (simp add: forked_stack_def)
  show "page_word a 490 (forked_stack r a b s) = r" "page_word a 488 (forked_stack r a b s) = 0"
    using assms by (simp_all add: forked_stack_def)
qed

text \<open>Writing to a stack and changing the descriptor of a process are independent.\<close>

lemma set_kword_pcb [simp]:
  "set_kword p v (s\<lparr>pcb_at := f\<rparr>) = (set_kword p v s)\<lparr>pcb_at := f\<rparr>" "pcb_at (set_kword p v s) = pcb_at s"
  by (simp_all add: set_kword_def)

lemma clear_table_pcb [simp]: "clear_table p (s\<lparr>pcb_at := f\<rparr>) = (clear_table p s)\<lparr>pcb_at := f\<rparr>"
  by (simp add: clear_table_def)

lemma copy_words_pcb [simp]:
  "copy_words n d p (s\<lparr>pcb_at := f\<rparr>) = (copy_words n d p s)\<lparr>pcb_at := f\<rparr>" "pcb_at (copy_words n d p s) = pcb_at s"
  by (induction n) (simp_all add: copy_words_def set_kword_def kword_def)

definition forked_pcb :: "u64 \<Rightarrow> pcb \<Rightarrow> pcb" where
  "forked_pcb a c = c\<lparr>kstack := a OR KERNBASE, esp0 := (a OR KERNBASE) + PAGE_BLOCK_SIZE,
     rsp := (a OR KERNBASE) + PAGE_BLOCK_SIZE - sizeof_reg_list - 56\<rparr>"

lemma copy_thread_run:
  assumes "is_paging s \<noteq> 0" "child \<noteq> NULL" "parent \<noteq> NULL" "child \<noteq> parent"
    and "pcb_flags (pcb_at s child) \<noteq> PF_KTHREAD"
    and "kstack (pcb_at s parent) = b OR KERNBASE" "esp0 (pcb_at s parent) = (b OR KERNBASE) + PAGE_BLOCK_SIZE"
    and "a = fst (phys_mem_alloc s)"
  shows "copy_thread r child parent 0 sz s =
    Ok ((), (forked_stack r a b (snd (phys_mem_alloc s)))\<lparr>pcb_at := (pcb_at s)(child := forked_pcb a (pcb_at s child))\<rparr>)"
proof -
  have pg: "is_paging (snd (phys_mem_alloc s)) = is_paging s" by simp
  have w: "word_at c 0 = c OR KERNBASE" for c by (simp add: word_at_def)
  show ?thesis
    using assms
    by (simp add: copy_thread_def Let_def task_reg_list_def copy_words_self top_slots set_reg_def forked_stack_def w forked_pcb_def)
qed

text \<open>Switching to the forked process: the words of its frame go to the registers.\<close>

lemma pop_callee_saved_stack:
  assumes "i + 6 \<le> 512" "cpu_rsp (cpu s) = word_at a i"
  shows "pop_callee_saved s = s\<lparr>cpu := \<lparr>cpu_rsp = word_at a (i + 6), cpu_rbp = page_word a (i + 5) s,
    cpu_rbx = page_word a (i + 4) s, cpu_r12 = page_word a (i + 3) s, cpu_r13 = page_word a (i + 2) s,
    cpu_r14 = page_word a (i + 1) s, cpu_r15 = page_word a i s\<rparr>\<rparr>"
proof -
  have k: "kword p (s\<lparr>cpu := c\<rparr>) = kword p s" for p c by (simp add: kword_def)
  have n: "word_at a j + 8 = word_at a (Suc j)" for j using shift_word [of a j 1] by simp
  have w: "kword (word_at a j) s = page_word a j s" if "j < 512" for j using that by (rule kword_page)
  show ?thesis
    using assms by (simp add: pop_callee_saved_def pop_def Let_def k n w eval_nat_numeral)
qed

end
