(* ===== verification/Syscalls.thy ===== *)
theory Syscalls
  imports Page_Faults Descriptors Kernel_Stack
begin

text \<open>
  Entering and leaving the kernel: the table of system calls and its set-up, \<^verbatim>\<open>sys/syscalls.c\<close>, the
  assembly of \<^verbatim>\<open>sys/do_syscall.s\<close> and \<^verbatim>\<open>sys/page_fault_handler.s\<close>, and the wrappers around the C
  functions that handle interrupts. The registers of the interrupted program are a function from
  \<open>reg_field\<close>; what a C function leaves in the registers it may overwrite is a parameter.
\<close>

type_synonym regfile = "reg_field \<Rightarrow> u64"

section \<open>The table\<close>

datatype syscall_fn =
  Sys_read | Sys_write | Sys_fork | Sys_execve | Sys_wait | Sys_exit | Sys_open | Sys_close | Sys_getdents |
  Sys_getprocs64 | Sys_mmap | Sys_sleep | Sys_kill | Sys_munmap

definition MAX_SYSCALLS :: nat where
  "MAX_SYSCALLS = 100"

text \<open>The array has \<open>MAX_SYSCALLS\<close> elements; those without a function are null pointers.\<close>

definition sys_call_table :: "syscall_fn option list" where
  "sys_call_table =
     map Some [Sys_read, Sys_write, Sys_fork, Sys_execve, Sys_wait, Sys_exit, Sys_open, Sys_close, Sys_getdents,
               Sys_getprocs64, Sys_mmap, Sys_sleep, Sys_kill, Sys_munmap] @ replicate 86 None"

text \<open>What a system call hands back: a value, nothing, or control to another process.\<close>

datatype sys_result = Returned u64 | NoValue | Suspended

definition suspendable :: "('a \<Rightarrow> sys_result) \<Rightarrow> 'a option \<Rightarrow> sys_result" where
  "suspendable f r = (case r of None \<Rightarrow> Suspended | Some x \<Rightarrow> f x)"

definition int_result :: "u32 \<Rightarrow> sys_result" where
  "int_result x = Returned (ucast x)"

definition call_syscall :: "u64 \<Rightarrow> syscall_fn \<Rightarrow> regfile \<Rightarrow> ('z file_state_scheme, sys_result) kop" where
  "call_syscall ret_from_fork f c =
     (let a0 = c reg_rdi; a1 = c reg_rsi; a2 = c reg_rdx; a3 = c reg_r10; a4 = c reg_r8; a5 = c reg_r9 in
      case f of
        Sys_read \<Rightarrow> bnd (sys_read (ucast a0) a1 a2) (\<lambda>r. ret (Returned r))
      | Sys_write \<Rightarrow> bnd (sys_write (ucast a0) a1 a2) (\<lambda>r. ret (Returned r))
      | Sys_fork \<Rightarrow> bnd (sys_fork ret_from_fork) (\<lambda>r. ret (int_result r))
      | Sys_execve \<Rightarrow> bnd (sys_execve a0 a1 a2) (\<lambda>r. ret (int_result r))
      | Sys_wait \<Rightarrow> bnd (sys_wait a0) (\<lambda>r. ret (suspendable int_result r))
      | Sys_exit \<Rightarrow> bnd (sys_exit (ucast a0)) (\<lambda>r. ret (suspendable (\<lambda>_. NoValue) r))
      | Sys_open \<Rightarrow> bnd (sys_open a0 (ucast a1) (ucast a2)) (\<lambda>r. ret (int_result r))
      | Sys_close \<Rightarrow> bnd (sys_close (ucast a0)) (\<lambda>r. ret (int_result r))
      | Sys_getdents \<Rightarrow> bnd (sys_getdents (ucast a0) a1 (ucast a2)) (\<lambda>r. ret (Returned r))
      | Sys_getprocs64 \<Rightarrow> bnd (sys_getprocs64 a0 a1) (\<lambda>r. ret (int_result r))
      | Sys_mmap \<Rightarrow> bnd (sys_mmap a0 a1 (ucast a2) (ucast a3) (ucast a4) a5) (\<lambda>r. ret (Returned r))
      | Sys_sleep \<Rightarrow> bnd (sys_sleep a0) (\<lambda>_. ret NoValue)
      | Sys_kill \<Rightarrow> bnd (sys_kill (ucast a0) (ucast a1)) (\<lambda>r. ret (suspendable int_result r))
      | Sys_munmap \<Rightarrow> bnd (sys_munmap a0 a1) (\<lambda>r. ret (int_result r)))"

text \<open>
  The assembly compares the number with the address of the variable \<open>syscall_max\<close>, not with its value;
  the address is a parameter. A number above it is answered with the number itself, which is still in
  \<^verbatim>\<open>rax\<close>.
\<close>

definition dispatch :: "u64 \<Rightarrow> u64 \<Rightarrow> regfile \<Rightarrow> ('z file_state_scheme, sys_result) kop" where
  "dispatch syscall_max_addr ret_from_fork c =
     (let n = c reg_rax in
      if syscall_max_addr < n then ret (Returned n)
      else if unat n < length sys_call_table then
        (case sys_call_table ! unat n of None \<Rightarrow> fail NullDeref | Some f \<Rightarrow> call_syscall ret_from_fork f c)
      else fail OutOfBounds)"

section \<open>Entry and exit\<close>

text \<open>
  The registers as the \<^verbatim>\<open>syscall\<close> instruction leaves them: \<^verbatim>\<open>rcx\<close> is the return address, \<^verbatim>\<open>r11\<close> the
  flags. Fifteen words are stored; the places of the six registers C functions preserve are only
  reserved.
\<close>

definition saved_on_entry :: "regfile \<Rightarrow> (reg_field \<times> u64) list" where
  "saved_on_entry c =
     [(reg_ss, 0x23), (reg_sp, c reg_sp), (reg_rflags, c reg_r11), (reg_cs, 0x2B), (reg_rip, c reg_rcx),
      (reg_orig_rax, c reg_rax), (reg_rdi, c reg_rdi), (reg_rsi, c reg_rsi), (reg_rdx, c reg_rdx),
      (reg_rcx, c reg_rcx), (reg_rax, - 1), (reg_r8, c reg_r8), (reg_r9, c reg_r9), (reg_r10, c reg_r10),
      (reg_r11, c reg_r11)]"

definition syscall_entry :: "regfile \<Rightarrow> ('z proc_state_scheme, ptr) kop" where
  "syscall_entry c =
     bnd (gets global_ds) (\<lambda>g.
     bnd (deref g (modify (u_rsp_update (\<lambda>_. c reg_sp)))) (\<lambda>_.
     bnd (gets (\<lambda>s. k_rsp s - sizeof_reg_list)) (\<lambda>regs.
     bnd (modify (fold (\<lambda>(f, v). set_reg regs f v) (saved_on_entry c))) (\<lambda>_.
     ret regs))))"

text \<open>\<open>c\<close> is the register file after the C function has returned.\<close>

definition syscall_exit :: "ptr \<Rightarrow> u64 \<Rightarrow> regfile \<Rightarrow> ('z virt_state_scheme, regfile) kop" where
  "syscall_exit regs rax c =
     bnd (modify (set_reg regs reg_rax rax)) (\<lambda>_.
     gets (\<lambda>s. let v = (\<lambda>f. kword (reg_slot regs f) s) in
       c(reg_rcx := v reg_rip, reg_r11 := v reg_rflags, reg_r10 := v reg_r10, reg_r9 := v reg_r9, reg_r8 := v reg_r8,
         reg_rax := v reg_rax, reg_rdx := v reg_rdx, reg_rsi := v reg_rsi, reg_rdi := v reg_rdi, reg_sp := v reg_sp)))"

text \<open>A whole system call; \<open>clobber\<close> is what the C function leaves in the registers.\<close>

definition do_syscalls :: "u64 \<Rightarrow> u64 \<Rightarrow> (regfile \<Rightarrow> regfile) \<Rightarrow> regfile \<Rightarrow> ('z file_state_scheme, regfile option) kop" where
  "do_syscalls syscall_max_addr ret_from_fork clobber c =
     bnd (syscall_entry c) (\<lambda>regs.
     bnd (dispatch syscall_max_addr ret_from_fork c) (\<lambda>r.
     case r of
       Suspended \<Rightarrow> ret None
     | Returned x \<Rightarrow> bnd (syscall_exit regs x (clobber c)) (\<lambda>c'. ret (Some c'))
     | NoValue \<Rightarrow> bnd (syscall_exit regs (clobber c reg_rax) (clobber c)) (\<lambda>c'. ret (Some c'))))"

text \<open>
  The first thing a forked process runs, with the saved registers at \<open>regs\<close>. A kernel thread, told by
  \<^verbatim>\<open>rbx\<close>, first runs its function, which is a parameter.
\<close>

definition user_context :: "ptr \<Rightarrow> 'z virt_state_scheme \<Rightarrow> regfile" where
  "user_context regs s = (\<lambda>f. kword (reg_slot regs f) s)"

definition ret_from_fork_code :: "(u64 \<Rightarrow> u64 \<Rightarrow> ('z proc_state_scheme, unit) kop) \<Rightarrow> ptr \<Rightarrow> ('z proc_state_scheme, regfile) kop" where
  "ret_from_fork_code run_thread regs =
     bnd (gets cpu) (\<lambda>c.
     bnd (if cpu_rbx c \<noteq> 0 then
            bnd (run_thread (cpu_rbx c) (cpu_r12 c)) (\<lambda>_. modify (set_reg regs reg_rax 0))
          else ret ()) (\<lambda>_.
     bnd switch_to_user_cr3 (\<lambda>_.
     gets (user_context regs))))"

section \<open>Set-up\<close>

definition MSR_STAR :: u32 where
  "MSR_STAR = 0xC0000081"

definition MSR_LSTAR :: u32 where
  "MSR_LSTAR = 0xC0000082"

definition IA32_EFER :: u32 where
  "IA32_EFER = 0xC0000080"

definition wrmsr64 :: "u32 \<Rightarrow> u64 \<Rightarrow> 'z proc_state_scheme \<Rightarrow> 'z proc_state_scheme" where
  "wrmsr64 r w = do_wrmsr r (ucast w) (ucast (drop_bit 32 w))"

definition init_syscall :: "u64 \<Rightarrow> ('z proc_state_scheme, unit) kop" where
  "init_syscall do_syscalls_addr =
     bnd kalloc (\<lambda>g.
     bnd (modify (global_ds_update (\<lambda>_. g))) (\<lambda>_.
     bnd (modify (wrmsr64 MSR_STAR (push_bit 48 0x1B OR push_bit 32 0x8))) (\<lambda>_.
     bnd (modify (wrmsr64 MSR_LSTAR do_syscalls_addr)) (\<lambda>_.
     bnd (gets (do_rdmsr IA32_EFER)) (\<lambda>(lo, hi).
     bnd (modify (do_wrmsr IA32_EFER (lo OR 0x1) hi)) (\<lambda>_.
     modify set_gs_kernel_base))))))"

section \<open>Interrupts\<close>

definition push_list :: "reg_field list \<Rightarrow> regfile \<times> 'z virt_state_scheme \<Rightarrow> regfile \<times> 'z virt_state_scheme" where
  "push_list = fold (\<lambda>r (c, s). (c(reg_sp := c reg_sp - 8), set_kword (c reg_sp - 8) (c r) s))"

definition pop_list :: "reg_field list \<Rightarrow> regfile \<times> 'z virt_state_scheme \<Rightarrow> regfile \<times> 'z virt_state_scheme" where
  "pop_list = fold (\<lambda>r (c, s). (c(r := kword (c reg_sp) s, reg_sp := c reg_sp + 8), s))"

definition wrapper_regs :: "reg_field list" where
  "wrapper_regs = [reg_rax, reg_rbx, reg_rcx, reg_rdx, reg_rbp, reg_rdi, reg_rsi, reg_r8, reg_r9, reg_r10, reg_r11,
     reg_r12, reg_r13, reg_r14, reg_r15]"

text \<open>The common shape of the wrappers, around the C function \<open>handler\<close>; \<open>None\<close> when it switches away.\<close>

definition interrupt_wrapper :: "('z file_state_scheme, unit option) kop \<Rightarrow> (regfile \<Rightarrow> regfile) \<Rightarrow> regfile \<Rightarrow>
    ('z file_state_scheme, regfile option) kop" where
  "interrupt_wrapper handler clobber c =
     bnd (call (\<lambda>s. push_list wrapper_regs (c, s))) (\<lambda>c1.
     bnd handler (\<lambda>r.
     case r of
       None \<Rightarrow> ret None
     | Some _ \<Rightarrow> bnd (call (\<lambda>s. pop_list (rev wrapper_regs) (clobber c1, s))) (\<lambda>c2. ret (Some c2))))"

definition i86_pit_wrapper :: "(regfile \<Rightarrow> regfile) \<Rightarrow> regfile \<Rightarrow> ('z file_state_scheme, regfile option) kop" where
  "i86_pit_wrapper = interrupt_wrapper i86_pit_irq"

definition i86_keyboard_wrapper :: "(regfile \<Rightarrow> regfile) \<Rightarrow> regfile \<Rightarrow> ('z file_state_scheme, regfile option) kop" where
  "i86_keyboard_wrapper = interrupt_wrapper (bnd i86_keyboard_irq (\<lambda>_. ret (Some ())))"

definition default_handler :: "regfile \<Rightarrow> ('z file_state_scheme, regfile option) kop" where
  "default_handler = interrupt_wrapper (ret (Some ())) id"

text \<open>
  The entry for page faults. The processor has pushed the frame of the interrupt and the error code, to
  which \<open>sp\<close> points; the registers go below it, in the order of \<^verbatim>\<open>struct reg_list\<close>.
\<close>

definition fault_saved :: "reg_field list" where
  "fault_saved = [reg_r11, reg_r10, reg_r9, reg_r8, reg_rax, reg_rcx, reg_rdx, reg_rsi, reg_rdi, reg_rbx, reg_rbp,
     reg_r12, reg_r13, reg_r14, reg_r15]"

definition fault_restored :: "reg_field list" where
  "fault_restored = [reg_r15, reg_r14, reg_r13, reg_r12, reg_rbp, reg_rbx, reg_r11, reg_r10, reg_r9, reg_r8, reg_rax,
     reg_rcx, reg_rdx, reg_rsi, reg_rdi]"

definition i86_page_fault_handler :: "u64 \<Rightarrow> ptr \<Rightarrow> regfile \<Rightarrow> ('z file_state_scheme, regfile option) kop" where
  "i86_page_fault_handler cr2 sp c =
     (let regs = sp - 120 in
      bnd (modify (fold (\<lambda>f. set_reg regs f (c f)) fault_saved)) (\<lambda>_.
      bnd (copy_regs regs) (\<lambda>k_regs.
      bnd (gets (kword (reg_slot k_regs reg_orig_rax))) (\<lambda>err.
      bnd (modify (set_reg k_regs reg_orig_rax (- 1))) (\<lambda>_.
      bnd (page_fault_handler cr2 k_regs (ucast err)) (\<lambda>r.
      case r of
        None \<Rightarrow> ret None
      | Some _ \<Rightarrow>
          gets (\<lambda>s. Some (\<lambda>f. if f \<in> set fault_restored \<or> f \<in> {reg_rip, reg_cs, reg_rflags, reg_sp, reg_ss}
                              then user_context k_regs s f else c f))))))))"

section \<open>Leaving the kernel as it was entered\<close>

lemma user_context_top:
  "user_context (word_at a 491) s f = page_word a (491 + reg_index f) s"
  using reg_index_less [of f] by (simp add: user_context_def top_slots kword_page)


text \<open>A parent whose kernel stack is frame \<open>0x2000\<close>, and a child without a stack.\<close>

definition parent_machine :: proc_state where
  "parent_machine = (idle_machine ((\<lambda>_. zero_pcb)
     (0x9000 := zero_pcb\<lparr>pcb_flags := PF_UTHREAD, pcb_mm := 0xB000, kstack := 0x2000 OR KERNBASE, esp0 := (0x2000 OR KERNBASE) + PAGE_BLOCK_SIZE\<rparr>,
      0xA000 := zero_pcb\<lparr>pcb_flags := PF_UTHREAD, pcb_mm := 0xB000\<rparr>)))
     \<lparr>k_rsp := (0x2000 OR KERNBASE) + PAGE_BLOCK_SIZE\<rparr>"

lemma parent_machine_wf:
  "pages_wf parent_machine" "is_paging parent_machine \<noteq> 0" "0x2000 \<in> used_of parent_machine" "low_page 0x2000"
proof -
  have p: "page_array parent_machine = page_array small_machine" "free_page_list parent_machine = free_page_list small_machine"
    by (simp_all add: parent_machine_def idle_machine_def virt_state.defs)
  show "pages_wf parent_machine" using small_machine_ascending p by (simp add: ascending_def pages_wf_def)
  show "0x2000 \<in> used_of parent_machine" using small_machine_frames(1) p by (simp add: used_of_def)
  show "is_paging parent_machine \<noteq> 0" by (simp add: parent_machine_def idle_machine_def virt_state.defs small_machine_def)
qed (simp add: low_page_def)


text \<open>Registers pushed on a kernel stack and taken off it again.\<close>

lemma push_list_Cons:
  "push_list (r # rs) (c, s) = push_list rs (c(reg_sp := c reg_sp - 8), set_kword (c reg_sp - 8) (c r) s)"
  by (simp add: push_list_def)

lemma pop_list_Cons:
  "pop_list (r # rs) (c, s) = pop_list rs (c(r := kword (c reg_sp) s, reg_sp := c reg_sp + 8), s)"
  by (simp add: pop_list_def)

lemma word_at_step: "word_at a (Suc j) - 8 = word_at a j" "word_at a j + 8 = word_at a (Suc j)"
  by (simp_all add: word_at_def)

lemma push_list_words:
  assumes "low_page a" "c reg_sp = word_at a (j + length rs)" "j + length rs \<le> 512" "reg_sp \<notin> set rs"
  shows "fst (push_list rs (c, s)) = c(reg_sp := word_at a j) \<and>
    (\<forall>k. k < 512 \<longrightarrow> page_word a k (snd (push_list rs (c, s))) =
       (if j \<le> k \<and> k < j + length rs then c (rev rs ! (k - j)) else page_word a k s))"
  using assms(2-)
proof (induction rs arbitrary: c s)
  case Nil
  then show ?case by (auto simp: push_list_def fun_eq_iff)
next
  case (Cons r rs)
  let ?p = "word_at a (j + length rs)" let ?c = "c(reg_sp := ?p)" let ?s = "set_kword ?p (c r) s"
  have step: "push_list (r # rs) (c, s) = push_list rs (?c, ?s)"
    using Cons.prems(1) by (simp add: push_list_Cons word_at_step)
  have ih: "fst (push_list rs (?c, ?s)) = ?c(reg_sp := word_at a j) \<and>
    (\<forall>k. k < 512 \<longrightarrow> page_word a k (snd (push_list rs (?c, ?s))) =
       (if j \<le> k \<and> k < j + length rs then ?c (rev rs ! (k - j)) else page_word a k ?s))"
    by (rule Cons.IH) (use Cons.prems in auto)
  have above: "?c (rev rs ! i) = c (rev (r # rs) ! i)" if "i < length rs" for i
  proof -
    have "rev rs ! i \<in> set rs" using that by (metis length_rev nth_mem set_rev)
    with Cons.prems(3) that show ?thesis by (auto simp: nth_append)
  qed
  have last: "rev (r # rs) ! length rs = r" by (simp add: nth_append)
  have "page_word a k (snd (push_list rs (?c, ?s))) =
      (if j \<le> k \<and> k < j + length (r # rs) then c (rev (r # rs) ! (k - j)) else page_word a k s)" if "k < 512" for k
  proof (cases "j \<le> k \<and> k < j + length rs")
    case True
    have "page_word a k (snd (push_list rs (?c, ?s))) = ?c (rev rs ! (k - j))"
      by (simp only: ih [THEN conjunct2, rule_format, OF that] if_P [OF True])
    also have "\<dots> = c (rev (r # rs) ! (k - j))" by (rule above) (use True in linarith)
    finally show ?thesis using True by (simp only: if_True list.size) simp
  next
    case False
    have "page_word a k (snd (push_list rs (?c, ?s))) = page_word a k ?s"
      by (simp only: ih [THEN conjunct2, rule_format, OF that] if_not_P [OF False])
    also have "\<dots> = (if k = j + length rs then c r else page_word a k s)"
      using assms(1) Cons.prems(2) that by (simp add: set_kword_page)
    finally show ?thesis using False last by (cases "k = j + length rs") auto
  qed
  with ih show ?case unfolding step by simp
qed

lemma pop_list_words:
  assumes "c reg_sp = word_at a j" "j + length rs \<le> 512" "reg_sp \<notin> set rs" "distinct rs"
  shows "snd (pop_list rs (c, s)) = s \<and> fst (pop_list rs (c, s)) reg_sp = word_at a (j + length rs) \<and>
    (\<forall>k < length rs. fst (pop_list rs (c, s)) (rs ! k) = page_word a (j + k) s) \<and>
    (\<forall>f. f \<notin> set rs \<and> f \<noteq> reg_sp \<longrightarrow> fst (pop_list rs (c, s)) f = c f)"
  using assms
proof (induction rs arbitrary: c j)
  case Nil
  then show ?case by (simp add: pop_list_def)
next
  case (Cons r rs)
  let ?c = "c(r := page_word a j s, reg_sp := word_at a (Suc j))"
  have step: "pop_list (r # rs) (c, s) = pop_list rs (?c, s)"
    using Cons.prems(1,2) by (simp add: pop_list_Cons word_at_step kword_page)
  have ih: "snd (pop_list rs (?c, s)) = s \<and> fst (pop_list rs (?c, s)) reg_sp = word_at a (Suc j + length rs) \<and>
    (\<forall>k < length rs. fst (pop_list rs (?c, s)) (rs ! k) = page_word a (Suc j + k) s) \<and>
    (\<forall>f. f \<notin> set rs \<and> f \<noteq> reg_sp \<longrightarrow> fst (pop_list rs (?c, s)) f = ?c f)"
    by (rule Cons.IH) (use Cons.prems in auto)
  then show ?case
    unfolding step using Cons.prems(3,4) by (auto simp: nth_Cons less_Suc_eq_0_disj split: nat.split)
qed

lemma wrapper_regs_facts:
  "length wrapper_regs = 15" "reg_sp \<notin> set wrapper_regs" "distinct wrapper_regs"
  by (simp_all add: wrapper_regs_def)



text \<open>The saved registers at the top of the stack of a system call.\<close>

lemma set_reg_top:
  assumes "low_page a"
  shows "user_context (word_at a 491) (set_reg (word_at a 491) f v s) = (user_context (word_at a 491) s)(f := v)"
proof
  fix g
  have "reg_index g = reg_index f \<longleftrightarrow> g = f" by (cases f; cases g; simp)
  then show "user_context (word_at a 491) (set_reg (word_at a 491) f v s) g = ((user_context (word_at a 491) s)(f := v)) g"
    using assms reg_index_less [of f] reg_index_less [of g]
    by (simp add: user_context_top set_reg_def top_slots set_kword_page)
qed

lemma syscall_entry_run:
  assumes "low_page a" "global_ds s \<noteq> NULL" "k_rsp s = (a OR KERNBASE) + PAGE_BLOCK_SIZE"
  shows "\<exists>t. syscall_entry c s = Ok (word_at a 491, t) \<and>
    user_context (word_at a 491) t = fold (\<lambda>(f, v) x. x(f := v)) (saved_on_entry c) (user_context (word_at a 491) s)"
proof -
  have "user_context (word_at a 491) (fold (\<lambda>(f, v). set_reg (word_at a 491) f v) xs t) =
      fold (\<lambda>(f, v) x. x(f := v)) xs (user_context (word_at a 491) t)" for xs and t :: "'a proc_state_scheme"
    by (induction xs arbitrary: t) (auto simp: set_reg_top [OF assms(1)])
  moreover have "user_context (word_at a 491) (s\<lparr>u_rsp := x\<rparr>) = user_context (word_at a 491) s" for x
    by (simp add: user_context_def kword_def)
  ultimately show ?thesis
    using assms(2,3) by (simp add: syscall_entry_def top_slots)
qed

text \<open>
  C9: A system call returns to its caller. When the called function returns a value and leaves the saved
  registers alone, the program continues behind its \<^verbatim>\<open>syscall\<close> instruction with its flags, its stack pointer
  and its argument registers, and finds the value in \<^verbatim>\<open>rax\<close>; every other register is what the C function made
  of it.
\<close>

theorem syscall_returns_to_caller:
  assumes "low_page a" "global_ds s \<noteq> NULL" "k_rsp s = (a OR KERNBASE) + PAGE_BLOCK_SIZE"
    and "syscall_entry c s = Ok (regs, t)" "dispatch m r c t = Ok (Returned x, u)"
    and "user_context regs u = user_context regs t"
  shows "\<exists>c' v. do_syscalls m r clobber c s = Ok (Some c', v) \<and> c' reg_rax = x \<and>
    (\<forall>f\<in>{reg_rcx, reg_r11, reg_sp, reg_rdi, reg_rsi, reg_rdx, reg_r10, reg_r8, reg_r9}. c' f = c f) \<and>
    (\<forall>f\<in>{reg_rbx, reg_rbp, reg_r12, reg_r13, reg_r14, reg_r15}. c' f = clobber c f)"
proof -
  have e: "regs = word_at a 491" "user_context (word_at a 491) t =
      fold (\<lambda>(f, v) x. x(f := v)) (saved_on_entry c) (user_context (word_at a 491) s)"
    using syscall_entry_run [OF assms(1-3), of c] assms(4) by auto
  define v where "v = set_reg regs reg_rax x u"
  have ctx: "kword (reg_slot regs f) v =
      (if f = reg_rax then x else fold (\<lambda>(f, v) x. x(f := v)) (saved_on_entry c) (user_context regs s) f)" for f
    using set_reg_top [OF assms(1), of reg_rax x u] e assms(6)
    by (simp add: v_def user_context_def [symmetric] fun_eq_iff) (simp add: user_context_def fun_eq_iff)
  have "do_syscalls m r clobber c s = bnd (syscall_exit regs x (clobber c)) (\<lambda>c'. ret (Some c')) u"
    using assms(4,5) by (simp add: do_syscalls_def bnd_Ok)
  then show ?thesis
    unfolding syscall_exit_def by (simp add: v_def [symmetric] ctx saved_on_entry_def Let_def)
qed

theorem syscall_returns_to_caller_witness:
  "\<exists>c' v. do_syscalls 0x5000 0x7000 (\<lambda>d. d(reg_r12 := 0)) (\<lambda>f. if f = reg_rax then 0x6000 else of_nat (reg_index f))
       ((terminal_machine [])\<lparr>k_rsp := (0x2000 OR KERNBASE) + PAGE_BLOCK_SIZE\<rparr>) = Ok (Some c', v) \<and>
     c' reg_rax = 0x6000 \<and> c' reg_rdi = 14 \<and> c' reg_r12 = 0"
proof -
  let ?c = "\<lambda>f. if f = reg_rax then 0x6000 else of_nat (reg_index f) :: u64"
  let ?s = "(terminal_machine [])\<lparr>k_rsp := (0x2000 OR KERNBASE) + PAGE_BLOCK_SIZE\<rparr>"
  have a: "low_page 0x2000" "global_ds ?s \<noteq> NULL" "k_rsp ?s = (0x2000 OR KERNBASE) + PAGE_BLOCK_SIZE"
    by (simp_all add: low_page_def terminal_machine_def proc_state.defs idle_machine_def virt_state.defs)
  obtain t where t: "syscall_entry ?c ?s = Ok (word_at 0x2000 491, t)" using syscall_entry_run [OF a] by blast
  have d: "dispatch 0x5000 0x7000 ?c t = Ok (Returned 0x6000, t)" by (simp add: dispatch_def)
  from syscall_returns_to_caller [OF a t d refl, of "\<lambda>d. d(reg_r12 := 0)"] show ?thesis by auto
qed

end
