(* ===== verification/Start.thy ===== *)
theory Start
  imports Syscalls
begin

text \<open>
  Start-up, \<^verbatim>\<open>sys/main.c\<close> and \<^verbatim>\<open>sys/start.c\<close>: from the entry of the kernel to the first process, in the order
  in which the code calls the parts modelled in the other theories. What the linker and the boot
  loader fix, addresses of functions, of literals and of local arrays, is the record \<open>image\<close>.
\<close>

record image =
  cpu_idle_at :: u64
  ret_from_fork_at :: u64
  do_syscalls_at :: u64
  pit_wrapper_at :: u64
  keyboard_wrapper_at :: u64
  page_fault_entry_at :: u64
  kernel_init_at :: u64
  init_path_at :: ptr
  home_at :: ptr
  argv_init_at :: ptr
  envp_init_at :: ptr
  tss_at :: u64

section \<open>The first processes\<close>

definition O_RDWR :: u32 where
  "O_RDWR = 0x1"

text \<open>The arrays of arguments are local variables: two pointers each, at the addresses of the image.\<close>

definition run_init_process :: "image \<Rightarrow> ptr \<Rightarrow> ('z file_state_scheme, u32) kop" where
  "run_init_process img filename =
     bnd (getname filename) (\<lambda>name.
     bnd (store64 (argv_init_at img) name) (\<lambda>_.
     bnd (store64 (argv_init_at img + 8) NULL) (\<lambda>_.
     bnd (store64 (envp_init_at img) (home_at img)) (\<lambda>_.
     bnd (store64 (envp_init_at img + 8) NULL) (\<lambda>_.
     do_execve name (argv_init_at img) (envp_init_at img))))))"

definition kernel_init :: "image \<Rightarrow> ('z file_state_scheme, u32) kop" where
  "kernel_init img =
     bnd (terminal_open O_RDWR 0) (\<lambda>_.
     bnd (terminal_open O_RDWR 0) (\<lambda>_.
     bnd (terminal_open O_RDWR 0) (\<lambda>fd.
     bnd (kprintf ''fd %d is opened\<newline>'' [VInt fd]) (\<lambda>_.
     bnd (run_init_process img (init_path_at img)) (\<lambda>r.
     bnd (if r \<noteq> 0 then modify (kmsg ''something is wrong with /bin/init'') else ret ()) (\<lambda>_.
     ret r))))))"

definition kernel_thread :: "image \<Rightarrow> u64 \<Rightarrow> u64 \<Rightarrow> ('z file_state_scheme, unit) kop" where
  "kernel_thread img fn arg = bnd (do_fork (ret_from_fork_at img) (CLONE_VM OR CLONE_FS) fn arg) (\<lambda>_. ret ())"

definition final_init :: "image \<Rightarrow> ('z file_state_scheme, unit) kop" where
  "final_init img = bnd (kernel_thread img (kernel_init_at img) NULL) (\<lambda>_. schedule)"

section \<open>The kernel\<close>

definition start_kernel :: "image \<Rightarrow> ('z desc_state_scheme, unit) kop" where
  "start_kernel img =
     bnd (modify (kmsg ''!!!*** Welcome to BLEH OS ***!!!\<newline>'')) (\<lambda>_.
     bnd (modify disable_all_interrupts) (\<lambda>_.
     bnd (modify init_idt) (\<lambda>_.
     bnd (modify (initialize (pit_wrapper_at img) (keyboard_wrapper_at img))) (\<lambda>_.
     bnd (modify init_setup_virtual_memory) (\<lambda>_.
     bnd (init_syscall (do_syscalls_at img)) (\<lambda>_.
     bnd (modify (i86_initialize_page_fault_handler (page_fault_entry_at img))) (\<lambda>_.
     bnd tarfs_init (\<lambda>_.
     bnd (scheduler_init (cpu_idle_at img)) (\<lambda>_.
     bnd ttyinit (\<lambda>_.
     bnd (modify enable_all_interrupts) (\<lambda>_.
     final_init img)))))))))))"

text \<open>
  The list of modules the boot loader leaves; the loop ends at the record of the memory map, whose
  entries of twenty bytes are then only read.
\<close>

definition start :: "ptr \<Rightarrow> ('z util_state_scheme, unit) kop" where
  "start modulep =
     bnd (loopM (\<lambda>m.
       bnd (load32 m) (\<lambda>tag.
       if tag \<noteq> 0x9001 then bnd (load32 (m + 4)) (\<lambda>len. ret (Inl (m + 4 * ucast (len + 2))))
       else ret (Inr m))) modulep) (\<lambda>m.
     loopM (\<lambda>smap.
       bnd (load32 (m + 4)) (\<lambda>len.
       if smap < m + ucast len + 8 then
         bnd (load32 (smap + 16)) (\<lambda>ty.
         bnd (if ty = 1 then bnd (load64 (smap + 8)) (\<lambda>_. ret ()) else ret ()) (\<lambda>_.
         ret (Inl (smap + 20))))
       else ret (Inr ()))) (m + 8))"

text \<open>The text memory before anything is printed: white on black, and a line that says where the boot is.\<close>

definition white_screen :: "'z console_scheme \<Rightarrow> 'z console_scheme" where
  "white_screen s = s\<lparr>vga := (\<lambda>i. if unat i < 2000 then (vga s i AND 0xFF) OR 0x700 else vga s i)\<rparr>"

definition start_returned :: bytes where
  "start_returned = bytes_of ''!!!!! start() returned !!!!!''"

definition show_returned :: "'z console_scheme \<Rightarrow> 'z console_scheme" where
  "show_returned s = s\<lparr>vga := (\<lambda>i. if unat i < length start_returned
     then (vga s i AND NOT 0xFF) OR ucast (start_returned ! unat i) else vga s i)\<rparr>"

text \<open>\<open>modulep\<close> and \<open>physfree\<close> are words of the stack of the boot loader.\<close>

definition boot :: "image \<Rightarrow> ptr \<Rightarrow> u64 \<Rightarrow> ('z desc_state_scheme, unit) kop" where
  "boot img modulep physfree =
     bnd (modify white_screen) (\<lambda>_.
     bnd (modify disable_all_interrupts) (\<lambda>_.
     bnd (modify (init_gdt (tss_at img))) (\<lambda>_.
     bnd (start modulep) (\<lambda>_.
     bnd (modify show_returned) (\<lambda>_.
     bnd (define_free_list physfree 0x5000000) (\<lambda>_.
     bnd initialize_tarfs_sb (\<lambda>_.
     bnd (modify initialize_dentry_cache) (\<lambda>_.
     start_kernel img))))))))"

end
