(* ===== verification/Libc_String.thy ===== *)
theory Libc_String
  imports Start
begin

text \<open>
  The string functions of the C library that user programs are linked with, \<^verbatim>\<open>libc/str*.c\<close>,
  \<^verbatim>\<open>libc/memcpy.c\<close>, \<^verbatim>\<open>libc/atoi.c\<close> and \<^verbatim>\<open>libc/isdigit.c\<close>. A user program shares the byte memory of the
  model with the kernel; the static variables of the library are a further layer of the state.
\<close>

section \<open>State\<close>

text \<open>
  \<open>tok_next\<close> and \<open>tok_done\<close> are the static variables of \<open>strtok\<close>, \<open>getchar_pos\<close> and \<open>getchar_n\<close> those of \<open>getchar\<close>,
  \<open>getc_pos\<close> and \<open>getc_n\<close> those of \<open>getc\<close>; \<open>environ\<close> is the global of the program.
\<close>

record user_state = desc_state +
  tok_next :: ptr
  tok_done :: u32
  getchar_pos :: ptr
  getchar_n :: u32
  getc_pos :: ptr
  getc_n :: u32
  environ :: ptr

section \<open>Signed arithmetic\<close>

text \<open>The value of an \<^verbatim>\<open>int\<close> expression; a value that does not fit is an overflow.\<close>

definition as_int :: "int \<Rightarrow> ('s, u32) kop" where
  "as_int v = (if - (2 ^ 31) \<le> v \<and> v < 2 ^ 31 then ret (word_of_int v) else fail SignedOverflow)"

definition inc :: "u32 \<Rightarrow> ('s, u32) kop" where
  "inc i = as_int (sint i + 1)"

text \<open>\<open>p[i]\<close> with an \<^verbatim>\<open>int\<close> index, and the value of a \<^verbatim>\<open>char\<close> as an \<^verbatim>\<open>int\<close>.\<close>

definition char_at :: "ptr \<Rightarrow> u32 \<Rightarrow> ('z util_state_scheme, u8) kop" where
  "char_at p i = load (p + scast i)"

section \<open>Operations\<close>

definition strlen :: "ptr \<Rightarrow> ('z util_state_scheme, u32) kop" where
  "strlen s =
     loopM (\<lambda>i. bnd (char_at s i) (\<lambda>b.
       if b \<noteq> 0 then bnd (inc i) (\<lambda>j. ret (Inl j)) else ret (Inr i))) 0"

definition strcmp_step :: "ptr \<Rightarrow> ptr \<Rightarrow> u32 \<Rightarrow> ('z util_state_scheme, u32 + u32) kop" where
  "strcmp_step p1 p2 i =
     bnd (char_at p1 i) (\<lambda>a.
     bnd (char_at p2 i) (\<lambda>b.
     if a \<noteq> 0 then
       if b = 0 then ret (Inr 1)
       else if sint a < sint b then ret (Inr (- 1))
       else if sint b < sint a then ret (Inr 1)
       else bnd (inc i) (\<lambda>j. ret (Inl j))
     else if b \<noteq> 0 then ret (Inr (- 1))
     else ret (Inr 0)))"

definition strcmp :: "ptr \<Rightarrow> ptr \<Rightarrow> ('z util_state_scheme, u32) kop" where
  "strcmp cs ct = loopM (strcmp_step cs ct) 0"

text \<open>The counter \<^verbatim>\<open>n1\<close> of the source always equals the index.\<close>

definition strncmp_step :: "ptr \<Rightarrow> ptr \<Rightarrow> u32 \<Rightarrow> u32 \<times> u32 \<Rightarrow> ('z util_state_scheme, u32 \<times> u32 + u32) kop" where
  "strncmp_step p1 p2 n = (\<lambda>(i, n1).
     bnd (char_at p1 i) (\<lambda>a.
     bnd (char_at p2 i) (\<lambda>b.
     if a \<noteq> 0 \<and> sint n1 < sint n then
       if b = 0 then ret (Inr 1)
       else if sint a < sint b then ret (Inr (- 1))
       else if sint b < sint a then ret (Inr 1)
       else bnd (inc i) (\<lambda>j. bnd (inc n1) (\<lambda>m. ret (Inl (j, m))))
     else if b \<noteq> 0 \<and> a = 0 then ret (Inr (- 1))
     else ret (Inr 0))))"

definition strncmp :: "ptr \<Rightarrow> ptr \<Rightarrow> u32 \<Rightarrow> ('z util_state_scheme, u32) kop" where
  "strncmp cs ct n = loopM (strncmp_step cs ct n) (0, 0)"

text \<open>A loop that stores no NUL behind the copied characters.\<close>

definition strcpy_step :: "ptr \<times> ptr \<Rightarrow> ('z util_state_scheme, ptr \<times> ptr + unit) kop" where
  "strcpy_step = (\<lambda>(dst, src).
     bnd (load src) (\<lambda>b.
     if b \<noteq> 0 then bnd (store dst b) (\<lambda>_. ret (Inl (dst + 1, src + 1))) else ret (Inr ())))"

definition strcpy :: "ptr \<Rightarrow> ptr \<Rightarrow> ('z util_state_scheme, ptr) kop" where
  "strcpy dst src = bnd (loopM strcpy_step (dst, src)) (\<lambda>_. ret dst)"

text \<open>The argument is an \<^verbatim>\<open>int\<close>, so each character is sign-extended before it is compared.\<close>

definition strchr_step :: "ptr \<Rightarrow> u32 \<Rightarrow> u32 \<Rightarrow> ('z util_state_scheme, u32 + ptr) kop" where
  "strchr_step cs c i =
     bnd (char_at cs i) (\<lambda>b.
     if b \<noteq> 0 then
       if scast b = c then ret (Inr (cs + scast i)) else bnd (inc i) (\<lambda>j. ret (Inl j))
     else ret (Inr NULL))"

definition strchr :: "ptr \<Rightarrow> u32 \<Rightarrow> ('z util_state_scheme, ptr) kop" where
  "strchr cs c = (if cs = NULL then ret NULL else loopM (strchr_step cs c) 0)"

definition memcpy :: "ptr \<Rightarrow> ptr \<Rightarrow> u32 \<Rightarrow> ('z util_state_scheme, unit) kop" where
  "memcpy dest src n =
     for_each [0..<nat (sint n)] (\<lambda>i. bnd (load (src + of_nat i)) (\<lambda>b. store (dest + of_nat i) b))"

definition atoi_step :: "ptr \<Rightarrow> u32 \<times> u32 \<Rightarrow> ('z util_state_scheme, u32 \<times> u32 + u32) kop" where
  "atoi_step nptr = (\<lambda>(i, value).
     bnd (char_at nptr i) (\<lambda>b.
     if b \<noteq> 0 then
       bnd (as_int (sint value * 10)) (\<lambda>v.
       bnd (as_int (sint v + (sint b - 48))) (\<lambda>value.
       bnd (inc i) (\<lambda>j. ret (Inl (j, value)))))
     else ret (Inr value)))"

definition atoi :: "ptr \<Rightarrow> ('z util_state_scheme, u32) kop" where
  "atoi nptr = (if nptr = NULL then ret 0 else loopM (atoi_step nptr) (0, 0))"

definition isdigit :: "u32 \<Rightarrow> ('s, u32) kop" where
  "isdigit c =
     bnd (as_int (sint c - 48)) (\<lambda>d.
     ret (if 0 \<le> sint d \<and> sint d \<le> 9 then 1 else 0))"

text \<open>The loop of \<open>strtok\<close> that moves \<^verbatim>\<open>nextS\<close> to the next delimiter, and the three statements behind it.\<close>

definition tok_step :: "ptr \<Rightarrow> unit \<Rightarrow> ('z user_state_scheme, unit + unit) kop" where
  "tok_step ct = (\<lambda>_.
     bnd (gets tok_next) (\<lambda>q.
     bnd (load q) (\<lambda>b.
     bnd (strchr ct (scast b)) (\<lambda>r.
     if r = NULL \<and> b \<noteq> 0 then bnd (modify (\<lambda>s. s\<lparr>tok_next := q + 1\<rparr>)) (\<lambda>_. ret (Inl ()))
     else ret (Inr ())))))"

definition tok_scan :: "ptr \<Rightarrow> ('z user_state_scheme, unit) kop" where
  "tok_scan ct =
     bnd (loopM (tok_step ct) ()) (\<lambda>_.
     bnd (gets tok_next) (\<lambda>q.
     bnd (load q) (\<lambda>b.
     bnd (modify (\<lambda>s. s\<lparr>tok_done := (if b = 0 then 1 else 0)\<rparr>)) (\<lambda>_.
     store q 0))))"

definition strtok :: "ptr \<Rightarrow> ptr \<Rightarrow> ('z user_state_scheme, ptr) kop" where
  "strtok s ct =
     (if s \<noteq> NULL then
        bnd (load s) (\<lambda>b.
        if b = 0 then bnd (modify (\<lambda>st. st\<lparr>tok_done := 1\<rparr>)) (\<lambda>_. ret NULL)
        else
          bnd (modify (\<lambda>st. st\<lparr>tok_next := s\<rparr>)) (\<lambda>_.
          bnd (tok_scan ct) (\<lambda>_. ret s)))
      else
        bnd (gets tok_done) (\<lambda>d.
        if d \<noteq> 0 then ret NULL
        else
          bnd (modify (\<lambda>st. st\<lparr>tok_next := tok_next st + 1\<rparr>)) (\<lambda>_.
          bnd (gets tok_next) (\<lambda>q.
          bnd (tok_scan ct) (\<lambda>_. ret q)))))"

section \<open>Strings in memory\<close>

lemma cstr_char: "cstr m p cs \<Longrightarrow> i \<le> length cs \<Longrightarrow> m (p + of_nat i) = (cs @ [0]) ! i \<and> p + of_nat i \<noteq> 0"
proof (induction cs arbitrary: p i)
  case (Cons c cs)
  then show ?case proof (cases i)
    case (Suc j)
    have "m (p + 1 + of_nat j) = (cs @ [0]) ! j \<and> p + 1 + of_nat j \<noteq> 0"
      using Cons.prems Suc by (intro Cons.IH) simp_all
    then show ?thesis by (simp add: Suc add.assoc)
  qed simp
qed simp

lemma cstr_nonzero: "cstr m p cs \<Longrightarrow> 0 \<notin> set cs"
  by (induction cs arbitrary: p) auto

lemma cstr_nth_nonzero: "cstr m p cs \<Longrightarrow> i < length cs \<Longrightarrow> cs ! i \<noteq> 0"
  using cstr_nonzero [of m p cs] nth_mem [of i cs] by metis

lemma cstr_drop: "cstr m p cs \<Longrightarrow> i \<le> length cs \<Longrightarrow> cstr m (p + of_nat i) (drop i cs)"
proof (induction i)
  case (Suc i)
  then have "cstr m (p + of_nat i) (cs ! i # drop (Suc i) cs)" by (simp add: Cons_nth_drop_Suc)
  then show ?case by (simp add: add_ac)
qed simp

lemma cstr_range: "cstr m p cs \<Longrightarrow> valid_range p (Suc (length cs))"
proof (induction cs arbitrary: p)
  case Nil
  then show ?case using unsigned_less [of p] by (simp add: valid_range_def Suc_le_eq)
next
  case (Cons c cs)
  then have v: "valid_range (p + 1) (Suc (length cs))" and p: "p + 1 \<noteq> 0" "p \<noteq> 0" by (auto simp: valid_range_def)
  have "unat (p + 1) = Suc (unat p)" using p(1) by (metis Suc_eq_plus1_left add.commute unatSuc)
  with v p(2) show ?case by (simp add: valid_range_def)
qed

lemma cstr_cong: "(\<And>i. i \<le> length cs \<Longrightarrow> m (p + of_nat i) = m' (p + of_nat i)) \<Longrightarrow> cstr m p cs = cstr m' p cs"
proof (induction cs arbitrary: p)
  case Nil
  from this [of 0] show ?case by simp
next
  case (Cons c cs)
  have "cstr m (p + 1) cs = cstr m' (p + 1) cs"
  proof (rule Cons.IH)
    fix i assume "i \<le> length cs"
    with Cons.prems [of "Suc i"] show "m (p + 1 + of_nat i) = m' (p + 1 + of_nat i)"
      by (simp add: add.assoc)
  qed
  with Cons.prems [of 0] show ?case by simp
qed

lemma cstrI:
  assumes "\<And>i. i \<le> length cs \<Longrightarrow> m (p + of_nat i) = (cs @ [0]) ! i \<and> p + of_nat i \<noteq> 0" and "0 \<notin> set cs"
  shows "cstr m p cs"
  using assms
proof (induction cs arbitrary: p)
  case Nil
  from this(1) [of 0] show ?case by simp
next
  case (Cons c cs)
  have "cstr m (p + 1) cs"
  proof (rule Cons.IH)
    fix i assume "i \<le> length cs"
    with Cons.prems(1) [of "Suc i"] show "m (p + 1 + of_nat i) = (cs @ [0]) ! i \<and> p + 1 + of_nat i \<noteq> 0"
      by (simp add: add.assoc)
  qed (use Cons.prems in simp)
  with Cons.prems(1) [of 0] Cons.prems(2) show ?case by simp
qed

lemma as_int_run: "- (2 ^ 31) \<le> v \<Longrightarrow> v < 2 ^ 31 \<Longrightarrow> as_int v s = Ok (word_of_int v, s)"
  by (simp add: as_int_def)

lemma bnd_as_int: "- (2 ^ 31) \<le> v \<Longrightarrow> v < 2 ^ 31 \<Longrightarrow> bnd (as_int v) f s = f (word_of_int v) s"
  by (simp add: as_int_def)

lemma bnd_as_int_nat: "v = int n \<Longrightarrow> n < 2 ^ 31 \<Longrightarrow> bnd (as_int v) f s = f (of_nat n) s"
  by (simp add: bnd_as_int)

lemma bnd_inc: "Suc i < 2 ^ 31 \<Longrightarrow> bnd (inc (of_nat i)) f s = f (of_nat (Suc i)) s"
  by (simp add: inc_def bnd_as_int sint_of_nat_small add.commute)

lemma bnd_char_at:
  "cstr (kmem s) p cs \<Longrightarrow> length cs < 2 ^ 31 \<Longrightarrow> i \<le> length cs \<Longrightarrow> bnd (char_at p (of_nat i)) f s = f ((cs @ [0]) ! i) s"
  using cstr_char [of "kmem s" p cs i] by (simp add: char_at_def scast_of_nat_small)

lemma strlen_run:
  assumes "cstr (kmem s) p cs" and "length cs < 2 ^ 31"
  shows "strlen p s = Ok (of_nat (length cs), s)"
proof -
  define B :: "u32 \<Rightarrow> ('a util_state_scheme, u32 + u32) kop" where
    "B = (\<lambda>i. bnd (char_at p i) (\<lambda>b. if b \<noteq> 0 then bnd (inc i) (\<lambda>j. ret (Inl j)) else ret (Inr i)))"
  have "i \<le> length cs \<Longrightarrow> loopM B (of_nat i) s = Ok (of_nat (length cs), s)" for i
  proof (induction "length cs - i" arbitrary: i)
    case 0
    then have "B (of_nat i) s = Ok (Inr (of_nat (length cs)), s)" using assms by (auto simp: B_def bnd_char_at nth_append)
    then show ?case by (rule loopM_exit)
  next
    case (Suc n)
    then have i: "i < length cs" by simp
    then have "B (of_nat i) s = Ok (Inl (of_nat (Suc i)), s)"
      using assms cstr_nth_nonzero [OF assms(1) i] by (simp add: B_def bnd_char_at nth_append bnd_inc del: of_nat_Suc)
    then show ?case using Suc by (simp add: loopM_continue del: of_nat_Suc)
  qed
  from this [of 0] show ?thesis by (simp add: strlen_def B_def)
qed

lemma bnd_strlen: "cstr (kmem s) p cs \<Longrightarrow> length cs < 2 ^ 31 \<Longrightarrow> bnd (strlen p) f s = f (of_nat (length cs)) s"
  by (simp add: bnd_Ok strlen_run)

section \<open>Comparing\<close>

text \<open>The order of strings by signed characters, as the three values the library returns.\<close>

fun str_order :: "bytes \<Rightarrow> bytes \<Rightarrow> u32" where
  "str_order [] [] = 0"
| "str_order [] (b # bs) = - 1"
| "str_order (a # as) [] = 1"
| "str_order (a # as) (b # bs) =
     (if sint a < sint b then - 1 else if sint b < sint a then 1 else str_order as bs)"

abbreviation char_less :: "(u8 \<times> u8) set" where
  "char_less \<equiv> {(a, b). sint a < sint b}"

lemma sint_order_eq: "\<not> sint (a :: u8) < sint b \<Longrightarrow> \<not> sint b < sint a \<Longrightarrow> a = b"
  by (metis linorder_less_linear signed_word_eqI)

lemma str_order_lexord:
  "str_order cs ds = 0 \<longleftrightarrow> cs = ds"
  "str_order cs ds = - 1 \<longleftrightarrow> (cs, ds) \<in> lexord char_less"
  "str_order cs ds = 1 \<longleftrightarrow> (ds, cs) \<in> lexord char_less"
  by (induction cs ds rule: str_order.induct) (auto dest: sint_order_eq)

lemma strcmp_from:
  assumes "cstr (kmem s) p cs" "length cs < 2 ^ 31" "cstr (kmem s) q ds" "length ds < 2 ^ 31"
  shows "i \<le> length cs \<Longrightarrow> i \<le> length ds \<Longrightarrow> loopM (strcmp_step p q) (of_nat i) s = Ok (str_order (drop i cs) (drop i ds), s)"
proof (induction "length cs - i" arbitrary: i)
  case 0
  then have i: "i = length cs" by simp
  have "strcmp_step p q (of_nat i) s = Ok (Inr (str_order (drop i cs) (drop i ds)), s)"
  proof (cases "i = length ds")
    case False
    with 0 have l: "i < length ds" by simp
    then have "str_order (drop i cs) (drop i ds) = - 1" using i by (cases "drop i ds") simp_all
    then show ?thesis
      using assms i l cstr_nth_nonzero [OF assms(3) l]
      by (simp add: strcmp_step_def bnd_char_at nth_append)
  qed (use assms i in \<open>simp add: strcmp_step_def bnd_char_at nth_append\<close>)
  then show ?case by (rule loopM_exit)
next
  case (Suc n)
  then have i: "i < length cs" by simp
  have c: "drop i cs = cs ! i # drop (Suc i) cs" "cs ! i \<noteq> 0"
    using i cstr_nth_nonzero [OF assms(1) i] by (simp_all add: Cons_nth_drop_Suc)
  show ?case
  proof (cases "i = length ds")
    case True
    then have "strcmp_step p q (of_nat i) s = Ok (Inr 1, s)"
      using assms i c(2) by (simp add: strcmp_step_def bnd_char_at nth_append)
    then show ?thesis using True c(1) by (simp add: loopM_exit)
  next
    case False
    with Suc.prems have l: "i < length ds" by simp
    then have d: "drop i ds = ds ! i # drop (Suc i) ds" "ds ! i \<noteq> 0"
      using cstr_nth_nonzero [OF assms(3) l] by (simp_all add: Cons_nth_drop_Suc)
    have "strcmp_step p q (of_nat i) s =
        Ok (if sint (cs ! i) < sint (ds ! i) then Inr (- 1) else if sint (ds ! i) < sint (cs ! i) then Inr 1
            else Inl (of_nat (Suc i)), s)"
      using assms i l c(2) d(2) by (simp add: strcmp_step_def bnd_char_at nth_append bnd_inc del: of_nat_Suc)
    moreover have "loopM (strcmp_step p q) (of_nat (Suc i)) s = Ok (str_order (drop (Suc i) cs) (drop (Suc i) ds), s)"
      using Suc i l by (intro Suc.hyps) simp_all
    ultimately show ?thesis
      unfolding c(1) d(1) by (simp add: loopM_exit loopM_continue del: of_nat_Suc)
  qed
qed

lemma strcmp_run:
  "cstr (kmem s) p cs \<Longrightarrow> length cs < 2 ^ 31 \<Longrightarrow> cstr (kmem s) q ds \<Longrightarrow> length ds < 2 ^ 31 \<Longrightarrow>
     strcmp p q s = Ok (str_order cs ds, s)"
  using strcmp_from [of s p cs q ds 0] by (simp add: strcmp_def)

text \<open>
  \<^verbatim>\<open>strcmp\<close> compares two strings in the lexicographic order of their signed characters: it returns 0 for
  equal strings and only for them, -1 if the first comes earlier, 1 if the second does, and changes nothing.
\<close>

theorem strcmp_lexicographic:
  assumes "cstr (kmem s) p cs" and "length cs < 2 ^ 31" and "cstr (kmem s) q ds" and "length ds < 2 ^ 31"
  shows "\<exists>r. strcmp p q s = Ok (r, s) \<and> (r = 0 \<longleftrightarrow> cs = ds) \<and>
    (r = - 1 \<longleftrightarrow> (cs, ds) \<in> lexord {(a, b). sint a < sint b}) \<and>
    (r = 1 \<longleftrightarrow> (ds, cs) \<in> lexord {(a, b). sint a < sint b})"
  using strcmp_run [OF assms] str_order_lexord by blast

text \<open>The memory of a program with the string \<open>cs\<close> at 0x100 and the string \<open>ds\<close> at 0x200.\<close>

definition two_strings :: "string \<Rightarrow> string \<Rightarrow> ptr \<Rightarrow> u8" where
  "two_strings cs ds = (\<lambda>a. if a < 0x200 then text_at 0x100 cs a else text_at 0x200 ds a)"

theorem strcmp_lexicographic_witness:
  "\<exists>r. strcmp 0x100 0x200 (memory_state (two_strings ''ls'' ''lt'')) = Ok (r, memory_state (two_strings ''ls'' ''lt'')) \<and>
     r \<noteq> 0"
proof -
  let ?s = "memory_state (two_strings ''ls'' ''lt'')"
  have "cstr (kmem ?s) 0x100 (bytes_of ''ls'')" "cstr (kmem ?s) 0x200 (bytes_of ''lt'')"
    by (simp_all add: bytes_of_def two_strings_def text_at_def)
  from strcmp_lexicographic [OF this(1) _ this(2)] show ?thesis by (fastforce simp: bytes_of_def)
qed

text \<open>At most \<open>n\<close> characters; where the first string ends the limit is not looked at.\<close>

fun strn_order :: "nat \<Rightarrow> bytes \<Rightarrow> bytes \<Rightarrow> u32" where
  "strn_order n [] [] = 0"
| "strn_order n [] (b # bs) = - 1"
| "strn_order 0 (a # as) bs = 0"
| "strn_order (Suc n) (a # as) [] = 1"
| "strn_order (Suc n) (a # as) (b # bs) =
     (if sint a < sint b then - 1 else if sint b < sint a then 1 else strn_order n as bs)"

lemma strn_order_zero: "strn_order n cs ds = 0 \<longleftrightarrow> (if length cs \<le> n then cs = ds else take n cs = take n ds)"
  by (induction n cs ds rule: strn_order.induct) (auto dest: sint_order_eq)

lemma strncmp_step_run:
  assumes "cstr (kmem s) p cs" "length cs < 2 ^ 31" "cstr (kmem s) q ds" "length ds < 2 ^ 31" "n < 2 ^ 31"
    and "i \<le> length cs" "i \<le> length ds" "i \<le> n"
  shows "strncmp_step p q (of_nat n) (of_nat i, of_nat i) s =
    Ok (case (drop i cs, drop i ds) of
          ([], []) \<Rightarrow> Inr 0
        | ([], _ # _) \<Rightarrow> Inr (- 1)
        | (a # _, bs) \<Rightarrow>
            if i = n then Inr 0
            else (case bs of [] \<Rightarrow> Inr 1 | b # _ \<Rightarrow>
              if sint a < sint b then Inr (- 1) else if sint b < sint a then Inr 1
              else Inl (of_nat (Suc i), of_nat (Suc i))), s)"
proof -
  have n: "sint (of_nat i :: u32) < sint (of_nat n :: u32) \<longleftrightarrow> i \<noteq> n"
    using assms(5,8) by (auto simp: sint_of_nat_small)
  have c: "(cs @ [0]) ! i = (case drop i cs of [] \<Rightarrow> 0 | a # _ \<Rightarrow> a)" "drop i cs = a # as \<Longrightarrow> a \<noteq> 0" for a as
    using assms(6) cstr_nth_nonzero [OF assms(1), of i]
    by (auto simp: nth_append le_less Cons_nth_drop_Suc [symmetric] simp del: Cons_nth_drop_Suc split: list.splits)
  have d: "(ds @ [0]) ! i = (case drop i ds of [] \<Rightarrow> 0 | b # _ \<Rightarrow> b)" "drop i ds = b # bs \<Longrightarrow> b \<noteq> 0" for b bs
    using assms(7) cstr_nth_nonzero [OF assms(3), of i]
    by (auto simp: nth_append le_less Cons_nth_drop_Suc [symmetric] simp del: Cons_nth_drop_Suc split: list.splits)
  have "Suc i < 2 ^ 31" if "i \<noteq> n" using that assms(5,8) by simp
  then show ?thesis
    using assms(1-4,6,7) n c d
    by (cases "drop i cs"; cases "drop i ds"; cases "i = n")
      (simp_all add: strncmp_step_def bnd_char_at bnd_inc del: of_nat_Suc)
qed

lemma strncmp_from:
  assumes "cstr (kmem s) p cs" "length cs < 2 ^ 31" "cstr (kmem s) q ds" "length ds < 2 ^ 31" "n < 2 ^ 31"
  shows "i \<le> length cs \<Longrightarrow> i \<le> length ds \<Longrightarrow> i \<le> n \<Longrightarrow>
    loopM (strncmp_step p q (of_nat n)) (of_nat i, of_nat i) s = Ok (strn_order (n - i) (drop i cs) (drop i ds), s)"
proof (induction "n - i" arbitrary: i)
  case 0
  with strncmp_step_run [OF assms, of i] show ?case
    by (cases "drop i cs"; cases "drop i ds") (simp_all add: loopM_exit)
next
  case (Suc k)
  then have n: "n - i = Suc (n - Suc i)" "i \<noteq> n" by simp_all
  note step = strncmp_step_run [OF assms Suc.prems]
  show ?case
  proof (cases "drop i cs = [] \<or> drop i ds = []")
    case True
    with step n show ?thesis by (cases "drop i cs"; cases "drop i ds") (simp_all add: loopM_exit)
  next
    case False
    then have l: "i < length cs" "i < length ds" by simp_all
    obtain a b where d: "drop i cs = a # drop (Suc i) cs" "drop i ds = b # drop (Suc i) ds"
      using l by (metis Cons_nth_drop_Suc)
    have "loopM (strncmp_step p q (of_nat n)) (of_nat (Suc i), of_nat (Suc i)) s =
        Ok (strn_order (n - Suc i) (drop (Suc i) cs) (drop (Suc i) ds), s)"
      using Suc l by (intro Suc.hyps) simp_all
    with step show ?thesis
      unfolding d n(1) using n(2) by (simp add: loopM_exit loopM_continue del: of_nat_Suc)
  qed
qed

lemma strncmp_run:
  "cstr (kmem s) p cs \<Longrightarrow> length cs < 2 ^ 31 \<Longrightarrow> cstr (kmem s) q ds \<Longrightarrow> length ds < 2 ^ 31 \<Longrightarrow> n < 2 ^ 31 \<Longrightarrow>
     strncmp p q (of_nat n) s = Ok (strn_order n cs ds, s)"
  using strncmp_from [of s p cs q ds n 0] by (simp add: strncmp_def)

text \<open>
  \<^verbatim>\<open>strncmp\<close> returns 0 exactly if the first \<open>n\<close> characters agree, except that a first string of at most \<open>n\<close>
  characters must equal the second one: two strings whose first \<open>n\<close> characters agree are told apart if
  the first is exactly these characters.
\<close>

theorem strncmp_zero_iff:
  assumes "cstr (kmem s) p cs" and "length cs < 2 ^ 31" and "cstr (kmem s) q ds" and "length ds < 2 ^ 31" and "n < 2 ^ 31"
  shows "\<exists>r. strncmp p q (of_nat n) s = Ok (r, s) \<and>
    (r = 0 \<longleftrightarrow> (if length cs \<le> n then cs = ds else take n cs = take n ds))"
  using strncmp_run [OF assms] strn_order_zero by blast

theorem strncmp_zero_iff_witness:
  "\<exists>r. strncmp 0x100 0x200 (of_nat 2) (memory_state (two_strings ''ps'' ''ps1'')) =
      Ok (r, memory_state (two_strings ''ps'' ''ps1'')) \<and> r \<noteq> 0"
proof -
  let ?s = "memory_state (two_strings ''ps'' ''ps1'')"
  have "cstr (kmem ?s) 0x100 (bytes_of ''ps'')" "cstr (kmem ?s) 0x200 (bytes_of ''ps1'')"
    by (simp_all add: bytes_of_def two_strings_def text_at_def)
  from strncmp_zero_iff [OF this(1) _ this(2), of 2] show ?thesis by (fastforce simp: bytes_of_def)
qed

section \<open>Searching and copying\<close>

lemma strchr_from:
  assumes "cstr (kmem s) p cs" "length cs < 2 ^ 31"
  shows "i \<le> length cs \<Longrightarrow> loopM (strchr_step p c) (of_nat i) s =
    Ok (case find (\<lambda>j. scast (cs ! j) = c) [i..<length cs] of None \<Rightarrow> NULL | Some j \<Rightarrow> p + of_nat j, s)"
proof (induction "length cs - i" arbitrary: i)
  case 0
  then have "strchr_step p c (of_nat i) s = Ok (Inr NULL, s)"
    using assms by (auto simp: strchr_step_def bnd_char_at nth_append)
  with 0 show ?case by (simp add: loopM_exit)
next
  case (Suc n)
  then have i: "i < length cs" by simp
  have "strchr_step p c (of_nat i) s =
      Ok (if scast (cs ! i) = c then Inr (p + of_nat i) else Inl (of_nat (Suc i)), s)"
    using assms i cstr_nth_nonzero [OF assms(1) i]
    by (simp add: strchr_step_def bnd_char_at nth_append bnd_inc scast_of_nat_small del: of_nat_Suc)
  moreover have "loopM (strchr_step p c) (of_nat (Suc i)) s =
    Ok (case find (\<lambda>j. scast (cs ! j) = c) [Suc i..<length cs] of None \<Rightarrow> NULL | Some j \<Rightarrow> p + of_nat j, s)"
    using Suc i by (intro Suc.hyps) simp_all
  ultimately show ?case
    using i by (simp add: loopM_exit loopM_continue upt_conv_Cons del: of_nat_Suc)
qed

lemma strchr_run:
  assumes "cstr (kmem s) p cs" and "length cs < 2 ^ 31"
  shows "strchr p c s = Ok (case find (\<lambda>j. scast (cs ! j) = c) [0..<length cs] of None \<Rightarrow> NULL | Some j \<Rightarrow> p + of_nat j, s)"
proof -
  have "p \<noteq> NULL" using assms(1) by (cases cs) auto
  with strchr_from [OF assms, of 0 c] show ?thesis by (simp add: strchr_def)
qed

lemma scast_u8_inj: "(scast (a :: u8) :: u32) = scast b \<longleftrightarrow> a = b"
proof
  assume e: "(scast a :: u32) = scast b"
  have "bit a n = bit b n" if "n < 8" for n
    using arg_cong [OF e, of "\<lambda>w. bit w n"] that by (simp add: bit_signed_iff min_absorb2)
  then show "a = b" by (intro bit_word_eqI) simp
qed simp

text \<open>Whether a character, passed as an \<^verbatim>\<open>int\<close>, occurs in a string.\<close>

lemma strchr_NULL_iff:
  assumes "cstr (kmem s) p cs" and "length cs < 2 ^ 31"
  shows "\<exists>r. strchr p (scast b) s = Ok (r, s) \<and> (r = NULL \<longleftrightarrow> b \<notin> set cs)"
proof -
  have nn: "p + of_nat j \<noteq> NULL" if "j < length cs" for j
    using cstr_char [OF assms(1), of j] that by simp
  show ?thesis
  proof (cases "find (\<lambda>j. (scast (cs ! j) :: u32) = scast b) [0..<length cs]")
    case None
    then have "b \<notin> set cs" by (auto simp: find_None_iff in_set_conv_nth)
    with None strchr_run [OF assms, of "scast b"] show ?thesis by simp
  next
    case (Some j)
    then have "j < length cs" "cs ! j = b" by (auto simp: find_Some_iff scast_u8_inj)
    then have "b \<in> set cs" "p + of_nat j \<noteq> NULL" using nn by auto
    with Some strchr_run [OF assms, of "scast b"] show ?thesis by simp
  qed
qed

text \<open>
  \<^verbatim>\<open>strcpy\<close> copies the characters of the source but not its NUL: the byte behind the copy keeps its
  value, so that the destination is a string only if that byte was already 0.
\<close>

lemma strcpy_from:
  assumes "cstr (kmem s) q cs" and "valid_range p (Suc (length cs))"
    and "\<forall>i \<le> length cs. length cs \<le> unat (q + of_nat i - p)"
  shows "i \<le> length cs \<Longrightarrow>
    loopM strcpy_step (p + of_nat i, q + of_nat i) (s\<lparr>kmem := fill (kmem s) p i ((!) cs)\<rparr>) =
      Ok ((), s\<lparr>kmem := fill (kmem s) p (length cs) ((!) cs)\<rparr>)"
proof (induction "length cs - i" arbitrary: i)
  case 0
  then have i: "i = length cs" by simp
  have "fill (kmem s) p i ((!) cs) (q + of_nat i) = 0"
    using assms(3) i cstr_char [OF assms(1), of i] by (simp add: fill_outside nth_append)
  then show ?case
    using i cstr_char [OF assms(1), of i] by (intro loopM_exit) (simp add: strcpy_step_def)
next
  case (Suc n)
  then have i: "i < length cs" by simp
  let ?s = "s\<lparr>kmem := fill (kmem s) p i ((!) cs)\<rparr>"
  have "i \<le> unat (q + of_nat i - p)" using assms(3) i by (meson le_trans less_imp_le)
  then have "kmem ?s (q + of_nat i) = cs ! i"
    using i cstr_char [OF assms(1), of i] by (simp add: fill_outside nth_append)
  moreover have "p + of_nat i \<noteq> 0" using i by (intro valid_range_nonnull [OF assms(2)]) simp
  moreover have "i < 2 ^ 64" using i assms(2) by (auto simp: valid_range_def)
  ultimately have "strcpy_step (p + of_nat i, q + of_nat i) ?s =
      Ok (Inl (p + of_nat (Suc i), q + of_nat (Suc i)), s\<lparr>kmem := fill (kmem s) p (Suc i) ((!) cs)\<rparr>)"
    using i cstr_char [OF assms(1), of i] cstr_nth_nonzero [OF assms(1) i] fill_Suc [of i "kmem s" p "(!) cs"]
    by (simp add: strcpy_step_def add_ac)
  then show ?case using Suc i by (simp add: loopM_continue del: of_nat_Suc)
qed

theorem strcpy_unterminated:
  assumes "cstr (kmem s) q cs" and "valid_range p (Suc (length cs))"
    and "\<forall>i \<le> length cs. length cs < unat (q + of_nat i - p)"
  shows "\<exists>t. strcpy p q s = Ok (p, t) \<and> bytes_at (kmem t) p (length cs) = cs \<and>
    (\<forall>a. length cs \<le> unat (a - p) \<longrightarrow> kmem t a = kmem s a)"
proof -
  have l: "length cs \<le> 2 ^ 64" using assms(2) by (simp add: valid_range_def)
  have "\<forall>i \<le> length cs. length cs \<le> unat (q + of_nat i - p)" using assms(3) by auto
  from strcpy_from [OF assms(1,2) this, of 0] show ?thesis
    using l by (auto simp: strcpy_def bnd_Ok bytes_at_def fill_at fill_outside intro!: nth_equalityI)
qed

lemma memcpy_eq: "memcpy dest src n = my_memcpy dest src (sint n)"
  by (simp add: memcpy_def my_memcpy_def)

lemma memcpy_run:
  assumes "valid_range dest n" and "valid_range src n" and "n < 2 ^ 31"
    and "\<forall>i < n. n \<le> unat (src + of_nat i - dest)"
  shows "memcpy dest src (of_nat n) s = Ok ((), s\<lparr>kmem := fill (kmem s) dest n (\<lambda>i. kmem s (src + of_nat i))\<rparr>)"
  using my_memcpy_run [OF assms(1,2,4)] assms(3) by (simp add: memcpy_eq sint_of_nat_small)

section \<open>Decimal numbers\<close>

definition decimal_digit :: "u8 \<Rightarrow> bool" where
  "decimal_digit d \<longleftrightarrow> 48 \<le> unat d \<and> unat d \<le> 57"

definition decimal_value :: "bytes \<Rightarrow> nat" where
  "decimal_value ds = foldl (\<lambda>v d. v * 10 + (unat d - 48)) 0 ds"

lemma decimal_value_snoc: "decimal_value (ds @ [d]) = decimal_value ds * 10 + (unat d - 48)"
  by (simp add: decimal_value_def)

lemma decimal_value_append: "decimal_value ds \<le> decimal_value (ds @ es)"
proof (induction es rule: rev_induct)
  case (snoc e es)
  then show ?case by (simp add: decimal_value_snoc flip: append_assoc)
qed simp

lemma sint_of_nat_u8: "k < 128 \<Longrightarrow> sint (of_nat k :: u8) = int k"
  by (simp add: signed_of_nat signed_take_bit_int_eq_self)

lemma sint_decimal_digit: "decimal_digit d \<Longrightarrow> sint d = int (unat d)"
  using sint_of_nat_u8 [of "unat d"] by (simp add: decimal_digit_def)

lemma atoi_from:
  assumes "cstr (kmem s) p ds" and "length ds < 2 ^ 31" and "\<forall>d\<in>set ds. decimal_digit d" and "decimal_value ds < 2 ^ 31"
  shows "i \<le> length ds \<Longrightarrow> loopM (atoi_step p) (of_nat i, of_nat (decimal_value (take i ds))) s = Ok (of_nat (decimal_value ds), s)"
proof (induction "length ds - i" arbitrary: i)
  case 0
  then have "atoi_step p (of_nat i, of_nat (decimal_value (take i ds))) s = Ok (Inr (of_nat (decimal_value ds)), s)"
    using assms by (auto simp: atoi_step_def bnd_char_at nth_append)
  then show ?case by (rule loopM_exit)
next
  case (Suc n)
  then have i: "i < length ds" by simp
  let ?v = "decimal_value (take i ds)" and ?d = "ds ! i"
  have d: "decimal_digit ?d" using assms(3) i by simp
  have t: "take (Suc i) ds = take i ds @ [?d]" using i by (rule take_Suc_conv_app_nth)
  have w: "?v * 10 + (unat ?d - 48) < 2 ^ 31"
    using decimal_value_append [of "take (Suc i) ds" "drop (Suc i) ds"] assms(4)
    unfolding append_take_drop_id by (simp add: t decimal_value_snoc)
  have v: "sint (of_nat ?v :: u32) = int ?v" "sint (of_nat (?v * 10) :: u32) = int (?v * 10)"
    using w by (intro sint_of_nat_small; linarith)+
  have e: "sint ?d - 48 = int (unat ?d - 48)"
    using d by (simp add: sint_decimal_digit) (simp add: decimal_digit_def of_nat_diff)
  have "atoi_step p (of_nat i, of_nat ?v) s = Ok (Inl (of_nat (Suc i), of_nat (decimal_value (take (Suc i) ds))), s)"
  proof -
    have "bnd (as_int (sint (of_nat ?v :: u32) * 10)) f s = f (of_nat (?v * 10)) s" for f :: "u32 \<Rightarrow> ('a util_state_scheme, u32 \<times> u32 + u32) kop"
      by (rule bnd_as_int_nat) (use v(1) w in linarith)+
    moreover have "bnd (as_int (sint (of_nat (?v * 10) :: u32) + (sint ?d - 48))) f s = f (of_nat (?v * 10 + (unat ?d - 48))) s"
      for f :: "u32 \<Rightarrow> ('a util_state_scheme, u32 \<times> u32 + u32) kop"
      by (rule bnd_as_int_nat) (use v(2) e w in linarith)+
    ultimately show ?thesis
      using assms(1,2) i cstr_nth_nonzero [OF assms(1) i]
      by (simp add: atoi_step_def bnd_char_at nth_append bnd_inc t decimal_value_snoc del: of_nat_Suc of_nat_add of_nat_mult)
  qed
  then show ?case using Suc i by (simp add: loopM_continue del: of_nat_Suc)
qed

lemma atoi_run:
  assumes "cstr (kmem s) p ds" and "length ds < 2 ^ 31" and "\<forall>d\<in>set ds. decimal_digit d" and "decimal_value ds < 2 ^ 31"
  shows "atoi p s = Ok (of_nat (decimal_value ds), s)"
proof -
  have "p \<noteq> NULL" using assms(1) by (cases ds) auto
  with atoi_from [OF assms, of 0] show ?thesis by (simp add: atoi_def decimal_value_def)
qed

text \<open>The digits \<open>convert_to_base\<close> produces in base ten.\<close>

lemma digit_loop_chars:
  "digit_loop cap available base r ds = Ok es \<Longrightarrow> unat base \<le> length available \<Longrightarrow> 0 < base \<Longrightarrow>
     set es \<subseteq> set ds \<union> (\<lambda>k. ch (available ! k)) ` {k. k < unat base}"
proof (induction cap available base r ds arbitrary: es rule: digit_loop.induct)
  case (1 cap available base r ds)
  show ?case
  proof (cases "r = 0")
    case True
    with "1.prems"(1) show ?thesis by (subst (asm) digit_loop.simps) auto
  next
    case False
    have m: "unat (r mod base) < unat base" using "1.prems"(3) by (simp add: unat_mod word_less_nat_alt)
    with "1.prems"(2) have d: "digit_char available (unat (r mod base)) = Ok (ch (available ! unat (r mod base)))"
      by (simp add: digit_char_def)
    have c: "\<not> cap \<le> length ds" "base \<noteq> 0" using "1.prems"(1,3) False by (auto simp: digit_loop.simps split: if_splits)
    then have "digit_loop cap available base (r div base) (ch (available ! unat (r mod base)) # ds) = Ok es"
      using "1.prems"(1) False d by (subst (asm) digit_loop.simps) simp
    with "1.IH" [OF False c d this "1.prems"(2,3)] m show ?thesis by auto
  qed
qed

section \<open>Splitting into tokens\<close>

text \<open>The parts of a string between the characters of \<open>D\<close>; two delimiters in a row enclose an empty part.\<close>

function fields :: "u8 set \<Rightarrow> bytes \<Rightarrow> bytes list" where
  "fields D cs =
     (case dropWhile (\<lambda>c. c \<notin> D) cs of
        [] \<Rightarrow> [cs]
      | _ # rest \<Rightarrow> takeWhile (\<lambda>c. c \<notin> D) cs # fields D rest)"
  by pat_completeness auto
termination
proof (relation "measure (\<lambda>(D, cs). length cs)")
  fix D :: "u8 set" and cs d rest assume "dropWhile (\<lambda>c. c \<notin> D) cs = d # rest"
  then show "((D, rest), (D, cs)) \<in> measure (\<lambda>(D, cs). length cs)"
    using length_dropWhile_le [of "\<lambda>c. c \<notin> D" cs] by simp
qed simp

declare fields.simps [simp del]

text \<open>A client that calls \<open>strtok\<close> until it returns the null pointer, and the pointers it was given.\<close>

definition tokens_step :: "ptr \<Rightarrow> ptr \<times> ptr list \<Rightarrow> ('z user_state_scheme, ptr \<times> ptr list + ptr list) kop" where
  "tokens_step ct = (\<lambda>(a, ts).
     bnd (strtok a ct) (\<lambda>t. ret (if t = NULL then Inr ts else Inl (NULL, ts @ [t]))))"

definition all_tokens :: "ptr \<Rightarrow> ptr \<Rightarrow> ('z user_state_scheme, ptr list) kop" where
  "all_tokens ct p = loopM (tokens_step ct) (p, [])"

lemma tok_loop:
  assumes "cstr (kmem s) q cs" and "cstr (kmem s) ct ds" and "length ds < 2 ^ 31"
  defines "n \<equiv> length (takeWhile (\<lambda>c. c \<notin> set ds) cs)"
  shows "i \<le> n \<Longrightarrow> loopM (tok_step ct) () (s\<lparr>tok_next := q + of_nat i\<rparr>) = Ok ((), s\<lparr>tok_next := q + of_nat n\<rparr>)"
proof (induction "n - i" arbitrary: i)
  have n: "n \<le> length cs" by (simp add: n_def length_takeWhile_le)
  have step: "tok_step ct () (s\<lparr>tok_next := q + of_nat i\<rparr>) =
      (if (cs @ [0]) ! i \<notin> set ds \<and> (cs @ [0]) ! i \<noteq> 0 then Ok (Inl (), s\<lparr>tok_next := q + of_nat (Suc i)\<rparr>)
       else Ok (Inr (), s\<lparr>tok_next := q + of_nat i\<rparr>))" if "i \<le> length cs" for i
  proof -
    let ?s = "s\<lparr>tok_next := q + of_nat i\<rparr>" and ?b = "(cs @ [0]) ! i"
    have "cstr (kmem ?s) ct ds" using assms(2) by simp
    from strchr_NULL_iff [OF this assms(3), of ?b] obtain r where
      "strchr ct (scast ?b) ?s = Ok (r, ?s)" "r = NULL \<longleftrightarrow> ?b \<notin> set ds" by blast
    with cstr_char [OF assms(1) that] show ?thesis by (simp add: tok_step_def bnd_Ok add_ac)
  qed
  {
    case 0
    then have i: "i = n" by simp
    have "(cs @ [0]) ! n \<in> set ds \<or> (cs @ [0]) ! n = 0"
    proof (cases "n < length cs")
      case True
      then have "cs ! n \<in> set ds" using nth_length_takeWhile [of "\<lambda>c. c \<notin> set ds" cs] by (simp add: n_def)
      with True show ?thesis by (simp add: nth_append)
    qed (use n in \<open>simp add: nth_append\<close>)
    with step [OF n] show ?case by (intro loopM_exit) (auto simp: i)
  next
    case (Suc k)
    then have i: "i < n" by simp
    then have "cs ! i \<in> set (takeWhile (\<lambda>c. c \<notin> set ds) cs)" by (metis n_def nth_mem takeWhile_nth)
    then have "cs ! i \<notin> set ds" by (auto dest: set_takeWhileD)
    moreover have "cs ! i \<noteq> 0" using cstr_nth_nonzero [OF assms(1), of i] i n by simp
    ultimately have "tok_step ct () (s\<lparr>tok_next := q + of_nat i\<rparr>) = Ok (Inl (), s\<lparr>tok_next := q + of_nat (Suc i)\<rparr>)"
      using step [of i] i n by (simp add: nth_append)
    then have "loopM (tok_step ct) () (s\<lparr>tok_next := q + of_nat i\<rparr>) = loopM (tok_step ct) () (s\<lparr>tok_next := q + of_nat (Suc i)\<rparr>)"
      by (rule loopM_continue)
    also have "\<dots> = Ok ((), s\<lparr>tok_next := q + of_nat n\<rparr>)" using Suc.hyps(2) i by (intro Suc.hyps(1)) linarith+
    finally show ?case .
  }
qed

lemma tok_scan_run:
  assumes "cstr (kmem s) q cs" and "cstr (kmem s) ct ds" and "length ds < 2 ^ 31" and "tok_next s = q"
  defines "n \<equiv> length (takeWhile (\<lambda>c. c \<notin> set ds) cs)"
  shows "tok_scan ct s = Ok ((), s\<lparr>kmem := (kmem s)(q + of_nat n := 0), tok_next := q + of_nat n,
    tok_done := (if n = length cs then 1 else 0)\<rparr>)"
proof -
  have "n \<le> length cs" by (simp add: n_def length_takeWhile_le)
  then have c: "kmem s (q + of_nat n) = (cs @ [0]) ! n" "q + of_nat n \<noteq> NULL" "(cs @ [0]) ! n = 0 \<longleftrightarrow> n = length cs"
    using cstr_char [OF assms(1), of n] cstr_nth_nonzero [OF assms(1), of n] by (auto simp: nth_append le_less)
  have "s\<lparr>tok_next := q\<rparr> = s" using assms(4) by simp
  with tok_loop [OF assms(1-3), of 0] have "loopM (tok_step ct) () s = Ok ((), s\<lparr>tok_next := q + of_nat n\<rparr>)"
    by (simp add: n_def)
  then show ?thesis using c by (simp add: tok_scan_def bnd_Ok)
qed

lemma unat_before: "i \<le> n \<Longrightarrow> n < 2 ^ 32 \<Longrightarrow> 2 ^ 32 \<le> unat ((q :: u64) + of_nat i - (q + of_nat (Suc n)))"
proof (rule ccontr)
  let ?y = "q + of_nat i - (q + of_nat (Suc n)) :: u64"
  assume i: "i \<le> n" "n < 2 ^ 32" and "\<not> 2 ^ 32 \<le> unat ?y"
  then have "unat (?y + of_nat (Suc n - i)) = unat ?y + (Suc n - i)" by (intro unat_add_of_nat) simp
  moreover have "?y + of_nat (Suc n - i) = 0" using i(1) by (simp add: of_nat_diff)
  ultimately show False using i(1) by simp
qed

lemma unat_behind: "k \<le> unat ((a :: u64) - q) \<Longrightarrow> unat (a - (q + of_nat k)) = unat (a - q) - k"
proof -
  assume k: "k \<le> unat (a - q)"
  moreover have "unat (a - q) < 2 ^ 64" using unsigned_less [of "a - q"] by simp
  ultimately have "unat (of_nat k :: u64) = k" by (intro unat_of_nat_u64) simp
  moreover have "a - (q + of_nat k) = (a - q) - of_nat k" by simp
  ultimately show ?thesis using k by (simp only: unat_sub word_le_nat_alt)
qed

lemma cstr_upd: "length cs < unat (a - p) \<Longrightarrow> length cs < 2 ^ 32 \<Longrightarrow> cstr (m(a := v)) p cs = cstr m p cs"
  by (rule cstr_cong) (auto simp: unat_of_nat_u64)

lemma of_nat_u64_eq: "i < 2 ^ 64 \<Longrightarrow> j < 2 ^ 64 \<Longrightarrow> (of_nat i :: u64) = of_nat j \<longleftrightarrow> i = j"
  by (metis unat_of_nat_u64)

lemma cstr_takeWhile_cut:
  assumes "cstr m q cs" "n = length (takeWhile P cs)" "length cs < 2 ^ 32"
  shows "cstr (m(q + of_nat n := 0)) q (takeWhile P cs)"
proof (rule cstrI)
  have n: "n \<le> length cs" using assms(2) by (simp add: length_takeWhile_le)
  fix i assume i: "i \<le> length (takeWhile P cs)"
  then have "m (q + of_nat i) = (cs @ [0]) ! i" "q + of_nat i \<noteq> 0"
    using cstr_char [OF assms(1), of i] n assms(2) by simp_all
  moreover have "(of_nat i :: u64) = of_nat n \<longleftrightarrow> i = n"
    using i n assms(2,3) by (intro of_nat_u64_eq) simp_all
  ultimately show "(m(q + of_nat n := 0)) (q + of_nat i) = (takeWhile P cs @ [0]) ! i \<and> q + of_nat i \<noteq> 0"
    using i assms(2) n by (auto simp: nth_append takeWhile_nth)
next
  show "0 \<notin> set (takeWhile P cs)" using cstr_nonzero [OF assms(1)] by (auto dest: set_takeWhileD)
qed

lemma tokens_from:
  assumes "length ds < 2 ^ 31"
  shows "cstr (kmem s) q cs \<Longrightarrow> cstr (kmem s) ct ds \<Longrightarrow> tok_next s = q \<Longrightarrow> length cs < 2 ^ 31 \<Longrightarrow>
    \<forall>j \<le> length ds. length cs < unat (ct + of_nat j - q) \<Longrightarrow>
    \<exists>ps t. bnd (tok_scan ct) (\<lambda>_. loopM (tokens_step ct) (NULL, ts @ [q])) s = Ok (ts @ ps, t) \<and>
      list_all2 (cstr (kmem t)) ps (fields (set ds) cs) \<and> (\<forall>a. length cs < unat (a - q) \<longrightarrow> kmem t a = kmem s a)"
proof (induction "length cs" arbitrary: cs q s ts rule: less_induct)
  case less
  let ?P = "\<lambda>c. c \<notin> set ds"
  define n where "n = length (takeWhile ?P cs)"
  define s1 where "s1 = s\<lparr>kmem := (kmem s)(q + of_nat n := 0), tok_next := q + of_nat n,
    tok_done := (if n = length cs then 1 else 0)\<rparr>"
  have n: "n \<le> length cs" by (simp add: n_def length_takeWhile_le)
  have cut: "cstr (kmem s1) q (takeWhile ?P cs)"
    using cstr_takeWhile_cut [OF less.prems(1) n_def] less.prems(4) by (simp add: s1_def)
  have scan: "bnd (tok_scan ct) (\<lambda>_. loopM (tokens_step ct) (NULL, ts @ [q])) s = loopM (tokens_step ct) (NULL, ts @ [q]) s1"
    using tok_scan_run [OF less.prems(1,2) assms less.prems(3)] by (simp add: bnd_Ok n_def s1_def)
  have out: "kmem s1 a = kmem s a" if "length cs < unat (a - q)" for a
  proof -
    have "unat (of_nat n :: u64) = n" using n less.prems(4) by (intro unat_of_nat_u64) simp
    then have "a \<noteq> q + of_nat n" using that n by auto
    then show ?thesis by (simp add: s1_def)
  qed
  show ?case
  proof (cases "n = length cs")
    case True
    have "length (takeWhile ?P cs @ dropWhile ?P cs) = length cs" by (simp only: takeWhile_dropWhile_id)
    then have "length (dropWhile ?P cs) = 0" using True unfolding n_def length_append by linarith
    then have d: "dropWhile ?P cs = []" by (rule length_0_conv [THEN iffD1])
    with takeWhile_dropWhile_id [of ?P cs] have w: "takeWhile ?P cs = cs" by simp
    have "fields (set ds) cs = [cs]" by (subst fields.simps) (simp only: d list.case)
    moreover have "tokens_step ct (NULL, ts @ [q]) s1 = Ok (Inr (ts @ [q]), s1)"
      using True by (simp add: tokens_step_def strtok_def s1_def)
    ultimately show ?thesis
      using cut [unfolded w] out unfolding scan
      by (intro exI [of _ "[q]"] exI [of _ s1]) (simp add: loopM_exit)
  next
    case False
    with n have l: "n < length cs" by simp
    let ?q = "q + of_nat (Suc n)" and ?cs = "drop (Suc n) cs"
    let ?s = "s1\<lparr>tok_next := ?q\<rparr>"
    have dw: "dropWhile ?P cs = cs ! n # ?cs"
      using l by (simp add: dropWhile_eq_drop n_def [symmetric] Cons_nth_drop_Suc)
    have f: "fields (set ds) cs = takeWhile ?P cs # fields (set ds) ?cs"
      by (subst fields.simps) (simp add: dw)
    have c1: "cstr (kmem ?s) ?q ?cs"
    proof -
      have "2 ^ 32 \<le> unat (q + of_nat n - ?q)" using l less.prems(4) by (intro unat_before) simp_all
      then have "cstr ((kmem s)(q + of_nat n := 0)) ?q ?cs = cstr (kmem s) ?q ?cs"
        using less.prems(4) by (intro cstr_upd) simp_all
      with cstr_drop [OF less.prems(1), of "Suc n"] l show ?thesis by (simp add: s1_def del: of_nat_Suc)
    qed
    have c2: "cstr (kmem ?s) ct ds"
    proof -
      have "ct + of_nat j \<noteq> q + of_nat n" if "j \<le> length ds" for j
      proof
        assume "ct + of_nat j = q + of_nat n"
        moreover have "unat (of_nat n :: u64) = n" using n less.prems(4) by (intro unat_of_nat_u64) simp
        ultimately have "unat (ct + of_nat j - q) = n" by simp
        moreover have "length cs < unat (ct + of_nat j - q)" using less.prems(5) that by simp
        ultimately show False using n by simp
      qed
      then show ?thesis using less.prems(2) by (subst cstr_cong [of _ _ _ "kmem s"]) (auto simp: s1_def)
    qed
    have c3: "\<forall>j \<le> length ds. length ?cs < unat (ct + of_nat j - ?q)"
    proof (intro allI impI)
      fix j assume "j \<le> length ds"
      then have "length cs < unat (ct + of_nat j - q)" using less.prems(5) by simp
      moreover from this have "unat (ct + of_nat j - ?q) = unat (ct + of_nat j - q) - Suc n"
        using l by (intro unat_behind) simp
      ultimately show "length ?cs < unat (ct + of_nat j - ?q)" using l by simp
    qed
    have c4: "length ?cs < length cs" "tok_next ?s = ?q" "length ?cs < 2 ^ 31" using l less.prems(4) by simp_all
    obtain ps t where t: "bnd (tok_scan ct) (\<lambda>_. loopM (tokens_step ct) (NULL, (ts @ [q]) @ [?q])) ?s = Ok ((ts @ [q]) @ ps, t)"
        "list_all2 (cstr (kmem t)) ps (fields (set ds) ?cs)" "\<forall>a. length ?cs < unat (a - ?q) \<longrightarrow> kmem t a = kmem ?s a"
      using less.hyps [OF c4(1) c1 c2 c4(2,3) c3, of "ts @ [q]"] by blast
    have nn: "?q \<noteq> NULL" using cstr_char [OF less.prems(1), of "Suc n"] l by simp
    have run: "tok_scan ct ?s = Ok ((), u) \<Longrightarrow> tokens_step ct (NULL, ts @ [q]) s1 = Ok (Inl (NULL, (ts @ [q]) @ [?q]), u)" for u
      using False nn by (simp add: tokens_step_def strtok_def s1_def bnd_Ok add_ac)
    obtain u where u: "tok_scan ct ?s = Ok ((), u)" using t(1) by (auto simp: bnd_eq_Ok_iff)
    have "loopM (tokens_step ct) (NULL, ts @ [q]) s1 = Ok (ts @ (q # ps), t)"
      using loopM_continue [where body = "tokens_step ct", OF run [OF u]] t(1) u by (simp add: bnd_Ok)
    moreover have "cstr (kmem t) q (takeWhile ?P cs)"
    proof (subst cstr_cong)
      fix i assume "i \<le> length (takeWhile ?P cs)"
      then have "2 ^ 32 \<le> unat (q + of_nat i - ?q)" using l less.prems(4) by (intro unat_before) (simp_all add: n_def)
      then show "kmem t (q + of_nat i) = kmem s1 (q + of_nat i)" using t(3) less.prems(4) by simp
    qed (rule cut)
    moreover have "kmem t a = kmem s a" if a: "length cs < unat (a - q)" for a
    proof -
      have "unat (a - ?q) = unat (a - q) - Suc n" using a l by (intro unat_behind) simp
      then have "kmem t a = kmem s1 a" using t(3) a l by simp
      with out [OF a] show ?thesis by simp
    qed
    ultimately show ?thesis
      unfolding scan using t(2) f by (intro exI [of _ "q # ps"] exI [of _ t]) simp
  qed
qed

text \<open>
  C21: \<^verbatim>\<open>strtok\<close>, called with a string and then with the null pointer until it returns the null pointer, hands out
  exactly the parts of the string between the delimiters, in order and each as a string of its own;
  two delimiters in a row give an empty part.
\<close>

theorem strtok_splits:
  assumes "cstr (kmem s) p cs" and "cs \<noteq> []" and "length cs < 2 ^ 31"
    and "cstr (kmem s) ct ds" and "length ds < 2 ^ 31"
    and "\<forall>j \<le> length ds. length cs < unat (ct + of_nat j - p)"
  shows "\<exists>ps t. all_tokens ct p s = Ok (ps, t) \<and> list_all2 (cstr (kmem t)) ps (fields (set ds) cs)"
proof -
  let ?s = "s\<lparr>tok_next := p\<rparr>"
  have p: "p \<noteq> NULL" "kmem s p \<noteq> 0" using assms(1,2) by (cases cs; simp)+
  obtain ps t where t: "bnd (tok_scan ct) (\<lambda>_. loopM (tokens_step ct) (NULL, [] @ [p])) ?s = Ok ([] @ ps, t)"
      "list_all2 (cstr (kmem t)) ps (fields (set ds) cs)"
    using tokens_from [OF assms(5), of ?s p cs ct "[]"] assms by auto
  then obtain u where u: "tok_scan ct ?s = Ok ((), u)" by (auto simp: bnd_eq_Ok_iff)
  then have "tokens_step ct (p, []) s = Ok (Inl (NULL, [p]), u)"
    using p by (simp add: tokens_step_def strtok_def bnd_Ok)
  then have "all_tokens ct p s = loopM (tokens_step ct) (NULL, [p]) u"
    unfolding all_tokens_def by (rule loopM_continue)
  with t u show ?thesis by (simp add: bnd_Ok)
qed

text \<open>A process with the given memory, for instances of the properties.\<close>

definition user_machine :: "(ptr \<Rightarrow> u8) \<Rightarrow> user_state" where
  "user_machine m =
     desc_state.extend
       (file_state.extend ((terminal_machine [])\<lparr>kmem := m\<rparr>) \<lparr>idt = (\<lambda>_. zero_gate), gdt = initial_gdt, interrupts = True\<rparr>)
       \<lparr>tok_next = NULL, tok_done = 1, getchar_pos = NULL, getchar_n = 0, getc_pos = NULL, getc_n = 0, environ = NULL\<rparr>"

lemma kmem_user_machine [simp]: "kmem (user_machine m) = m"
  by (simp add: user_machine_def desc_state.defs file_state.defs)

theorem strtok_splits_witness:
  "\<exists>ps t. all_tokens 0x200 0x100 (user_machine (two_strings ''a  b'' '' '')) = Ok (ps, t) \<and>
     list_all2 (cstr (kmem t)) ps [bytes_of ''a'', [], bytes_of ''b'']"
proof -
  let ?s = "user_machine (two_strings ''a  b'' '' '')"
  have "cstr (kmem ?s) 0x100 (bytes_of ''a  b'')" "bytes_of ''a  b'' \<noteq> []" "length (bytes_of ''a  b'') < 2 ^ 31"
    "cstr (kmem ?s) 0x200 (bytes_of '' '')" "length (bytes_of '' '') < 2 ^ 31"
    "\<forall>j \<le> length (bytes_of '' ''). length (bytes_of ''a  b'') < unat (0x200 + of_nat j - 0x100 :: ptr)"
    by (simp_all add: bytes_of_def two_strings_def text_at_def le_Suc_eq)
  from strtok_splits [OF this] show ?thesis
    by (simp add: bytes_of_def fields.simps)
qed

end
