(* ===== verification/Libc_Calls.thy ===== *)
theory Libc_Calls
  imports Libc_String
begin

text \<open>
  The C library on top of the system calls: the stubs that execute the \<^verbatim>\<open>syscall\<close> instruction, memory
  allocation, directories, the environment, and the start of a program, \<^verbatim>\<open>crt/crt1.c\<close>. A program is given
  by a record: how the kernel answers a system call, and where the linker and the compiler have put
  literals and the arrays whose address is taken.
\<close>

record 's program =
  invoke :: "u64 \<Rightarrow> u64 list \<Rightarrow> ('s, u64) kop"
  lit_at :: "string \<Rightarrow> ptr"
  local_at :: "string \<Rightarrow> ptr"

abbreviation EOF :: u32 where
  "EOF \<equiv> - 1"

section \<open>Stubs\<close>

text \<open>Arguments are sign-extended from \<^verbatim>\<open>int\<close> to \<^verbatim>\<open>long\<close>, and results of type \<^verbatim>\<open>int\<close> cut to 32 bits.\<close>

definition read :: "'s program \<Rightarrow> u32 \<Rightarrow> ptr \<Rightarrow> u64 \<Rightarrow> ('s, u64) kop" where
  "read E fd buf n = invoke E 0 [scast fd, buf, n]"

definition write_fd :: "'s program \<Rightarrow> u32 \<Rightarrow> ptr \<Rightarrow> u32 \<Rightarrow> ('s, u64) kop" where
  "write_fd E fd c n = invoke E 1 [scast fd, c, scast n]"

definition fork :: "'s program \<Rightarrow> ('s, u32) kop" where
  "fork E = bnd (invoke E 2 []) (\<lambda>r. ret (ucast r))"

definition execve :: "'s program \<Rightarrow> ptr \<Rightarrow> ptr \<Rightarrow> ptr \<Rightarrow> ('s, u32) kop" where
  "execve E filename argv envp = bnd (invoke E 3 [filename, argv, envp]) (\<lambda>r. ret (ucast r))"

definition wait :: "'s program \<Rightarrow> ptr \<Rightarrow> ('s, u32) kop" where
  "wait E status = bnd (invoke E 4 [status]) (\<lambda>r. ret (ucast r))"

definition exit :: "'s program \<Rightarrow> u32 \<Rightarrow> ('s, u32) kop" where
  "exit E status = bnd (invoke E 5 [scast status]) (\<lambda>r. ret (ucast r))"

definition open_file :: "'s program \<Rightarrow> ptr \<Rightarrow> u32 \<Rightarrow> u32 \<Rightarrow> ('s, u32) kop" where
  "open_file E pathname flags mode = bnd (invoke E 6 [pathname, scast flags, scast mode]) (\<lambda>r. ret (ucast r))"

definition close :: "'s program \<Rightarrow> u32 \<Rightarrow> ('s, u32) kop" where
  "close E fp = bnd (invoke E 7 [scast fp]) (\<lambda>r. ret (ucast r))"

definition getdents :: "'s program \<Rightarrow> u32 \<Rightarrow> ptr \<Rightarrow> u32 \<Rightarrow> ('s, u32) kop" where
  "getdents E fd data n = bnd (invoke E 8 [scast fd, data, scast n]) (\<lambda>r. ret (ucast r))"

definition getprocs64 :: "'s program \<Rightarrow> ptr \<Rightarrow> u64 \<Rightarrow> ('s, u64) kop" where
  "getprocs64 E buf n = invoke E 9 [buf, n]"

definition mmap :: "'s program \<Rightarrow> ptr \<Rightarrow> u64 \<Rightarrow> u32 \<Rightarrow> u32 \<Rightarrow> u32 \<Rightarrow> u32 \<Rightarrow> ('s, ptr) kop" where
  "mmap E addr len prot flags fildes off =
     invoke E 10 [addr, len, scast prot, scast flags, scast fildes, scast off]"

definition sleep :: "'s program \<Rightarrow> u64 \<Rightarrow> ('s, u32) kop" where
  "sleep E seconds = bnd (invoke E 11 [seconds]) (\<lambda>r. ret (ucast r))"

text \<open>A \<^verbatim>\<open>pid_t\<close> is unsigned.\<close>

definition kill :: "'s program \<Rightarrow> u32 \<Rightarrow> u32 \<Rightarrow> ('s, u32) kop" where
  "kill E p sig = bnd (invoke E 12 [ucast p, scast sig]) (\<lambda>r. ret (ucast r))"

definition my_munmap :: "'s program \<Rightarrow> ptr \<Rightarrow> u64 \<Rightarrow> ('s, u32) kop" where
  "my_munmap E dir sz =
     (if dir = NULL then ret (- 1) else bnd (invoke E 13 [dir, sz]) (\<lambda>r. ret (ucast r)))"

definition pipe :: "'s program \<Rightarrow> ptr \<Rightarrow> ('s, u32) kop" where
  "pipe E filedes = bnd (invoke E 22 [filedes]) (\<lambda>r. ret (ucast r))"

definition dup2 :: "'s program \<Rightarrow> u32 \<Rightarrow> u32 \<Rightarrow> ('s, u32) kop" where
  "dup2 E filedes filedes2 = bnd (invoke E 33 [scast filedes, scast filedes2]) (\<lambda>r. ret (ucast r))"

definition wait4 :: "'s program \<Rightarrow> u32 \<Rightarrow> ptr \<Rightarrow> u32 \<Rightarrow> ptr \<Rightarrow> ('s, u32) kop" where
  "wait4 E p wstatus options rusage =
     bnd (invoke E 61 [ucast p, wstatus, scast options, rusage]) (\<lambda>r. ret (ucast r))"

definition waitpid :: "'s program \<Rightarrow> u32 \<Rightarrow> ptr \<Rightarrow> u32 \<Rightarrow> ('s, u32) kop" where
  "waitpid E p status options = wait4 E p status 0 NULL"

definition chdir :: "'s program \<Rightarrow> ptr \<Rightarrow> ('s, u32) kop" where
  "chdir E path = bnd (invoke E 80 [path]) (\<lambda>r. ret (ucast r))"

section \<open>Memory and directories\<close>

definition malloc :: "'s program \<Rightarrow> u64 \<Rightarrow> ('s, ptr) kop" where
  "malloc E sz = mmap E NULL sz (0x1 OR 0x2) (0x20 OR 0x02) (- 1) 0"

definition alloc_dir :: "'z user_state_scheme program \<Rightarrow> u32 \<Rightarrow> ('z user_state_scheme, ptr) kop" where
  "alloc_dir E fd =
     bnd (malloc E 4) (\<lambda>dirp.
     if dirp = NULL then bnd (close E fd) (\<lambda>_. ret NULL)
     else bnd (store32 dirp fd) (\<lambda>_. ret dirp))"

definition opendir :: "'z user_state_scheme program \<Rightarrow> ptr \<Rightarrow> ('z user_state_scheme, ptr) kop" where
  "opendir E dirname =
     (if dirname = NULL then ret NULL
      else
        bnd (open_file E dirname (0 OR 2) 0) (\<lambda>fd.
        if fd = - 1 then ret NULL else alloc_dir E fd))"

definition readdir :: "'z user_state_scheme program \<Rightarrow> ptr \<Rightarrow> ptr \<Rightarrow> u32 \<Rightarrow> ('z user_state_scheme, u64) kop" where
  "readdir E dir buf max_size =
     bnd (load32 dir) (\<lambda>fd.
     bnd (getdents E fd buf max_size) (\<lambda>r. ret (scast r)))"

definition closedir :: "'z user_state_scheme program \<Rightarrow> ptr \<Rightarrow> ('z user_state_scheme, u32) kop" where
  "closedir E dir =
     (if dir = NULL then ret (- 1)
      else
        bnd (load32 dir) (\<lambda>fd.
        bnd (my_munmap E dir 4) (\<lambda>s.
        if s = - 1 then ret (- 1) else close E fd)))"

section \<open>The environment\<close>

text \<open>The length of a name up to its end or its equals sign.\<close>

definition name_length :: "ptr \<Rightarrow> ('z util_state_scheme, u32) kop" where
  "name_length name =
     bnd (loopM (\<lambda>e. bnd (load e) (\<lambda>b. ret (if b \<noteq> 0 \<and> b \<noteq> 61 then Inl (e + 1) else Inr e))) name) (\<lambda>e.
     ret (ucast (e - name)))"

text \<open>One entry of the environment against a name; the result is what the loop returns for a match.\<close>

definition env_step :: "ptr \<Rightarrow> u32 \<Rightarrow> (ptr \<Rightarrow> ptr \<Rightarrow> 'r) \<Rightarrow> 'r \<Rightarrow> ptr \<Rightarrow> ('z util_state_scheme, ptr + 'r) kop" where
  "env_step name len found none p =
     bnd (load64 p) (\<lambda>c.
     if c = NULL then ret (Inr none)
     else
       bnd (char_at c len) (\<lambda>b.
       if b = 61 then
         bnd (strncmp c name len) (\<lambda>r. ret (if r = 0 then Inr (found p c) else Inl (p + 8)))
       else ret (Inl (p + 8))))"

definition getenv :: "ptr \<Rightarrow> ('z user_state_scheme, ptr) kop" where
  "getenv name =
     (if name = NULL then ret NULL
      else
        bnd (name_length name) (\<lambda>len.
        bnd (gets environ) (\<lambda>env.
        loopM (env_step name len (\<lambda>p c. c + scast len + 1) NULL) env)))"

definition getenv_at :: "ptr \<Rightarrow> ('z user_state_scheme, u32) kop" where
  "getenv_at name =
     (if name = NULL then ret (- 1)
      else
        bnd (name_length name) (\<lambda>len.
        bnd (gets environ) (\<lambda>env.
        loopM (env_step name len (\<lambda>p c. ucast (drop_bit 3 (p - env))) (- 1)) env)))"

text \<open>
  The name must contain an equals sign to be accepted. The length of the environment is computed from
  the sizes of pointers, so it is always 1.
\<close>

definition setenv :: "'z user_state_scheme program \<Rightarrow> ptr \<Rightarrow> ptr \<Rightarrow> u32 \<Rightarrow> ('z user_state_scheme, u32) kop" where
  "setenv E name value overwrite =
     bnd (if name = NULL then ret NULL else strchr name 61) (\<lambda>eq.
     if name = NULL \<or> eq = NULL then ret (- 1)
     else
       bnd (getenv name) (\<lambda>envname.
       if envname \<noteq> NULL \<and> overwrite = 0 then ret 0
       else
         bnd (strlen name) (\<lambda>n.
         bnd (strlen value) (\<lambda>m.
         bnd (as_int (sint n + 1 + sint m + 1)) (\<lambda>len.
         bnd (malloc E (scast len)) (\<lambda>envstr.
         bnd (memcpy envstr name n) (\<lambda>_.
         bnd (store (envstr + scast n) 61) (\<lambda>_.
         bnd (memcpy (envstr + scast n + 1) value m) (\<lambda>_.
         bnd (store (envstr + scast len - 1) 0) (\<lambda>_.
         bnd (getenv_at name) (\<lambda>i.
         bnd (gets environ) (\<lambda>env.
         bnd (if 0 \<le> sint i then store64 (env + 8 * scast i) envstr
              else bnd (store64 (env + 8) envstr) (\<lambda>_. store64 (env + 16) NULL)) (\<lambda>_.
         ret 0)))))))))))))"

section \<open>The start of a program\<close>

text \<open>
  \<open>sp\<close> is the stack pointer the kernel starts the program with; \<open>main\<close> is its main function. The two words
  pushed for the alignment of the stack overwrite the number of arguments, which is in a register by then.
\<close>

definition crt_start :: "'z user_state_scheme program \<Rightarrow> (u32 \<Rightarrow> ptr \<Rightarrow> ptr \<Rightarrow> ('z user_state_scheme, u32) kop) \<Rightarrow> ptr \<Rightarrow>
    ('z user_state_scheme, u32) kop" where
  "crt_start E main sp =
     bnd (load64 sp) (\<lambda>argc.
     let argv = sp + 8 in
     bnd (store64 sp 0) (\<lambda>_.
     bnd (store64 (sp - 8) 0) (\<lambda>_.
     bnd (main (ucast argc) argv (argv + 8 * argc + 8)) (\<lambda>r.
     exit E r))))"

section \<open>What the environment functions find\<close>

lemma name_length_run:
  assumes "cstr (kmem s) name cs" and "length cs < 2 ^ 31"
  shows "name_length name s = Ok (of_nat (length (takeWhile (\<lambda>c. c \<noteq> 61) cs)), s)"
proof -
  let ?B = "\<lambda>e. bnd (load e) (\<lambda>b. ret (if b \<noteq> 0 \<and> b \<noteq> 61 then Inl (e + 1) else Inr e))"
  have "cstr (kmem s) p cs \<Longrightarrow> loopM ?B p s = Ok (p + of_nat (length (takeWhile (\<lambda>c. c \<noteq> 61) cs)), s)" for p
  proof (induction cs arbitrary: p)
    case Nil
    then show ?case by (simp add: loopM_exit)
  next
    case (Cons c cs)
    then show ?case by (cases "c = 61") (simp_all add: loopM_exit loopM_continue add_ac)
  qed
  moreover have "length (takeWhile (\<lambda>c. c \<noteq> 61) cs) < 2 ^ 31" using assms(2) length_takeWhile_le [of "\<lambda>c. c \<noteq> 61" cs] by simp
  ultimately show ?thesis
    using assms(1) by (simp add: name_length_def bnd_Ok unsigned_of_nat take_bit_nat_eq_self)
qed

text \<open>The environment: pointers to the strings \<open>vs\<close>, ended by a null pointer; each can be read up to index \<open>n\<close>.\<close>

definition env_at :: "(ptr \<Rightarrow> u8) \<Rightarrow> ptr \<Rightarrow> nat \<Rightarrow> bytes list \<Rightarrow> bool" where
  "env_at m env n vs \<longleftrightarrow>
     (\<forall>i \<le> length vs. env + 8 * of_nat i \<noteq> NULL) \<and> le_word (bytes_at m (env + 8 * of_nat (length vs)) 8) = NULL \<and>
     (\<forall>i < length vs. let p = le_word (bytes_at m (env + 8 * of_nat i) 8) in
        cstr m p (vs ! i) \<and> length (vs ! i) < 2 ^ 31 \<and> valid_range p (Suc n))"

lemma env_entry_run:
  assumes "cstr (kmem s) name cs" and "length cs < 2 ^ 31" and "n \<le> length cs" and "n < 2 ^ 31"
    and "cstr (kmem s) p v" and "length v < 2 ^ 31" and "valid_range p (Suc n)"
  shows "bnd (char_at p (of_nat n)) (\<lambda>b.
      if b = 61 then bnd (strncmp p name (of_nat n)) (\<lambda>r. ret (if r = 0 then Inr x else Inl y)) else ret (Inl y)) s =
    Ok (if take (Suc n) v = take n cs @ [61] then Inr x else Inl y, s)"
proof -
  have nn: "p + of_nat n \<noteq> NULL" by (rule valid_range_nonnull [OF assms(7)]) simp
  have r: "strncmp p name (of_nat n) s = Ok (strn_order n v cs, s)" by (rule strncmp_run [OF assms(5,6,1,2,4)])
  have "take (Suc n) v = take n cs @ [61] \<longleftrightarrow> kmem s (p + of_nat n) = 61 \<and> strn_order n v cs = 0"
  proof (cases "n < length v")
    case True
    then have "kmem s (p + of_nat n) = v ! n" using cstr_char [OF assms(5), of n] by (simp add: nth_append)
    moreover have "take (Suc n) v = take n v @ [v ! n]" using True by (rule take_Suc_conv_app_nth)
    ultimately show ?thesis using True by (auto simp: strn_order_zero)
  next
    case False
    then have l: "length v \<le> n" by simp
    have "length (take (Suc n) v) \<noteq> length (take n cs @ [61])" using l assms(3) by simp
    then have "take (Suc n) v \<noteq> take n cs @ [61]" by metis
    moreover have "\<not> (kmem s (p + of_nat n) = 61 \<and> v = cs)"
      using l assms(3) cstr_char [OF assms(5), of n] by (auto simp: nth_append)
    ultimately show ?thesis using l by (simp add: strn_order_zero)
  qed
  then show ?thesis using r nn assms(4) by (simp add: char_at_def scast_of_nat_small bnd_Ok)
qed

text \<open>
  \<^verbatim>\<open>getenv\<close> returns what follows the equals sign in the first entry of the environment that starts with the name and an
  equals sign, where the name ends at its own first equals sign, and the null pointer if there is none.
\<close>

theorem getenv_first_match:
  assumes "cstr (kmem s) name cs" and "length cs < 2 ^ 31" and "nm = takeWhile (\<lambda>c. c \<noteq> 61) cs"
    and "env_at (kmem s) (environ s) (length nm) vs"
  shows "getenv name s =
    Ok (case find (\<lambda>i. take (Suc (length nm)) (vs ! i) = nm @ [61]) [0..<length vs] of
          None \<Rightarrow> NULL
        | Some i \<Rightarrow> le_word (bytes_at (kmem s) (environ s + 8 * of_nat i) 8) + of_nat (length nm) + 1, s)"
proof -
  let ?n = "length nm" and ?e = "environ s"
  let ?p = "\<lambda>i. le_word (bytes_at (kmem s) (?e + 8 * of_nat i) 8)"
  have n: "?n \<le> length cs" "?n < 2 ^ 31"
    unfolding assms(3) using assms(2) length_takeWhile_le [of "\<lambda>c. c \<noteq> 61" cs] by simp_all
  have nm: "take ?n cs = nm" unfolding assms(3) by (rule takeWhile_eq_take [symmetric])
  let ?S = "env_step name (of_nat ?n) (\<lambda>p c. c + scast (of_nat ?n :: u32) + 1) NULL :: ptr \<Rightarrow> ('a user_state_scheme, ptr + ptr) kop"
  have len: "scast (of_nat ?n :: u32) = (of_nat ?n :: u64)" using n(2) by (simp add: scast_of_nat_small)
  have entry: "?S (?e + 8 * of_nat i) s =
      Ok (if take (Suc ?n) (vs ! i) = nm @ [61] then Inr (?p i + of_nat ?n + 1) else Inl (?e + 8 * of_nat (Suc i)), s)"
    if "i < length vs" for i
  proof -
    have e: "?e + 8 * of_nat i \<noteq> NULL" "cstr (kmem s) (?p i) (vs ! i)" "length (vs ! i) < 2 ^ 31" "valid_range (?p i) (Suc ?n)"
      using assms(4) that by (auto simp: env_at_def Let_def)
    have "?p i \<noteq> NULL" using e(2) by (cases "vs ! i") simp_all
    then have "?S (?e + 8 * of_nat i) s = bnd (char_at (?p i) (of_nat ?n)) (\<lambda>b.
        if b = 61 then bnd (strncmp (?p i) name (of_nat ?n)) (\<lambda>r.
          ret (if r = 0 then Inr (?p i + of_nat ?n + 1) else Inl (?e + 8 * of_nat i + 8)))
        else ret (Inl (?e + 8 * of_nat i + 8))) s"
      using e(1) by (simp add: env_step_def load64_def len)
    also have "\<dots> = Ok (if take (Suc ?n) (vs ! i) = take ?n cs @ [61] then Inr (?p i + of_nat ?n + 1)
        else Inl (?e + 8 * of_nat i + 8), s)"
      by (rule env_entry_run [OF assms(1,2) n e(2-4)])
    finally show ?thesis unfolding nm by (simp add: add_ac)
  qed
  have stop: "?S (?e + 8 * of_nat (length vs)) s = Ok (Inr NULL, s)"
    using assms(4) by (simp add: env_at_def env_step_def load64_def)
  have loop: "i \<le> length vs \<Longrightarrow> loopM ?S (?e + 8 * of_nat i) s =
      Ok (case find (\<lambda>i. take (Suc ?n) (vs ! i) = nm @ [61]) [i..<length vs] of None \<Rightarrow> NULL | Some i \<Rightarrow> ?p i + of_nat ?n + 1, s)" for i
  proof (induction i rule: inc_induct)
    case base
    then show ?case using stop by (simp add: loopM_exit)
  next
    case (step i)
    have u: "[i..<length vs] = i # [Suc i..<length vs]" using step.hyps(2) by (rule upt_conv_Cons)
    show ?case
    proof (cases "take (Suc ?n) (vs ! i) = nm @ [61]")
      case True
      then have "?S (?e + 8 * of_nat i) s = Ok (Inr (?p i + of_nat ?n + 1), s)" using entry [OF step.hyps(2)] by simp
      from loopM_exit [of ?S, OF this] True show ?thesis unfolding u by simp
    next
      case False
      then have "?S (?e + 8 * of_nat i) s = Ok (Inl (?e + 8 * of_nat (Suc i)), s)" using entry [OF step.hyps(2)] by simp
      from loopM_continue [of ?S, OF this] step.IH False show ?thesis unfolding u by simp
    qed
  qed
  have "name \<noteq> NULL" using assms(1) by (cases cs) simp_all
  then show ?thesis
    using loop [of 0] name_length_run [OF assms(1,2)] assms(3) by (simp add: getenv_def bnd_Ok)
qed

text \<open>A name without an equals sign is not accepted by \<^verbatim>\<open>setenv\<close>, although the sign is added behind the name later.\<close>

theorem setenv_needs_equals:
  assumes "cstr (kmem s) name cs" and "length cs < 2 ^ 31" and "61 \<notin> set cs"
  shows "setenv E name value overwrite s = Ok (- 1, s)"
proof -
  have "name \<noteq> NULL" using assms(1) by (cases cs) simp_all
  moreover have "strchr name 61 s = Ok (NULL, s)"
    using strchr_NULL_iff [OF assms(1,2), of 61] assms(3) by auto
  ultimately show ?thesis by (simp add: setenv_def bnd_Ok)
qed

end
