(* ===== verification/Memory_Regions.thy ===== *)
theory Memory_Regions
  imports Libc_String
begin

text \<open>
  Regions of memory: bytes stored from an address on, regions that do not meet, and words as little-endian
  bytes. The theories on user programs and on the disk driver reason about memory with these lemmas.
\<close>

section \<open>Stored bytes\<close>

text \<open>Bytes stored one behind the other from \<open>p\<close> on.\<close>

definition put_at :: "(ptr \<Rightarrow> u8) \<Rightarrow> ptr \<Rightarrow> bytes \<Rightarrow> ptr \<Rightarrow> u8" where
  "put_at m p xs = fill m p (length xs) ((!) xs)"

lemma fill_cong: "(\<And>i. i < n \<Longrightarrow> f i = g i) \<Longrightarrow> fill m p n f = fill m p n g"
  by (auto simp: fill_def)

lemma put_at_Nil [simp]: "put_at m p [] = m"
  by (simp add: put_at_def)

lemma put_at_outside: "length xs \<le> unat (a - p) \<Longrightarrow> put_at m p xs a = m a"
  by (simp add: put_at_def fill_outside)

lemma put_at_nth: "i < length xs \<Longrightarrow> length xs \<le> 2 ^ 64 \<Longrightarrow> put_at m p xs (p + of_nat i) = xs ! i"
  by (simp add: put_at_def fill_at)

lemma bytes_at_put_at: "length xs \<le> 2 ^ 64 \<Longrightarrow> bytes_at (put_at m p xs) p (length xs) = xs"
  by (rule nth_equalityI) (simp_all add: bytes_at_def put_at_nth)

lemma put_at_append:
  assumes "length xs + length ys < 2 ^ 64"
  shows "put_at (put_at m p xs) (p + of_nat (length xs)) ys = put_at m p (xs @ ys)"
proof
  fix a
  show "put_at (put_at m p xs) (p + of_nat (length xs)) ys a = put_at m p (xs @ ys) a"
  proof (cases "length xs \<le> unat (a - p)")
    case True
    then show ?thesis by (auto simp: put_at_def fill_def unat_behind nth_append)
  next
    case False
    let ?y = "a - (p + of_nat (length xs))"
    have "length ys \<le> unat ?y"
    proof (rule ccontr)
      assume "\<not> length ys \<le> unat ?y"
      then have "unat (?y + of_nat (length xs)) = unat ?y + length xs" using assms by (intro unat_add_of_nat) simp
      with False show False by simp
    qed
    with False show ?thesis by (simp add: put_at_def fill_def nth_append)
  qed
qed

lemma put_at_snoc:
  assumes "Suc (length xs) < 2 ^ 64"
  shows "(put_at m p xs)(p + of_nat (length xs) := c) = put_at m p (xs @ [c])"
proof -
  have "put_at k q [c] = k(q := c)" for k q
    using fill_Suc [of 0 k q "(!) [c]"] by (simp add: put_at_def)
  with put_at_append [of xs "[c]" m p] assms show ?thesis by simp
qed

lemma bytes_at_take: "k \<le> n \<Longrightarrow> bytes_at m p k = take k (bytes_at m p n)"
  by (rule nth_equalityI) (simp_all add: bytes_at_def)

lemma bytes_at_drop: "bytes_at m (p + of_nat k) (n - k) = drop k (bytes_at m p n)"
  by (rule nth_equalityI) (simp_all add: bytes_at_def less_diff_conv add_ac)

section \<open>Separate regions\<close>

text \<open>The bytes from \<open>p\<close> to \<open>p + n\<close> are not among the \<open>k\<close> bytes at \<open>buf\<close>.\<close>

definition clear_of :: "ptr \<Rightarrow> nat \<Rightarrow> ptr \<Rightarrow> nat \<Rightarrow> bool" where
  "clear_of buf k p n \<longleftrightarrow> (\<forall>i \<le> n. k \<le> unat (p + of_nat i - buf))"

lemma clear_of_cstr: "clear_of buf k p (length cs) \<Longrightarrow> length xs \<le> k \<Longrightarrow> cstr (put_at m buf xs) p cs = cstr m p cs"
  by (rule cstr_cong) (auto simp: clear_of_def intro!: put_at_outside)

lemma clear_of_later: "clear_of buf k p n \<Longrightarrow> j + l \<le> k \<Longrightarrow> i \<le> n \<Longrightarrow> l \<le> unat (p + of_nat i - (buf + of_nat j))"
proof -
  assume "clear_of buf k p n" "j + l \<le> k" "i \<le> n"
  then have "j + l \<le> unat (p + of_nat i - buf)" by (auto simp: clear_of_def)
  then show ?thesis by (simp add: unat_behind)
qed

lemma valid_range_later: "valid_range p k \<Longrightarrow> j + l \<le> k \<Longrightarrow> 0 < l \<Longrightarrow> valid_range (p + of_nat j) l"
proof -
  assume v: "valid_range p k" and l: "j + l \<le> k" "0 < l"
  have "unat (p + of_nat j) = unat p + j" using v l by (intro unat_add_of_nat) (simp add: valid_range_def)
  moreover have "p + of_nat j \<noteq> 0" using v l by (intro valid_range_nonnull [of p k]) simp_all
  ultimately show ?thesis using v l by (simp add: valid_range_def)
qed

lemma clear_of_below:
  assumes "unat p + n < unat buf" and "unat buf + k \<le> 2 ^ 64"
  shows "clear_of buf k p n"
  unfolding clear_of_def
proof (intro allI impI, rule ccontr)
  fix i assume i: "i \<le> n" and "\<not> k \<le> unat (p + of_nat i - buf)"
  let ?y = "p + of_nat i - buf"
  have "unat ?y + unat buf < 2 ^ 64" using \<open>\<not> k \<le> unat ?y\<close> assms(2) by simp
  then have "unat (?y + of_nat (unat buf)) = unat ?y + unat buf" by (rule unat_add_of_nat)
  moreover have "unat (p + of_nat i) = unat p + i"
    using assms i unsigned_less [of buf] by (intro unat_add_of_nat) simp
  ultimately show False using assms(1) i by simp
qed

lemma clear_of_same:
  assumes "clear_of buf k p n" and "\<forall>a. k \<le> unat (a - buf) \<longrightarrow> m' a = m a" and "i \<le> n"
  shows "m' (p + of_nat i) = m (p + of_nat i)"
  using assms by (simp add: clear_of_def)

lemma clear_of_bytes_same:
  assumes "clear_of buf k p n" and "\<forall>a. k \<le> unat (a - buf) \<longrightarrow> m' a = m a" and "l \<le> Suc n"
  shows "bytes_at m' p l = bytes_at m p l"
proof -
  have "m' (p + of_nat i) = m (p + of_nat i)" if "i < l" for i
    using assms(3) that by (intro clear_of_same [OF assms(1,2)]) simp
  then show ?thesis by (simp add: bytes_at_def)
qed

lemma clear_of_bytes_at:
  assumes "clear_of buf k p n" and "length xs \<le> k" and "l \<le> Suc n"
  shows "bytes_at (put_at m buf xs) p l = bytes_at m p l"
  using assms(2) by (intro clear_of_bytes_same [OF assms(1) _ assms(3)]) (auto intro: put_at_outside)

lemma clear_of_mono: "clear_of buf k p n \<Longrightarrow> k' \<le> k \<Longrightarrow> n' \<le> n \<Longrightarrow> clear_of buf k' p n'"
  by (auto simp: clear_of_def intro: order_trans)

lemma clear_of_inside:
  assumes "clear_of buf k p n" and "j + l \<le> k"
  shows "clear_of (buf + of_nat j) l p n"
  using clear_of_later [OF assms] by (simp add: clear_of_def)

lemma clear_of_shift: "clear_of buf k p n \<Longrightarrow> i + l \<le> n \<Longrightarrow> clear_of buf k (p + of_nat i) l"
proof -
  assume c: "clear_of buf k p n" and l: "i + l \<le> n"
  show ?thesis unfolding clear_of_def
  proof (intro allI impI)
    fix j assume "j \<le> l"
    then have "i + j \<le> n" using l by simp
    then have "k \<le> unat (p + of_nat (i + j) - buf)" using c unfolding clear_of_def by blast
    then show "k \<le> unat (p + of_nat i + of_nat j - buf)" by (simp add: add_ac)
  qed
qed

lemma clear_of_above:
  assumes "unat buf + k \<le> unat p" and "unat p + n < 2 ^ 64"
  shows "clear_of buf k p n"
  unfolding clear_of_def
proof (intro allI impI)
  fix i assume "i \<le> n"
  then have i: "unat (p + of_nat i) = unat p + i" using assms(2) by (intro unat_add_of_nat) simp
  then have "buf \<le> p + of_nat i" using assms(1) by (simp add: word_le_nat_alt)
  then have "unat (p + of_nat i - buf) = unat p + i - unat buf" using i by (simp add: unat_sub)
  then show "k \<le> unat (p + of_nat i - buf)" using assms(1) by simp
qed

section \<open>Words\<close>

definition word_bytes :: "u64 \<Rightarrow> bytes" where
  "word_bytes w = map (\<lambda>i. ucast (drop_bit (8 * i) w)) [0..<8]"

lemma length_word_bytes [simp]: "length (word_bytes w) = 8"
  by (simp add: word_bytes_def)

lemma store64_run: "valid_range p 8 \<Longrightarrow> store64 p w s = Ok ((), s\<lparr>kmem := put_at (kmem s) p (word_bytes w)\<rparr>)"
proof -
  assume "valid_range p 8"
  then have "valid_range p (length (word_bytes w))" by simp
  from store_range [OF this, of "(!) (word_bytes w)" s] show ?thesis by (simp add: put_at_def store64_def word_bytes_def upt_rec)
qed

lemma le_word_bytes: "le_word (map (\<lambda>i. ucast (drop_bit (8 * i) w)) [0..<n]) = take_bit (8 * n) w"
proof (induction n arbitrary: w)
  case (Suc n)
  have u: "[0..<Suc n] = 0 # map Suc [0..<n]" by (simp add: upt_conv_Cons map_Suc_upt del: upt_Suc)
  have d: "drop_bit (8 * Suc i) w = drop_bit (8 * i) (drop_bit 8 w)" for i by (simp add: drop_bit_drop_bit add.commute)
  have "le_word (map (\<lambda>i. ucast (drop_bit (8 * i) w)) [0..<Suc n]) =
      ucast (ucast w :: u8) OR push_bit 8 (le_word (map (\<lambda>i. ucast (drop_bit (8 * i) (drop_bit 8 w))) [0..<n]))"
    unfolding u by (simp only: list.map le_word.simps mult_0_right drop_bit_0 map_map comp_def d id_apply)
  also have "\<dots> = ucast (ucast w :: u8) OR push_bit 8 (take_bit (8 * n) (drop_bit 8 w))" by (simp only: Suc)
  also have "\<dots> = take_bit (8 * Suc n) w"
    by (rule bit_word_eqI) (auto simp: bit_or_iff bit_push_bit_iff bit_take_bit_iff bit_drop_bit_eq bit_unsigned_iff not_le)
  finally show ?case .
qed simp

lemma le_word_word_bytes [simp]: "le_word (word_bytes w) = w"
proof -
  have "take_bit 64 w = w" by (rule bit_word_eqI) (simp add: bit_take_bit_iff)
  then show ?thesis using le_word_bytes [of w 8] by (simp add: word_bytes_def)
qed

end
