(* ===== verification/Libc_Stdio.thy ===== *)
theory Libc_Stdio
  imports Libc_Calls Memory_Regions
begin

text \<open>
  Input and output of the C library: characters and lines, \<^verbatim>\<open>libc/putchar.c\<close>, \<^verbatim>\<open>libc/puts.c\<close>,
  \<^verbatim>\<open>libc/getchar.c\<close>, \<^verbatim>\<open>libc/getc.c\<close>, \<^verbatim>\<open>libc/fgets.c\<close> and \<^verbatim>\<open>libc/fopen.c\<close>, and formatted output,
  \<^verbatim>\<open>libc/vprintf.c\<close> and \<^verbatim>\<open>libc/printf.c\<close>.
\<close>

section \<open>Characters\<close>

definition putchar :: "'z user_state_scheme program \<Rightarrow> u32 \<Rightarrow> ('z user_state_scheme, u32) kop" where
  "putchar E c =
     (let x = local_at E ''putchar.x'' in
      bnd (store x (ucast c)) (\<lambda>_.
      bnd (write_fd E 1 x 1) (\<lambda>r.
      ret (if (ucast r :: u32) = 1 then c else EOF))))"

text \<open>The result of the loop tells whether every character was put.\<close>

definition puts_step :: "'z user_state_scheme program \<Rightarrow> ptr \<Rightarrow> ('z user_state_scheme, ptr + bool) kop" where
  "puts_step E s =
     bnd (load s) (\<lambda>b.
     if b \<noteq> 0 then
       bnd (putchar E (scast b)) (\<lambda>r. ret (if r \<noteq> scast b then Inr False else Inl (s + 1)))
     else ret (Inr True))"

definition puts :: "'z user_state_scheme program \<Rightarrow> ptr \<Rightarrow> ('z user_state_scheme, u32) kop" where
  "puts E s =
     bnd (loopM (puts_step E) s) (\<lambda>b.
     if \<not> b then ret EOF
     else bnd (putchar E 10) (\<lambda>r. ret (if r = 10 then 0 else EOF)))"

text \<open>The static buffer has 1024 bytes; the number of bytes read is cut to an \<^verbatim>\<open>int\<close>.\<close>

definition getchar :: "'z user_state_scheme program \<Rightarrow> ('z user_state_scheme, u32) kop" where
  "getchar E =
     (let buf = local_at E ''getchar.buf'' in
      bnd (gets getchar_n) (\<lambda>n.
      bnd (if n = 0 then
             bnd (read E 0 buf 1024) (\<lambda>r.
             modify (\<lambda>s. s\<lparr>getchar_n := ucast r, getchar_pos := buf\<rparr>))
           else ret ()) (\<lambda>_.
      bnd (gets getchar_n) (\<lambda>n.
      bnd (as_int (sint n - 1)) (\<lambda>m.
      bnd (modify (\<lambda>s. s\<lparr>getchar_n := m\<rparr>)) (\<lambda>_.
      if 0 \<le> sint m then
        bnd (gets getchar_pos) (\<lambda>p.
        bnd (load p) (\<lambda>b.
        bnd (modify (\<lambda>s. s\<lparr>getchar_pos := p + 1\<rparr>)) (\<lambda>_. ret (ucast b))))
      else ret EOF))))))"

definition getc :: "'z user_state_scheme program \<Rightarrow> ptr \<Rightarrow> ('z user_state_scheme, u32) kop" where
  "getc E fp =
     (let buf = local_at E ''getc.buf'' in
      bnd (gets getc_n) (\<lambda>n.
      bnd (if n = 0 then
             bnd (load32 fp) (\<lambda>fd.
             bnd (read E fd buf 1024) (\<lambda>r.
             modify (\<lambda>s. s\<lparr>getc_n := ucast r, getc_pos := buf\<rparr>)))
           else ret ()) (\<lambda>_.
      bnd (gets getc_n) (\<lambda>n.
      bnd (as_int (sint n - 1)) (\<lambda>m.
      bnd (modify (\<lambda>s. s\<lparr>getc_n := m\<rparr>)) (\<lambda>_.
      if 0 \<le> sint m then
        bnd (gets getc_pos) (\<lambda>p.
        bnd (load p) (\<lambda>b.
        bnd (modify (\<lambda>s. s\<lparr>getc_pos := p + 1\<rparr>)) (\<lambda>_. ret (ucast b))))
      else ret EOF))))))"

section \<open>Lines and files\<close>

text \<open>
  The library declares \<^verbatim>\<open>fgetc\<close> without defining it; it is a parameter. The character is kept in a
  \<^verbatim>\<open>char\<close>, so that the byte 255 counts as the end of the file. The loop yields the end of the line, or
  nothing for an end of file in front of the first character.
\<close>

definition fgets_step :: "'z user_state_scheme program \<Rightarrow> (ptr \<Rightarrow> ('z user_state_scheme, u32) kop) \<Rightarrow> ptr \<Rightarrow> ptr \<Rightarrow>
    ptr \<times> u32 \<Rightarrow> ('z user_state_scheme, ptr \<times> u32 + ptr option) kop" where
  "fgets_step E fgetc dest fp = (\<lambda>(p, n).
     if 0 < sint n then
       bnd (fgetc fp) (\<lambda>r.
       let c = ucast r :: u8 in
       bnd (putchar E (scast c)) (\<lambda>_.
       if (scast c :: u32) = EOF then ret (Inr (if p = dest then None else Some p))
       else if c = 10 then ret (Inr (Some p))
       else bnd (store p c) (\<lambda>_. ret (Inl (p + 1, n - 1)))))
     else ret (Inr (Some p)))"

definition fgets :: "'z user_state_scheme program \<Rightarrow> (ptr \<Rightarrow> ('z user_state_scheme, u32) kop) \<Rightarrow> ptr \<Rightarrow> u32 \<Rightarrow> ptr \<Rightarrow>
    ('z user_state_scheme, ptr) kop" where
  "fgets E fgetc dest n fp =
     (if fp = NULL then ret NULL
      else
        bnd (loopM (fgets_step E fgetc dest fp) (dest, n)) (\<lambda>r.
        case r of
          None \<Rightarrow> ret NULL
        | Some p \<Rightarrow> bnd (store p 0) (\<lambda>_. ret p)))"

text \<open>The pointer to the new file structure is never set before the descriptor is stored through it.\<close>

definition fopen :: "'z user_state_scheme program \<Rightarrow> ptr \<Rightarrow> ptr \<Rightarrow> ('z user_state_scheme, ptr) kop" where
  "fopen E filename mode =
     (if filename = NULL then ret NULL
      else
        bnd (strchr mode 114) (\<lambda>r.
        bnd (strchr mode 119) (\<lambda>w.
        if r = NULL \<and> w = NULL then ret NULL
        else
          bnd (open_file E filename (if r \<noteq> NULL then 0 else 1) 0) (\<lambda>fd.
          fail Uninitialised))))"

section \<open>Formatted output\<close>

text \<open>
  The variadic arguments. The digits of a number go through two local arrays, of 64 bytes each, whose
  addresses do not leave the function.
\<close>

datatype arg = IntArg u32 | PtrArg ptr

definition libc_convert_to_base :: "u32 \<Rightarrow> u32 \<Rightarrow> bytes outcome" where
  "libc_convert_to_base i base = number_digits 63 ''0123456789ABCDEF'' base i"

definition put_bytes :: "ptr \<Rightarrow> bytes \<Rightarrow> ('z util_state_scheme, unit) kop" where
  "put_bytes temp ds = for_each [0..<length ds] (\<lambda>i. store (temp + of_nat i) (ds ! i))"

definition put_number :: "ptr \<Rightarrow> u32 \<Rightarrow> u32 \<Rightarrow> ('z util_state_scheme, nat) kop" where
  "put_number temp i base =
     (case libc_convert_to_base i base of
        Ok ds \<Rightarrow> bnd (put_bytes temp ds) (\<lambda>_. ret (length ds))
      | Fault e \<Rightarrow> fail e
      | Diverge \<Rightarrow> (\<lambda>_. Diverge))"

text \<open>One directive at \<open>temp\<close>: the number of bytes stored and the arguments left. A negative number loses its sign.\<close>

definition vprintf_directive :: "u8 \<Rightarrow> ptr \<Rightarrow> arg list \<Rightarrow> ('z util_state_scheme, nat \<times> arg list) kop" where
  "vprintf_directive d temp args =
     (if d = ch CHR ''s'' then
        (case args of
           PtrArg s # rest \<Rightarrow>
             bnd (strlen s) (\<lambda>len.
             bnd (memcpy temp s len) (\<lambda>_. ret (nat (sint len), rest)))
         | _ \<Rightarrow> fail MissingArgument)
      else if d = ch CHR ''d'' then
        (case args of
           IntArg i # rest \<Rightarrow>
             bnd (if sint i < 0 then as_int (- sint i) else ret i) (\<lambda>j.
             bnd (put_number temp j 10) (\<lambda>k. ret (k, rest)))
         | _ \<Rightarrow> fail MissingArgument)
      else if d = ch CHR ''c'' then
        (case args of
           IntArg i # rest \<Rightarrow> bnd (store temp (ucast i)) (\<lambda>_. ret (1, rest))
         | _ \<Rightarrow> fail MissingArgument)
      else if d = ch CHR ''x'' \<or> d = ch CHR ''p'' then
        (case args of
           IntArg i # rest \<Rightarrow> bnd (put_number temp i 16) (\<lambda>k. ret (k, rest))
         | _ \<Rightarrow> fail MissingArgument)
      else if d = ch CHR ''o'' then
        (case args of
           IntArg i # rest \<Rightarrow> bnd (put_number temp i 8) (\<lambda>k. ret (k, rest))
         | _ \<Rightarrow> fail MissingArgument)
      else ret (0, args))"

definition vprintf_step :: "ptr \<Rightarrow> u32 \<times> ptr \<times> u64 \<times> arg list \<Rightarrow>
    ('z util_state_scheme, u32 \<times> ptr \<times> u64 \<times> arg list + ptr \<times> u64) kop" where
  "vprintf_step str = (\<lambda>(j, temp, n_written, args).
     bnd (strlen str) (\<lambda>len.
     if sint j < sint len then
       bnd (char_at str j) (\<lambda>c.
       if c \<noteq> ch CHR ''%'' then
         bnd (store temp c) (\<lambda>_.
         bnd (inc j) (\<lambda>j. ret (Inl (j, temp + 1, n_written + 1, args))))
       else
         bnd (inc j) (\<lambda>j.
         bnd (char_at str j) (\<lambda>d.
         bnd (vprintf_directive d temp args) (\<lambda>(k, args).
         bnd (inc j) (\<lambda>j. ret (Inl (j, temp + of_nat k, n_written + of_nat k, args)))))))
     else ret (Inr (temp, n_written))))"

text \<open>The size of the buffer is not looked at.\<close>

definition vprintf :: "ptr \<Rightarrow> u64 \<Rightarrow> ptr \<Rightarrow> arg list \<Rightarrow> ('z util_state_scheme, u64) kop" where
  "vprintf buf sz fmt args =
     (if fmt = NULL then ret 0
      else
        bnd (load fmt) (\<lambda>b.
        if b = 0 then bnd (store buf 0) (\<lambda>_. ret 1)
        else
          bnd (loopM (vprintf_step fmt) (0, buf, 0, args)) (\<lambda>(temp, n_written).
          bnd (store temp 0) (\<lambda>_. ret n_written))))"

definition printf :: "'z user_state_scheme program \<Rightarrow> ptr \<Rightarrow> arg list \<Rightarrow> ('z user_state_scheme, u32) kop" where
  "printf E format args =
     (if format = NULL then ret 0
      else
        (let buf = local_at E ''printf.buf'' in
         bnd (vprintf buf 128 format args) (\<lambda>n_written.
         bnd (write_fd E 1 buf (ucast n_written)) (\<lambda>r. ret (ucast r)))))"

section \<open>Programs by name\<close>

text \<open>\<^verbatim>\<open>path\<close> is an array of \<^verbatim>\<open>len\<close> bytes on the stack; the NUL is stored behind it.\<close>

definition execvpe :: "'z user_state_scheme program \<Rightarrow> ptr \<Rightarrow> ptr \<Rightarrow> ptr \<Rightarrow> ('z user_state_scheme, u32) kop" where
  "execvpe E file argv envp =
     bnd (strchr file 47) (\<lambda>sl.
     bnd (if sl \<noteq> NULL then bnd (execve E file argv envp) (\<lambda>_. ret ()) else ret ()) (\<lambda>_.
     bnd (load64 envp) (\<lambda>searchpath.
     bnd (strtok searchpath (lit_at E '':'')) (\<lambda>pre.
     bnd (strlen pre) (\<lambda>n.
     bnd (strlen file) (\<lambda>m.
     bnd (as_int (sint n + 1 + sint m)) (\<lambda>len.
     let path = local_at E ''execvpe.path'' in
     bnd (memcpy path pre n) (\<lambda>_.
     bnd (store (path + scast n) 47) (\<lambda>_.
     bnd (memcpy (path + scast n + 1) file m) (\<lambda>_.
     bnd (store (path + scast len) 0) (\<lambda>_.
     bnd (puts E path) (\<lambda>_.
     bnd (execve E path argv envp) (\<lambda>_.
     ret (- 1))))))))))))))"

section \<open>Digits\<close>

definition digit :: "nat \<Rightarrow> u8" where
  "digit k = ch (''0123456789ABCDEF'' ! k)"

text \<open>The numeral of a number in a base, without leading zeros.\<close>

fun numeral_of :: "nat \<Rightarrow> nat \<Rightarrow> bytes" where
  "numeral_of base n =
     (if base < 2 \<or> n < base then [digit n] else numeral_of base (n div base) @ [digit (n mod base)])"

declare numeral_of.simps [simp del]

lemma all_less_Suc_numeral:
  "(\<forall>k<Suc n. P k) \<longleftrightarrow> P n \<and> (\<forall>k<n. P k)"
  by (simp add: All_less_Suc)

lemma digit_nonzero: "k < 16 \<Longrightarrow> digit k \<noteq> 0"
proof -
  have "\<forall>k<16. digit k \<noteq> 0" by (simp add: digit_def all_less_numeral)
  then show "k < 16 \<Longrightarrow> digit k \<noteq> 0" by simp
qed

lemma numeral_of_nonzero: "base \<le> 16 \<Longrightarrow> 2 \<le> base \<Longrightarrow> 0 \<notin> set (numeral_of base n)"
proof (induction base n rule: numeral_of.induct)
  case (1 base n)
  have "n mod base < 16" using "1.prems" mod_less_divisor [of base n] by linarith
  then show ?case
    using 1 digit_nonzero [of n] digit_nonzero [of "n mod base"]
    by (cases "n < base") (auto simp: numeral_of.simps [of base n])
qed

lemma digit_char_hex: "k < 16 \<Longrightarrow> digit_char ''0123456789ABCDEF'' k = Ok (digit k)"
  by (simp add: digit_char_def digit_def)

lemma numeral_of_digits:
  assumes "2 \<le> unat base" and "unat base \<le> 16"
  shows "unat r < unat base ^ k \<Longrightarrow> length ds + k \<le> cap \<Longrightarrow>
    digit_loop cap ''0123456789ABCDEF'' base r ds = Ok ((if r = 0 then [] else numeral_of (unat base) (unat r)) @ ds)"
proof (induction k arbitrary: r ds)
  case 0
  then have "r = 0" by (simp add: unat_eq_zero)
  then show ?case by (simp add: digit_loop.simps)
next
  case (Suc k)
  show ?case
  proof (cases "r = 0")
    case False
    have b: "base \<noteq> 0" using assms(1) by auto
    have m: "unat (r mod base) < 16" using assms by (simp add: unat_mod order_less_le_trans [OF mod_less_divisor])
    have "unat (r div base) < unat base ^ k"
      using Suc.prems(1) assms(1) by (simp add: unat_div less_mult_imp_div_less mult.commute)
    then have IH: "digit_loop cap ''0123456789ABCDEF'' base (r div base) (digit (unat (r mod base)) # ds) =
        Ok ((if r div base = 0 then [] else numeral_of (unat base) (unat (r div base))) @ digit (unat (r mod base)) # ds)"
      using Suc.prems(2) by (intro Suc.IH) simp_all
    have "r div base = 0 \<longleftrightarrow> unat r < unat base"
      using assms(1) by (simp add: unat_eq_zero [symmetric] unat_div div_eq_0_iff)
    then have n: "(if r div base = 0 then [] else numeral_of (unat base) (unat (r div base))) @ [digit (unat (r mod base))] =
        numeral_of (unat base) (unat r)"
      using assms(1) by (subst (2) numeral_of.simps) (simp add: unat_div unat_mod)
    have c: "\<not> cap \<le> length ds" using Suc.prems(2) by simp
    have "digit_loop cap ''0123456789ABCDEF'' base r ds =
        digit_loop cap ''0123456789ABCDEF'' base (r div base) (digit (unat (r mod base)) # ds)"
      using False b c by (subst digit_loop.simps) (simp only: digit_char_hex [OF m] if_False outcome.case)
    also have "\<dots> = Ok (((if r div base = 0 then [] else numeral_of (unat base) (unat (r div base))) @
        [digit (unat (r mod base))]) @ ds)" unfolding IH by simp
    finally show ?thesis unfolding n using False by simp
  qed (simp add: digit_loop.simps)
qed

lemma number_digits_numeral:
  assumes "2 \<le> base" and "base \<le> 16" and "32 \<le> cap"
  shows "number_digits cap ''0123456789ABCDEF'' base i = Ok (numeral_of (unat base) (unat i))"
proof -
  have b: "2 \<le> unat base" "unat base \<le> 16" using assms by (simp_all add: word_le_nat_alt)
  have "unat i < 2 ^ 32" using unsigned_less [of i] by simp
  also have "(2 :: nat) ^ 32 \<le> unat base ^ 32" using b(1) by (rule power_mono) simp
  finally have u: "unat i < unat base ^ 32" .
  have t: "takeWhile (\<lambda>d. d \<noteq> 0) (numeral_of (unat base) n) = numeral_of (unat base) n" for n
    using numeral_of_nonzero [OF b(2,1), of n] by (auto simp: takeWhile_eq_all_conv)
  show ?thesis
  proof (cases "i = 0")
    case True
    have "numeral_of (unat base) 0 = [digit 0]" using b by (simp add: numeral_of.simps)
    with True show ?thesis by (simp add: number_digits_def digit_loop.simps digit_def)
  next
    case False
    then show ?thesis using numeral_of_digits [OF b u, of "[]" cap] assms(3) t by (simp add: number_digits_def)
  qed
qed

lemma decimal_digit_digit: "k < 10 \<Longrightarrow> decimal_digit (digit k) \<and> unat (digit k) - 48 = k"
proof -
  have "\<forall>k<10. decimal_digit (digit k) \<and> unat (digit k) - 48 = k"
    by (simp add: digit_def decimal_digit_def all_less_numeral)
  then show "k < 10 \<Longrightarrow> decimal_digit (digit k) \<and> unat (digit k) - 48 = k" by simp
qed

lemma decimal_numeral: "decimal_value (numeral_of 10 n) = n \<and> (\<forall>d\<in>set (numeral_of 10 n). decimal_digit d)"
proof (induction n rule: less_induct)
  case (less n)
  show ?case
  proof (cases "n < 10")
    case True
    then show ?thesis using decimal_digit_digit [of n] by (simp add: numeral_of.simps [of 10 n] decimal_value_def)
  next
    case False
    then have "n div 10 < n" by simp
    from less.IH [OF this] False show ?thesis
      using decimal_digit_digit [of "n mod 10"] by (simp add: numeral_of.simps [of 10 n] decimal_value_snoc)
  qed
qed

lemma numeral_of_length: "2 \<le> base \<Longrightarrow> n < base ^ k \<Longrightarrow> 0 < k \<Longrightarrow> length (numeral_of base n) \<le> k"
proof (induction k arbitrary: n)
  case (Suc k)
  show ?case
  proof (cases "n < base")
    case True
    then show ?thesis by (simp add: numeral_of.simps)
  next
    case False
    with Suc.prems have k: "0 < k" by (cases k) auto
    have "n div base < base ^ k" using Suc.prems by (simp add: less_mult_imp_div_less mult.commute)
    with Suc.IH [OF Suc.prems(1) this k] show ?thesis using False by (simp add: numeral_of.simps [of base n])
  qed
qed simp

text \<open>
  C22: Reading a decimal number with \<^verbatim>\<open>atoi\<close> inverts writing it with the library's \<^verbatim>\<open>convert_to_base\<close>: the
  conversion of every \<^verbatim>\<open>int\<close> that is not negative succeeds, and its digits, wherever they are stored, read back as
  the number.
\<close>

theorem atoi_inverts_convert:
  assumes "unat n < 2 ^ 31"
  shows "\<exists>ds. libc_convert_to_base n 10 = Ok ds \<and> (\<forall>p s. cstr (kmem s) p ds \<longrightarrow> atoi p s = Ok (n, s))"
proof (intro exI conjI allI impI)
  let ?ds = "numeral_of 10 (unat n)"
  show "libc_convert_to_base n 10 = Ok ?ds"
    using number_digits_numeral [of 10 63 n] by (simp add: libc_convert_to_base_def)
  have "length ?ds \<le> 10" using assms by (intro numeral_of_length) simp_all
  then show "atoi p s = Ok (n, s)" if "cstr (kmem s) p ?ds" for p s
    using atoi_run [OF that] assms decimal_numeral [of "unat n"] by simp
qed

theorem atoi_inverts_convert_witness:
  "libc_convert_to_base 2017 10 = Ok (bytes_of ''2017'') \<and>
   atoi 0x100 (memory_state (text_at 0x100 ''2017'')) = Ok (2017, memory_state (text_at 0x100 ''2017''))"
proof -
  have c: "libc_convert_to_base 2017 10 = Ok (bytes_of ''2017'')"
    by (simp add: libc_convert_to_base_def number_digits_numeral numeral_of.simps digit_def bytes_of_def)
  have "cstr (kmem (memory_state (text_at 0x100 ''2017''))) 0x100 (bytes_of ''2017'')" by (simp add: bytes_of_def text_at_def)
  moreover have "\<exists>ds. libc_convert_to_base 2017 10 = Ok ds \<and> (\<forall>p (s :: util_state). cstr (kmem s) p ds \<longrightarrow> atoi p s = Ok (2017, s))"
    by (rule atoi_inverts_convert) simp
  ultimately show ?thesis using c by auto
qed

section \<open>The text of a format\<close>

lemma put_bytes_run: "valid_range p (length ds) \<Longrightarrow> put_bytes p ds s = Ok ((), s\<lparr>kmem := put_at (kmem s) p ds\<rparr>)"
  unfolding put_bytes_def put_at_def by (rule store_range)

text \<open>
  What a directive stands for, and the arguments behind it; \<open>str\<close> gives the string at a pointer. The
  library prints the magnitude of a negative number.
\<close>

definition directive_text :: "(ptr \<Rightarrow> bytes) \<Rightarrow> u8 \<Rightarrow> arg list \<Rightarrow> (bytes \<times> arg list) option" where
  "directive_text str d args =
     (if d = ch CHR ''s'' then (case args of PtrArg p # rest \<Rightarrow> Some (str p, rest) | _ \<Rightarrow> None)
      else if d = ch CHR ''d'' then
        (case args of
           IntArg i # rest \<Rightarrow> if i = 0x80000000 then None else Some (numeral_of 10 (nat \<bar>sint i\<bar>), rest)
         | _ \<Rightarrow> None)
      else if d = ch CHR ''c'' then (case args of IntArg i # rest \<Rightarrow> Some ([ucast i], rest) | _ \<Rightarrow> None)
      else if d = ch CHR ''x'' \<or> d = ch CHR ''p'' then
        (case args of IntArg i # rest \<Rightarrow> Some (numeral_of 16 (unat i), rest) | _ \<Rightarrow> None)
      else if d = ch CHR ''o'' then
        (case args of IntArg i # rest \<Rightarrow> Some (numeral_of 8 (unat i), rest) | _ \<Rightarrow> None)
      else Some ([], args))"

fun format_text :: "(ptr \<Rightarrow> bytes) \<Rightarrow> bytes \<Rightarrow> arg list \<Rightarrow> bytes option" where
  "format_text str [] args = Some []"
| "format_text str [c] args = Some (if c \<noteq> ch CHR ''%'' then [c] else [])"
| "format_text str (c # d # cs) args =
     (if c \<noteq> ch CHR ''%'' then map_option ((#) c) (format_text str (d # cs) args)
      else case directive_text str d args of
             None \<Rightarrow> None
           | Some (out, rest) \<Rightarrow> map_option ((@) out) (format_text str cs rest))"

declare format_text.simps [simp del]

lemma put_number_run:
  assumes "2 \<le> base" and "base \<le> 16" and "valid_range p (length (numeral_of (unat base) (unat i)))"
  shows "put_number p i base s =
    Ok (length (numeral_of (unat base) (unat i)), s\<lparr>kmem := put_at (kmem s) p (numeral_of (unat base) (unat i))\<rparr>)"
  using number_digits_numeral [OF assms(1,2), of 63 i] put_bytes_run [OF assms(3), of s]
  by (simp add: put_number_def libc_convert_to_base_def bnd_Ok)

definition args_in_memory :: "(ptr \<Rightarrow> u8) \<Rightarrow> (ptr \<Rightarrow> bytes) \<Rightarrow> ptr \<Rightarrow> nat \<Rightarrow> arg list \<Rightarrow> bool" where
  "args_in_memory m str buf k args \<longleftrightarrow>
     (\<forall>p. PtrArg p \<in> set args \<longrightarrow> cstr m p (str p) \<and> length (str p) < 2 ^ 31 \<and> clear_of buf k p (length (str p)))"

lemma sint_most_negative: "i \<noteq> 0x80000000 \<Longrightarrow> - (2 ^ 31) < sint (i :: u32)"
proof (rule ccontr)
  assume i: "i \<noteq> 0x80000000" and "\<not> - (2 ^ 31) < sint i"
  then have "sint i = sint (0x80000000 :: u32)" using sint_u32_range [of i] by simp
  with i show False using signed_word_eqI by blast
qed

lemma negated_magnitude:
  assumes "sint (i :: u32) < 0" and "i \<noteq> 0x80000000"
  shows "as_int (- sint i) s = Ok (- i, s)" and "unat (- i) = nat \<bar>sint i\<bar>"
proof -
  have "as_int (- sint i) s = Ok (word_of_int (- sint i), s)"
    using assms sint_most_negative [OF assms(2)] by (intro as_int_run) simp_all
  then show "as_int (- sint i) s = Ok (- i, s)" by simp
  show "unat (- i) = nat \<bar>sint i\<bar>" using uminus_magnitude [OF assms(1)] by linarith
qed

lemma directive_run:
  assumes "directive_text str d args = Some (out, rest)" and "args_in_memory m str buf k args"
    and "kmem s = put_at m buf pre" and "length pre + length out \<le> k" and "valid_range buf (Suc k)"
  shows "vprintf_directive d (buf + of_nat (length pre)) args s =
      Ok ((length out, rest), s\<lparr>kmem := put_at (kmem s) (buf + of_nat (length pre)) out\<rparr>)"
    and "set rest \<subseteq> set args"
proof -
  let ?q = "buf + of_nat (length pre)"
  have v: "valid_range ?q (Suc (length out))"
    using assms(4) by (intro valid_range_later [OF assms(5)]) simp_all
  then have v': "valid_range ?q (length out)" and q: "?q \<noteq> 0"
    by (auto elim: valid_range_mono simp: valid_range_def)
  show "set rest \<subseteq> set args"
    using assms(1) by (auto simp: directive_text_def split: if_splits list.splits arg.splits)
  have num: "put_number ?q j b s = Ok (length out, s\<lparr>kmem := put_at (kmem s) ?q out\<rparr>)"
    if "out = numeral_of (unat b) (unat j)" "2 \<le> b" "b \<le> 16" for j b
    using put_number_run [OF that(2,3), of ?q j s] v' that(1) by simp
  consider
      (s) p where "d = ch CHR ''s''" "args = PtrArg p # rest" "out = str p"
    | (d) i where "d = ch CHR ''d''" "args = IntArg i # rest" "out = numeral_of 10 (nat \<bar>sint i\<bar>)" "i \<noteq> 0x80000000"
    | (c) i where "d = ch CHR ''c''" "args = IntArg i # rest" "out = [ucast i]"
    | (x) i where "d = ch CHR ''x'' \<or> d = ch CHR ''p''" "args = IntArg i # rest" "out = numeral_of 16 (unat i)"
    | (o) i where "d = ch CHR ''o''" "args = IntArg i # rest" "out = numeral_of 8 (unat i)"
    | (none) "d \<notin> {ch CHR ''s'', ch CHR ''d'', ch CHR ''c'', ch CHR ''x'', ch CHR ''p'', ch CHR ''o''}" "rest = args" "out = []"
    using assms(1) by (auto simp: directive_text_def split: if_splits list.splits arg.splits)
  then show "vprintf_directive d ?q args s = Ok ((length out, rest), s\<lparr>kmem := put_at (kmem s) ?q out\<rparr>)"
  proof cases
    case s
    have p: "cstr m p out" "length out < 2 ^ 31" "clear_of buf k p (length out)"
      using assms(2) s by (auto simp: args_in_memory_def)
    have "cstr (kmem s) p out"
      using p assms(3,4) clear_of_cstr [OF p(3), of pre m] by simp
    note c = this
    have "\<forall>i < length out. length out \<le> unat (p + of_nat i - ?q)"
      using clear_of_later [OF p(3) assms(4)] by simp
    moreover have "valid_range p (length out)" using cstr_range [OF c] by (rule valid_range_mono) simp
    moreover have "fill (kmem s) ?q (length out) (\<lambda>i. kmem s (p + of_nat i)) = put_at (kmem s) ?q out"
      unfolding put_at_def using cstr_char [OF c] by (intro fill_cong) (simp add: nth_append)
    ultimately have "memcpy ?q p (of_nat (length out)) s = Ok ((), s\<lparr>kmem := put_at (kmem s) ?q out\<rparr>)"
      using memcpy_run [OF v' _ p(2), of p s] by simp
    then show ?thesis
      using s(1,2) p(2) by (simp add: vprintf_directive_def bnd_Ok strlen_run [OF c p(2)] sint_of_nat_small)
  next
    case d
    show ?thesis
    proof (cases "sint i < 0")
      case True
      then show ?thesis
        using d num [of 10 "- i"] negated_magnitude(2) [OF True d(4)]
        by (simp add: vprintf_directive_def bnd_Ok negated_magnitude(1) [OF True d(4)])
    next
      case False
      then have "unat i = nat \<bar>sint i\<bar>" using sint_nonneg_unat [OF False] by linarith
      with False show ?thesis using d num [of 10 i] by (simp add: vprintf_directive_def bnd_Ok)
    qed
  next
    case c
    have "put_at (kmem s) ?q [ucast i] = (kmem s)(?q := ucast i)"
      using fill_Suc [of 0 "kmem s" ?q "(!) [ucast i]"] by (simp add: put_at_def)
    then show ?thesis using c q by (simp add: vprintf_directive_def)
  next
    case x
    then show ?thesis using num [of 16 i] by (auto simp: vprintf_directive_def bnd_Ok)
  next
    case o
    then show ?thesis using num [of 8 i] by (simp add: vprintf_directive_def bnd_Ok)
  next
    case none
    then show ?thesis by (simp add: vprintf_directive_def)
  qed
qed

text \<open>The format \<open>cs\<close> at \<open>fmt\<close>, and a buffer with room for \<open>k\<close> bytes and a NUL that does not meet it.\<close>

definition fmt_ready :: "(ptr \<Rightarrow> u8) \<Rightarrow> ptr \<Rightarrow> bytes \<Rightarrow> ptr \<Rightarrow> nat \<Rightarrow> bool" where
  "fmt_ready m fmt cs buf k \<longleftrightarrow>
     cstr m fmt cs \<and> Suc (length cs) < 2 ^ 31 \<and> clear_of buf k fmt (length cs) \<and> valid_range buf (Suc k)"

lemma fmt_ready_cstr:
  "fmt_ready m fmt cs buf k \<Longrightarrow> length pre \<le> k \<Longrightarrow> kmem s = put_at m buf pre \<Longrightarrow> cstr (kmem s) fmt cs"
  using clear_of_cstr [of buf k fmt cs pre m] by (simp add: fmt_ready_def)

lemma fmt_ready_buf:
  assumes "fmt_ready m fmt cs buf k" and "length pre \<le> k"
  shows "Suc (length pre) < 2 ^ 64" "buf + of_nat (length pre) \<noteq> NULL"
proof -
  have v: "valid_range buf (Suc k)" using assms(1) by (simp add: fmt_ready_def)
  have "buf \<noteq> 0" using v by (simp add: valid_range_def)
  then have "0 < unat buf" by (simp add: unat_gt_0)
  then show "Suc (length pre) < 2 ^ 64" using v assms(2) by (simp add: valid_range_def)
  show "buf + of_nat (length pre) \<noteq> NULL" using assms(2) by (intro valid_range_nonnull [OF v]) simp
qed

lemma step_exit:
  assumes "fmt_ready m fmt cs buf k" and "length pre \<le> k" and "kmem s = put_at m buf pre"
    and "length cs \<le> j" and "j \<le> Suc (length cs)"
  shows "vprintf_step fmt (of_nat j, q, n, args) s = Ok (Inr (q, n), s)"
proof -
  note c = fmt_ready_cstr [OF assms(1-3)]
  have l: "Suc (length cs) < 2 ^ 31" using assms(1) by (simp add: fmt_ready_def)
  then have "\<not> sint (of_nat j :: u32) < sint (of_nat (length cs) :: u32)"
    using assms(4,5) by (simp add: sint_of_nat_small)
  then show ?thesis using l by (simp add: vprintf_step_def bnd_strlen [OF c])
qed

lemma step_char:
  assumes "fmt_ready m fmt cs buf k" and "Suc (length pre) \<le> k" and "kmem s = put_at m buf pre"
    and "j < length cs" and "cs ! j \<noteq> ch CHR ''%''"
  shows "vprintf_step fmt (of_nat j, buf + of_nat (length pre), of_nat (length pre), args) s =
    Ok (Inl (of_nat (Suc j), buf + of_nat (length (pre @ [cs ! j])), of_nat (length (pre @ [cs ! j])), args),
      s\<lparr>kmem := put_at m buf (pre @ [cs ! j])\<rparr>)"
proof -
  have p: "length pre \<le> k" using assms(2) by simp
  note c = fmt_ready_cstr [OF assms(1) p assms(3)]
  have l: "length cs < 2 ^ 31" "Suc j < 2 ^ 31" using assms(1,4) by (simp_all add: fmt_ready_def)
  then have "sint (of_nat j :: u32) < sint (of_nat (length cs) :: u32)"
    using assms(4) by (simp add: sint_of_nat_small)
  then show ?thesis
    using assms(3-5) fmt_ready_buf [OF assms(1) p] l
    by (simp add: vprintf_step_def bnd_strlen [OF c] bnd_char_at [OF c] bnd_inc nth_append put_at_snoc add_ac del: of_char_Char)
qed

lemma step_directive:
  assumes "fmt_ready m fmt cs buf k" and "length pre + length out \<le> k" and "kmem s = put_at m buf pre"
    and "j < length cs" and "cs ! j = ch CHR ''%''"
    and "directive_text str ((cs @ [0]) ! Suc j) args = Some (out, rest)" and "args_in_memory m str buf k args"
  shows "vprintf_step fmt (of_nat j, buf + of_nat (length pre), of_nat (length pre), args) s =
    Ok (Inl (of_nat (Suc (Suc j)), buf + of_nat (length (pre @ out)), of_nat (length (pre @ out)), rest),
      s\<lparr>kmem := put_at m buf (pre @ out)\<rparr>)"
proof -
  have p: "length pre \<le> k" using assms(2) by simp
  note c = fmt_ready_cstr [OF assms(1) p assms(3)]
  have l: "length cs < 2 ^ 31" "Suc (Suc j) < 2 ^ 31" and v: "valid_range buf (Suc k)"
    using assms(1,4) by (simp_all add: fmt_ready_def)
  have "sint (of_nat j :: u32) < sint (of_nat (length cs) :: u32)"
    using assms(4) l by (simp add: sint_of_nat_small)
  moreover have "put_at (kmem s) (buf + of_nat (length pre)) out = put_at m buf (pre @ out)"
    unfolding assms(3) using fmt_ready_buf [OF assms(1), of "pre @ out"] assms(2) by (intro put_at_append) simp
  ultimately show ?thesis
    using directive_run(1) [OF assms(6,7,3,2) v] assms(4,5) l
    by (simp add: vprintf_step_def bnd_strlen [OF c] bnd_char_at [OF c] bnd_inc nth_append bnd_Ok add_ac
        del: of_char_Char of_nat_Suc)
qed

lemma vprintf_from:
  assumes "format_text str (drop j cs) args = Some out" and "fmt_ready m fmt cs buf k" and "args_in_memory m str buf k args"
    and "length pre + length out \<le> k" and "kmem s = put_at m buf pre" and "j \<le> Suc (length cs)"
  shows "loopM (vprintf_step fmt) (of_nat j, buf + of_nat (length pre), of_nat (length pre), args) s =
    Ok ((buf + of_nat (length (pre @ out)), of_nat (length (pre @ out))), s\<lparr>kmem := put_at m buf (pre @ out)\<rparr>)"
  using assms
proof (induction "length cs - j" arbitrary: j args out pre s rule: less_induct)
  case less
  show ?case
  proof (cases "length cs \<le> j")
    case True
    then have out: "out = []" using less.prems(1) by (simp add: format_text.simps)
    have "vprintf_step fmt (of_nat j, buf + of_nat (length pre), of_nat (length pre), args) s =
        Ok (Inr (buf + of_nat (length pre), of_nat (length pre)), s)"
      using less.prems(4) True by (intro step_exit [OF less.prems(2) _ less.prems(5) _ less.prems(6)]) simp_all
    then show ?thesis using less.prems(5) out by (simp add: loopM_exit)
  next
    case False
    then have j: "j < length cs" by simp
    have d: "drop j cs = cs ! j # drop (Suc j) cs" using j by (simp add: Cons_nth_drop_Suc)
    show ?thesis
    proof (cases "cs ! j = ch CHR ''%''")
      case char: False
      then obtain out' where o: "out = cs ! j # out'" "format_text str (drop (Suc j) cs) args = Some out'"
        using less.prems(1) unfolding d by (cases "drop (Suc j) cs") (auto simp: format_text.simps)
      have "vprintf_step fmt (of_nat j, buf + of_nat (length pre), of_nat (length pre), args) s =
          Ok (Inl (of_nat (Suc j), buf + of_nat (length (pre @ [cs ! j])), of_nat (length (pre @ [cs ! j])), args),
            s\<lparr>kmem := put_at m buf (pre @ [cs ! j])\<rparr>)"
        using less.prems(4) unfolding o(1) by (intro step_char [OF less.prems(2) _ less.prems(5) j char]) simp
      then show ?thesis
        using less.hyps [of "Suc j" args out' "pre @ [cs ! j]" "s\<lparr>kmem := put_at m buf (pre @ [cs ! j])\<rparr>"] less.prems o j
        by (simp add: loopM_continue del: of_nat_Suc)
    next
      case dir: True
      obtain o1 rest o2 where o: "out = o1 @ o2" "directive_text str ((cs @ [0]) ! Suc j) args = Some (o1, rest)"
          "format_text str (drop (Suc (Suc j)) cs) rest = Some o2"
      proof (cases "Suc j < length cs")
        case True
        then have "drop (Suc j) cs = cs ! Suc j # drop (Suc (Suc j)) cs" by (simp add: Cons_nth_drop_Suc)
        with less.prems(1) dir True that show ?thesis
          unfolding d by (auto simp: format_text.simps nth_append split: option.splits)
      next
        case False
        with less.prems(1) dir j that [of "[]" "[]" args] show ?thesis
          unfolding d by (simp add: format_text.simps nth_append directive_text_def)
      qed
      have sub: "set rest \<subseteq> set args"
        using o(2) by (auto simp: directive_text_def split: if_splits list.splits arg.splits)
      then have r: "args_in_memory m str buf k rest" using less.prems(3) by (auto simp: args_in_memory_def)
      have "vprintf_step fmt (of_nat j, buf + of_nat (length pre), of_nat (length pre), args) s =
          Ok (Inl (of_nat (Suc (Suc j)), buf + of_nat (length (pre @ o1)), of_nat (length (pre @ o1)), rest),
            s\<lparr>kmem := put_at m buf (pre @ o1)\<rparr>)"
        using less.prems(4) unfolding o(1)
        by (intro step_directive [OF less.prems(2) _ less.prems(5) j dir o(2) less.prems(3)]) simp
      then show ?thesis
        using less.hyps [of "Suc (Suc j)" rest o2 "pre @ o1" "s\<lparr>kmem := put_at m buf (pre @ o1)\<rparr>"] less.prems o j r
        by (simp add: loopM_continue del: of_nat_Suc)
    qed
  qed
qed

lemma vprintf_run:
  assumes "fmt_ready (kmem s) fmt cs buf (Suc (length out))" and "cs \<noteq> []" and "format_text str cs args = Some out"
    and "args_in_memory (kmem s) str buf (Suc (length out)) args"
  shows "vprintf buf sz fmt args s = Ok (of_nat (length out), s\<lparr>kmem := put_at (kmem s) buf (out @ [0])\<rparr>)"
proof -
  have "cstr (kmem s) fmt cs" using assms(1) by (simp only: fmt_ready_def)
  with assms(2) have f: "fmt \<noteq> NULL" "kmem s fmt \<noteq> 0" by (cases cs; simp)+
  have "loopM (vprintf_step fmt) (0, buf, 0, args) s =
      Ok ((buf + of_nat (length out), of_nat (length out)), s\<lparr>kmem := put_at (kmem s) buf out\<rparr>)"
    using vprintf_from [of str 0 cs args out "kmem s" fmt buf "Suc (length out)" "[]" s] assms by simp
  note run = this
  have "length out \<le> Suc (length out)" by simp
  note b = fmt_ready_buf [OF assms(1) this]
  have "(put_at (kmem s) buf out)(buf + of_nat (length out) := 0) = put_at (kmem s) buf (out @ [0])"
    using b(1) by (rule put_at_snoc)
  then show ?thesis using f b(2) run by (simp add: vprintf_def bnd_Ok)
qed

text \<open>
  C14: \<^verbatim>\<open>vprintf\<close> leaves exactly the text of the format in the buffer, followed by a NUL, and returns its length;
  every other byte keeps its value. The text of a directive is the string, the character or the numeral
  of its argument; a negative number is printed without its sign. The size given for the buffer has no
  influence.
\<close>

theorem vprintf_refines_format:
  assumes "cstr (kmem s) fmt cs" and "cs \<noteq> []" and "Suc (length cs) < 2 ^ 31"
    and "format_text str cs args = Some out"
    and "\<forall>p. PtrArg p \<in> set args \<longrightarrow>
      cstr (kmem s) p (str p) \<and> length (str p) < 2 ^ 31 \<and> clear_of buf (Suc (length out)) p (length (str p))"
    and "clear_of buf (Suc (length out)) fmt (length cs)" and "valid_range buf (Suc (Suc (length out)))"
  shows "\<exists>t. vprintf buf sz fmt args s = Ok (of_nat (length out), t) \<and>
    bytes_at (kmem t) buf (length out) = out \<and> kmem t (buf + of_nat (length out)) = 0 \<and>
    (\<forall>a. length out < unat (a - buf) \<longrightarrow> kmem t a = kmem s a)"
proof -
  have r: "fmt_ready (kmem s) fmt cs buf (Suc (length out))" using assms by (simp add: fmt_ready_def)
  have "args_in_memory (kmem s) str buf (Suc (length out)) args" using assms(5) by (simp add: args_in_memory_def)
  note run = vprintf_run [OF r assms(2,4) this, of sz]
  have l: "Suc (length out) \<le> 2 ^ 64" using assms(7) by (simp add: valid_range_def)
  have "bytes_at (put_at (kmem s) buf (out @ [0])) buf (Suc (length out)) = out @ [0]"
    using bytes_at_put_at [of "out @ [0]" "kmem s" buf] l by simp
  then have "bytes_at (put_at (kmem s) buf (out @ [0])) buf (length out) = out"
    "put_at (kmem s) buf (out @ [0]) (buf + of_nat (length out)) = 0" by (simp_all add: bytes_at_snoc)
  then show ?thesis using run by (auto simp: put_at_outside)
qed

theorem vprintf_refines_format_witness:
  "\<exists>t. vprintf 0x1000 128 0x100 [IntArg (- 7), PtrArg 0x200] (memory_state (two_strings ''n=%d %s'' ''ab'')) = Ok (6, t) \<and>
     bytes_at (kmem t) 0x1000 6 = bytes_of ''n=7 ab''"
proof -
  let ?s = "memory_state (two_strings ''n=%d %s'' ''ab'')" and ?out = "bytes_of ''n=7 ab''"
  have c: "cstr (kmem ?s) 0x100 (bytes_of ''n=%d %s'')" "cstr (kmem ?s) 0x200 (bytes_of ''ab'')"
    by (simp_all add: bytes_of_def two_strings_def text_at_def)
  have t: "format_text (\<lambda>_. bytes_of ''ab'') (bytes_of ''n=%d %s'') [IntArg (- 7), PtrArg 0x200] = Some ?out"
    by (simp add: bytes_of_def format_text.simps directive_text_def numeral_of.simps digit_def)
  have p: "\<forall>p. PtrArg p \<in> set [IntArg (- 7), PtrArg 0x200] \<longrightarrow>
      cstr (kmem ?s) p (bytes_of ''ab'') \<and> length (bytes_of ''ab'') < 2 ^ 31 \<and> clear_of 0x1000 (Suc (length ?out)) p (length (bytes_of ''ab''))"
    using c(2) by (auto simp: bytes_of_def intro!: clear_of_below)
  have "clear_of 0x1000 (Suc (length ?out)) 0x100 (length (bytes_of ''n=%d %s''))"
    by (rule clear_of_below) (simp_all add: bytes_of_def)
  moreover have "valid_range 0x1000 (Suc (Suc (length ?out)))" "bytes_of ''n=%d %s'' \<noteq> []"
    "Suc (length (bytes_of ''n=%d %s'')) < 2 ^ 31" "length ?out = 6" by (simp_all add: valid_range_def bytes_of_def)
  ultimately show ?thesis
    using vprintf_refines_format [OF c(1) _ _ t p, of 128] by auto
qed

section \<open>Output to the screen\<close>

text \<open>\<open>shown cs s t\<close>: between the two states the bytes \<open>cs\<close> went to the console, and nothing of the program's own changed.\<close>

definition shown :: "bytes \<Rightarrow> 'z user_state_scheme \<Rightarrow> 'z user_state_scheme \<Rightarrow> bool" where
  "shown cs s t \<longleftrightarrow> console.truncate t = kputs cs (console.truncate s) \<and> desc_state.more t = desc_state.more s"

lemma ucast_scast_u8 [simp]: "ucast (scast (c :: u8) :: u32) = c"
  by (rule bit_word_eqI) (simp add: bit_unsigned_iff bit_signed_iff min_absorb2)

lemma kputs_append: "kputs (xs @ ys) s = kputs ys (kputs xs s)"
  by (induction xs arbitrary: s) simp_all

lemma shown_Nil [simp]: "shown [] s s"
  by (simp add: shown_def)

lemma shown_kmem [simp]: "shown cs (s\<lparr>kmem := m\<rparr>) t = shown cs s t" "shown cs s (t\<lparr>kmem := m\<rparr>) = shown cs s t"
  by (simp_all add: shown_def console.defs)

lemma shown_trans: "shown xs s t \<Longrightarrow> shown ys t u \<Longrightarrow> shown (xs @ ys) s u"
  by (simp add: shown_def kputs_append)

text \<open>
  What the library needs of the kernel: while the process is \<open>ready\<close>, writing to descriptor 1 puts the bytes on
  the console, returns their number, and leaves the memory and the variables of the process alone.
\<close>

locale user_output =
  fixes E :: "'z user_state_scheme program"
    and ready :: "'z user_state_scheme \<Rightarrow> bool"
  assumes write_shows: "ready s \<Longrightarrow> valid_range p n \<Longrightarrow> n < 2 ^ 31 \<Longrightarrow>
      \<exists>t. invoke E 1 [1, p, of_nat n] s = Ok (of_nat n, t) \<and> kmem t = kmem s \<and> shown (bytes_at (kmem s) p n) s t \<and> ready t"
    and ready_kmem: "ready s \<Longrightarrow> ready (s\<lparr>kmem := m\<rparr>)"
begin

lemma putchar_shows:
  assumes "ready s" and "local_at E ''putchar.x'' \<noteq> NULL"
  shows "\<exists>t. putchar E c s = Ok (c, t) \<and> kmem t = (kmem s)(local_at E ''putchar.x'' := ucast c) \<and> shown [ucast c] s t \<and> ready t"
proof -
  let ?x = "local_at E ''putchar.x''" and ?s = "s\<lparr>kmem := (kmem s)(local_at E ''putchar.x'' := ucast c)\<rparr>"
  have "valid_range ?x 1" using assms(2) unsigned_less [of ?x] by (simp add: valid_range_def Suc_le_eq)
  from write_shows [OF ready_kmem [OF assms(1)] this, of "(kmem s)(?x := ucast c)"] obtain t where
    "invoke E 1 [1, ?x, 1] ?s = Ok (1, t)" "kmem t = kmem ?s" "shown [ucast c] s t" "ready t"
    by (auto simp: bytes_at_def)
  then show ?thesis using assms(2) by (simp add: putchar_def Let_def write_fd_def bnd_Ok)
qed

lemma puts_loop:
  assumes "local_at E ''putchar.x'' = x" and "x \<noteq> NULL"
  shows "ready s \<Longrightarrow> cstr (kmem s) p cs \<Longrightarrow> \<forall>i \<le> length cs. p + of_nat i \<noteq> x \<Longrightarrow>
    \<exists>t v. loopM (puts_step E) p s = Ok (True, t) \<and> kmem t = (if cs = [] then kmem s else (kmem s)(x := v)) \<and> shown cs s t \<and> ready t"
proof (induction cs arbitrary: p s)
  case Nil
  then have "puts_step E p s = Ok (Inr True, s)" by (simp add: puts_step_def)
  with Nil show ?case by (auto simp: loopM_exit)
next
  case (Cons c cs)
  obtain u where u: "putchar E (scast c) s = Ok (scast c, u)" "kmem u = (kmem s)(x := c)" "shown [c] s u" "ready u"
    using putchar_shows [OF Cons.prems(1), of "scast c"] assms by auto
  have "puts_step E p s = Ok (Inl (p + 1), u)" using Cons.prems(2) u(1) by (simp add: puts_step_def bnd_Ok)
  note step = loopM_continue [of "puts_step E", OF this]
  have x: "\<forall>i \<le> length cs. p + 1 + of_nat i \<noteq> x"
  proof (intro allI impI)
    fix i assume "i \<le> length cs"
    then show "p + 1 + of_nat i \<noteq> x" using Cons.prems(3) [rule_format, of "Suc i"] by (simp add: add_ac)
  qed
  have "cstr (kmem u) (p + 1) cs = cstr (kmem s) (p + 1) cs"
    unfolding u(2) using x by (intro cstr_cong) simp
  with Cons.prems(2) have "cstr (kmem u) (p + 1) cs" by simp
  from Cons.IH [OF u(4) this x] obtain t v where t: "loopM (puts_step E) (p + 1) u = Ok (True, t)"
    "kmem t = (if cs = [] then kmem u else (kmem u)(x := v))" "shown cs u t" "ready t" by blast
  then have "kmem t = (kmem s)(x := if cs = [] then c else v)" using u(2) by simp
  moreover have "shown (c # cs) s t" using shown_trans [OF u(3) t(3)] by simp
  ultimately show ?case
    unfolding step using t(1,4) by (intro exI [of _ t] exI [of _ "if cs = [] then c else v"]) simp
qed

lemma puts_shows:
  assumes "ready s" and "local_at E ''putchar.x'' \<noteq> NULL" and "cstr (kmem s) p cs"
    and "\<forall>i \<le> length cs. p + of_nat i \<noteq> local_at E ''putchar.x''"
  shows "\<exists>t v. puts E p s = Ok (0, t) \<and> kmem t = (kmem s)(local_at E ''putchar.x'' := v) \<and> shown (cs @ [10]) s t \<and> ready t"
proof -
  let ?x = "local_at E ''putchar.x''"
  obtain u v where u: "loopM (puts_step E) p s = Ok (True, u)" "kmem u = (if cs = [] then kmem s else (kmem s)(?x := v))"
      "shown cs s u" "ready u"
    using puts_loop [OF refl assms(2,1,3,4)] by blast
  obtain t where t: "putchar E 10 u = Ok (10, t)" "kmem t = (kmem u)(?x := 10)" "shown [10] u t" "ready t"
    using putchar_shows [OF u(4) assms(2), of 10] by auto
  have "kmem t = (kmem s)(?x := 10)" using t(2) u(2) by simp
  moreover have "puts E p s = Ok (0, t)" using u(1) t(1) by (simp add: puts_def bnd_Ok)
  ultimately show ?thesis using t(4) shown_trans [OF u(3) t(3)] by blast
qed

lemma printf_shows:
  assumes "ready s" and "fmt_ready (kmem s) fmt cs buf (Suc (length out))" and "local_at E ''printf.buf'' = buf" and "cs \<noteq> []"
    and "format_text str cs args = Some out" and "args_in_memory (kmem s) str buf (Suc (length out)) args" and "length out < 2 ^ 31"
  shows "\<exists>t. printf E fmt args s = Ok (of_nat (length out), t) \<and> kmem t = put_at (kmem s) buf (out @ [0]) \<and> shown out s t \<and> ready t"
proof -
  let ?m = "put_at (kmem s) buf (out @ [0])"
  have f: "cstr (kmem s) fmt cs" and v: "valid_range buf (Suc (Suc (length out)))"
    using assms(2) by (simp_all only: fmt_ready_def)
  have nn: "fmt \<noteq> NULL" using f assms(4) by (cases cs) simp_all
  have b: "bytes_at ?m buf (length out) = out"
  proof -
    have "length (out @ [0]) \<le> 2 ^ 64" using assms(7) by simp
    from bytes_at_put_at [OF this, of "kmem s" buf] show ?thesis by (simp add: bytes_at_snoc)
  qed
  obtain t where t: "invoke E 1 [1, buf, of_nat (length out)] (s\<lparr>kmem := ?m\<rparr>) = Ok (of_nat (length out), t)"
      "kmem t = ?m" "shown out s t" "ready t"
    using write_shows [OF ready_kmem [OF assms(1), of ?m] valid_range_mono [OF v, of "length out"] assms(7)] b by auto
  have "ucast (of_nat (length out) :: u64) = (of_nat (length out) :: u32)"
    using assms(7) by (simp add: unsigned_of_nat take_bit_nat_eq_self)
  then show ?thesis
    using t nn assms(3,7) vprintf_run [OF assms(2,4,5,6), of 128]
    by (simp add: printf_def Let_def bnd_Ok write_fd_def scast_of_nat_small)
qed

end

end
