(* ===== verification/User_Kernel.thy ===== *)
theory User_Kernel
  imports Libc_Stdio
begin

text \<open>
  A user program on this kernel: a system call of the C library enters the kernel through the
  model of its entry code, and the value it returns is what the entry code leaves in \<^verbatim>\<open>rax\<close>. The theory
  shows that the kernel keeps the contract the output functions of the library rely on.
\<close>

section \<open>System calls from user mode\<close>

text \<open>
  The registers with which a stub executes the \<^verbatim>\<open>syscall\<close> instruction; \<open>c\<close> gives the registers the stub does
  not set.
\<close>

definition syscall_regs :: "regfile \<Rightarrow> u64 \<Rightarrow> u64 list \<Rightarrow> regfile" where
  "syscall_regs c n args =
     fold (\<lambda>(r, v) c. c(r := v)) (zip [reg_rdi, reg_rsi, reg_rdx, reg_r10, reg_r8, reg_r9] args) (c(reg_rax := n))"

text \<open>A call that suspends the process returns when it runs again; \<open>resume\<close> is what has happened by then.\<close>

definition kernel_call :: "u64 \<Rightarrow> u64 \<Rightarrow> (regfile \<Rightarrow> regfile) \<Rightarrow> regfile \<Rightarrow> ('z file_state_scheme, u64) kop \<Rightarrow>
    u64 \<Rightarrow> u64 list \<Rightarrow> ('z file_state_scheme, u64) kop" where
  "kernel_call syscall_max_addr ret_from_fork clobber c resume n args =
     bnd (do_syscalls syscall_max_addr ret_from_fork clobber (syscall_regs c n args)) (\<lambda>r.
     case r of
       Some c' \<Rightarrow> ret (c' reg_rax)
     | None \<Rightarrow> resume)"

definition kernel_program :: "u64 \<Rightarrow> u64 \<Rightarrow> (regfile \<Rightarrow> regfile) \<Rightarrow> regfile \<Rightarrow> ('z user_state_scheme, u64) kop \<Rightarrow>
    (string \<Rightarrow> ptr) \<Rightarrow> (string \<Rightarrow> ptr) \<Rightarrow> 'z user_state_scheme program" where
  "kernel_program syscall_max_addr ret_from_fork clobber c resume lit loc =
     \<lparr>invoke = kernel_call syscall_max_addr ret_from_fork clobber c resume, lit_at = lit, local_at = loc\<rparr>"

lemma kernel_program_simps [simp]:
  "invoke (kernel_program sma rff clobber c resume lit loc) = kernel_call sma rff clobber c resume"
  "lit_at (kernel_program sma rff clobber c resume lit loc) = lit"
  "local_at (kernel_program sma rff clobber c resume lit loc) = loc"
  by (simp_all add: kernel_program_def)

section \<open>The way through the kernel\<close>

lemma set_reg_shape: "\<exists>p. set_reg regs f v s = s\<lparr>pmem := p\<rparr>"
  by (auto simp: set_reg_def set_kword_def)

lemma saved_shape: "\<exists>p. fold (\<lambda>(f, v). set_reg regs f v) xs s = s\<lparr>pmem := p\<rparr>"
proof (induction xs arbitrary: s)
  case Nil
  have "fold (\<lambda>(f, v). set_reg regs f v) [] s = s\<lparr>pmem := pmem s\<rparr>" by simp
  then show ?case by blast
next
  case (Cons x xs)
  obtain f v where x: "x = (f, v)" by (cases x)
  obtain p where "set_reg regs f v s = s\<lparr>pmem := p\<rparr>" using set_reg_shape by blast
  with Cons [of "s\<lparr>pmem := p\<rparr>"] show ?case by (auto simp: x)
qed

lemma syscall_entry_shape:
  assumes "global_ds s \<noteq> NULL"
  shows "\<exists>p. syscall_entry c s = Ok (k_rsp s - sizeof_reg_list, s\<lparr>u_rsp := c reg_sp, pmem := p\<rparr>)"
proof -
  obtain p where "fold (\<lambda>(f, v). set_reg (k_rsp s - sizeof_reg_list) f v) (saved_on_entry c) (s\<lparr>u_rsp := c reg_sp\<rparr>) =
      s\<lparr>u_rsp := c reg_sp, pmem := p\<rparr>"
    using saved_shape [of "k_rsp s - sizeof_reg_list" "saved_on_entry c" "s\<lparr>u_rsp := c reg_sp\<rparr>"] by auto
  then show ?thesis using assms by (auto simp: syscall_entry_def)
qed

lemma syscall_exit_rax: "\<exists>p c'. syscall_exit regs x c s = Ok (c', s\<lparr>pmem := p\<rparr>) \<and> c' reg_rax = x"
  by (auto simp: syscall_exit_def set_reg_def set_kword_def kword_def Let_def)

lemma fold_upd_other: "r \<notin> set rs \<Longrightarrow> fold (\<lambda>(r, v) c. c(r := v)) (zip rs as) c r = c r"
proof (induction rs arbitrary: as c)
  case (Cons q rs)
  then show ?case by (cases as) auto
qed simp

lemma syscall_regs_simps [simp]:
  "syscall_regs c n args reg_sp = c reg_sp" "syscall_regs c n args reg_rax = n"
  "syscall_regs c n [a0, a1, a2] reg_rdi = a0" "syscall_regs c n [a0, a1, a2] reg_rsi = a1"
  "syscall_regs c n [a0, a1, a2] reg_rdx = a2"
  by (simp_all add: syscall_regs_def fold_upd_other)

text \<open>A call that returns a value: only the function that is called and the kernel stack matter.\<close>

lemma kernel_call_run:
  assumes "global_ds s \<noteq> NULL"
    and "\<And>p. \<exists>u. dispatch sma rff (syscall_regs c n args) (s\<lparr>u_rsp := c reg_sp, pmem := p\<rparr>) = Ok (Returned x, u) \<and> Q u"
    and "\<And>u p. Q u \<Longrightarrow> Q (u\<lparr>pmem := p\<rparr>)"
  shows "\<exists>t. kernel_call sma rff clobber c resume n args s = Ok (x, t) \<and> Q t"
proof -
  let ?c = "syscall_regs c n args" and ?r = "k_rsp s - sizeof_reg_list"
  obtain p where p: "syscall_entry ?c s = Ok (?r, s\<lparr>u_rsp := c reg_sp, pmem := p\<rparr>)"
    using syscall_entry_shape [OF assms(1), of ?c] by auto
  obtain u where u: "dispatch sma rff ?c (s\<lparr>u_rsp := c reg_sp, pmem := p\<rparr>) = Ok (Returned x, u)" "Q u"
    using assms(2) by blast
  obtain p' c' where "syscall_exit ?r x (clobber ?c) u = Ok (c', u\<lparr>pmem := p'\<rparr>)" "c' reg_rax = x"
    using syscall_exit_rax by blast
  then have "kernel_call sma rff clobber c resume n args s = Ok (x, u\<lparr>pmem := p'\<rparr>)"
    using p u(1) by (simp add: kernel_call_def do_syscalls_def bnd_Ok)
  with assms(3) u(2) show ?thesis by blast
qed

section \<open>Writing to the terminal\<close>

lemma kputchar_shape: "\<exists>x y v g. kputchar c s = s\<lparr>x_pos := x, y_pos := y, vgamemory := v, vga := g\<rparr>"
proof -
  have "kputchar c s = s\<lparr>x_pos := x_pos (kputchar c s), y_pos := y_pos (kputchar c s), vgamemory := vgamemory (kputchar c s), vga := vga (kputchar c s)\<rparr>"
    by (simp add: kputchar_def put_cell_def wrap_line_def Let_def)
  then show ?thesis by blast
qed

lemma kputs_shape: "\<exists>x y v g. kputs cs s = s\<lparr>x_pos := x, y_pos := y, vgamemory := v, vga := g\<rparr>"
proof (induction cs arbitrary: s)
  case Nil
  have "s = s\<lparr>x_pos := x_pos s, y_pos := y_pos s, vgamemory := vgamemory s, vga := vga s\<rparr>" by simp
  then show ?case unfolding kputs.simps by blast
next
  case (Cons c cs)
  obtain x y v g where "kputchar c s = s\<lparr>x_pos := x, y_pos := y, vgamemory := v, vga := g\<rparr>"
    using kputchar_shape by blast
  with Cons [of "kputchar c s"] show ?case by auto
qed

lemma kputs_truncate: "console.truncate (kputs cs s) = kputs cs (console.truncate s)"
proof (induction cs arbitrary: s)
  case (Cons c cs)
  have "console.truncate (kputchar c s) = kputchar c (console.truncate s)"
    by (simp add: kputchar_def put_cell_def wrap_line_def Let_def console.defs)
  with Cons show ?case by simp
qed simp

lemma terminal_write_run:
  assumes "fp \<noteq> NULL" and "n < 2 ^ 31" and "valid_range p n"
  shows "terminal_write fp p (of_nat n) off s = Ok (of_nat n, kputs (bytes_at (kmem s) p n) s)"
proof -
  have m: "kmem (kputs cs s) = kmem s" for cs and s :: "'a file_state_scheme"
    using kputs_shape [of cs s] by auto
  have "k \<le> n \<Longrightarrow> for_each [0..<k] (\<lambda>i. bnd (load (p + of_nat i)) (\<lambda>c. modify (kputchar c))) s =
      Ok ((), kputs (bytes_at (kmem s) p k) s)" for k
  proof (induction k)
    case (Suc k)
    then have "p + of_nat k \<noteq> NULL" by (intro valid_range_nonnull [OF assms(3)]) simp
    with Suc show ?case by (simp add: for_each_append bnd_Ok m bytes_at_snoc kputs_append)
  qed (simp add: bytes_at_def)
  moreover have "unat (of_nat n :: u64) = n" "\<not> 2 ^ 31 \<le> n" using assms(2) by (auto intro: unat_of_nat_u64)
  ultimately show ?thesis using assms(1) by (simp add: terminal_write_def bnd_Ok)
qed

definition terminal_ready :: "u64 \<Rightarrow> 'z user_state_scheme \<Rightarrow> bool" where
  "terminal_ready syscall_max_addr s \<longleftrightarrow> 1 \<le> syscall_max_addr \<and> global_ds s \<noteq> NULL \<and>
     (\<exists>fp. opened s 1 fp \<and> op_write (fop_at s (f_op (file_at s fp))) = terminal_write_fn)"

lemma sys_write_terminal:
  assumes "opened s 1 fp" and "op_write (fop_at s (f_op (file_at s fp))) = terminal_write_fn"
    and "n < 2 ^ 31" and "valid_range p n"
  shows "sys_write 1 p (of_nat n) s = Ok (of_nat n, kputs (bytes_at (kmem s) p n) s)"
proof -
  have fp: "fp \<noteq> NULL" "f_op (file_at s fp) \<noteq> NULL" "current s \<noteq> NULL" using assms(1) by (simp_all add: opened_def)
  have "sys_write 1 p (of_nat n) s = terminal_write fp p (of_nat n) (f_offset (file_at s fp)) s"
    using get_fd_opened [OF assms(1)] fp assms(2) by (simp add: sys_write_def bnd_Ok vfs_write_def)
  with terminal_write_run [OF fp(1) assms(3,4)] show ?thesis by simp
qed

text \<open>What a write may change: the screen, and the words the entry code saves.\<close>

definition screen_only :: "'z user_state_scheme \<Rightarrow> 'z user_state_scheme \<Rightarrow> bool" where
  "screen_only s t \<longleftrightarrow>
     (\<exists>x y v g w q. t = s\<lparr>x_pos := x, y_pos := y, vgamemory := v, vga := g, u_rsp := w, pmem := q\<rparr>)"

lemma screen_only_pmem: "screen_only s t \<Longrightarrow> screen_only s (t\<lparr>pmem := q\<rparr>)"
  unfolding screen_only_def by force

lemma screen_only_ready: "screen_only s t \<Longrightarrow> terminal_ready sma t = terminal_ready sma s"
  by (auto simp: screen_only_def terminal_ready_def opened_def)

lemma kernel_write_run:
  assumes "terminal_ready sma s" and "valid_range p n" and "n < 2 ^ 31"
  shows "\<exists>t. kernel_call sma rff clobber c resume 1 [1, p, of_nat n] s = Ok (of_nat n, t) \<and>
    shown (bytes_at (kmem s) p n) s t \<and> screen_only s t"
proof -
  obtain fp where fp: "opened s 1 fp" "op_write (fop_at s (f_op (file_at s fp))) = terminal_write_fn"
    and s: "1 \<le> sma" "global_ds s \<noteq> NULL" using assms(1) by (auto simp: terminal_ready_def)
  let ?Q = "\<lambda>t. shown (bytes_at (kmem s) p n) s t \<and> screen_only s t"
  show ?thesis
  proof (rule kernel_call_run [OF s(2)])
    fix q
    let ?s = "s\<lparr>u_rsp := c reg_sp, pmem := q\<rparr>" and ?u = "kputs (bytes_at (kmem s) p n) (s\<lparr>u_rsp := c reg_sp, pmem := q\<rparr>)"
    have "sys_write 1 p (of_nat n) ?s = Ok (of_nat n, ?u)"
      using sys_write_terminal [of ?s fp n p] fp assms(2,3) by (simp add: opened_def)
    moreover have "\<not> sma < 1" using s(1) by (rule leD)
    ultimately have "dispatch sma rff (syscall_regs c 1 [1, p, of_nat n]) ?s = Ok (Returned (of_nat n), ?u)"
      by (simp add: dispatch_def sys_call_table_def call_syscall_def Let_def bnd_Ok)
    moreover have "console.truncate ?s = console.truncate s" by (simp add: console.defs)
    then have "console.truncate ?u = kputs (bytes_at (kmem s) p n) (console.truncate s)" by (simp add: kputs_truncate)
    moreover obtain x y v g where u: "?u = ?s\<lparr>x_pos := x, y_pos := y, vgamemory := v, vga := g\<rparr>"
      using kputs_shape [of "bytes_at (kmem s) p n" ?s] by blast
    moreover have "screen_only s ?u" unfolding u screen_only_def
      by (rule exI [of _ x], rule exI [of _ y], rule exI [of _ v], rule exI [of _ g], rule exI [of _ "c reg_sp"], rule exI [of _ q]) simp
    ultimately show "\<exists>u. dispatch sma rff (syscall_regs c 1 [1, p, of_nat n]) ?s = Ok (Returned (of_nat n), u) \<and> ?Q u"
      by (auto simp: shown_def)
  next
    fix u q assume "?Q u"
    then show "?Q (u\<lparr>pmem := q\<rparr>)" by (simp add: shown_def console.defs screen_only_pmem)
  qed
qed

interpretation kio: user_output "kernel_program sma rff clobber c resume lit loc" "terminal_ready sma"
  for sma rff clobber c resume lit loc
proof unfold_locales
  fix s :: "'a user_state_scheme" and p :: ptr and n :: nat
  assume r: "terminal_ready sma s" and "valid_range p n" "n < 2 ^ 31"
  from kernel_write_run [OF this] obtain t where t: "kernel_call sma rff clobber c resume 1 [1, p, of_nat n] s = Ok (of_nat n, t)"
    "shown (bytes_at (kmem s) p n) s t" "screen_only s t" by blast
  moreover have "kmem t = kmem s" using t(3) by (auto simp: screen_only_def)
  ultimately show "\<exists>t. invoke (kernel_program sma rff clobber c resume lit loc) 1 [1, p, of_nat n] s = Ok (of_nat n, t) \<and>
      kmem t = kmem s \<and> shown (bytes_at (kmem s) p n) s t \<and> terminal_ready sma t"
    using r screen_only_ready by auto
next
  fix s :: "'a user_state_scheme" and m assume "terminal_ready sma s"
  then show "terminal_ready sma (s\<lparr>kmem := m\<rparr>)" by (simp add: terminal_ready_def opened_def)
qed

section \<open>Reading a file of the archive\<close>

text \<open>
  Descriptor \<open>fd\<close> is open on a file of the archive: its name resolves to the inode \<open>ino\<close> of \<open>n\<close> bytes, and neither the
  bytes nor the names that are compared lie within the 4096 bytes at \<open>buf\<close>.
\<close>

definition archive_file :: "ptr \<Rightarrow> u32 \<Rightarrow> ptr \<Rightarrow> inode \<Rightarrow> nat \<Rightarrow> 'z file_state_scheme \<Rightarrow> bool" where
  "archive_file buf fd fp ino n s \<longleftrightarrow>
     opened s fd fp \<and> op_read (fop_at s (f_op (file_at s fp))) = tarfs_read_fn \<and>
     (\<exists>ns cs. inodes s ns \<and> cstr (kmem s) (f_dentry (file_at s fp)) cs \<and> length cs < 2 ^ 31 \<and>
        valid_range (f_dentry (file_at s fp)) (Suc (length cs)) \<and> clear_of buf 4096 (f_dentry (file_at s fp)) (length cs) \<and>
        (\<forall>m\<in>set ns. valid_range (i_dentry m) (Suc (length cs)) \<and> clear_of buf 4096 (i_dentry m) (length cs)) \<and>
        find (\<lambda>m. name_sum s (i_dentry m) (length cs) = sum_list (map uint cs)) ns = Some ino) \<and>
     i_size ino = of_nat n \<and> n < 2 ^ 31 \<and> valid_range (i_data ino) (Suc n) \<and> clear_of buf 4096 (i_data ino) n"

lemma archive_file_inode:
  assumes "archive_file buf fd fp ino n s"
  shows "get_inode_from_dentry (f_dentry (file_at s fp)) s = Ok (ino, s)"
proof -
  obtain ns cs where a: "inodes s ns" "cstr (kmem s) (f_dentry (file_at s fp)) cs" "length cs < 2 ^ 31"
      "valid_range (f_dentry (file_at s fp)) (Suc (length cs))" "\<forall>m\<in>set ns. valid_range (i_dentry m) (Suc (length cs))"
    and f: "find (\<lambda>m. name_sum s (i_dentry m) (length cs) = sum_list (map uint cs)) ns = Some ino"
    using assms unfolding archive_file_def by blast
  from get_inode_from_dentry_first_sum [OF a] f show ?thesis by simp
qed

text \<open>The file stays what it is while the tables of the kernel do and memory changes within the buffer only.\<close>

lemma archive_file_keeps:
  assumes "archive_file buf fd fp ino n s"
    and "current t = current s" "pcb_at t = pcb_at s" "fop_at t = fop_at s" "f_op (file_at t fp) = f_op (file_at s fp)"
      "f_dentry (file_at t fp) = f_dentry (file_at s fp)" "tarfs_sb t = tarfs_sb s" "sb_at t = sb_at s" "inode_at t = inode_at s"
    and m: "\<forall>a. 4096 \<le> unat (a - buf) \<longrightarrow> kmem t a = kmem s a"
  shows "archive_file buf fd fp ino n t"
proof -
  obtain ns cs where a: "inodes s ns" "cstr (kmem s) (f_dentry (file_at s fp)) cs" "length cs < 2 ^ 31"
      "valid_range (f_dentry (file_at s fp)) (Suc (length cs))" "clear_of buf 4096 (f_dentry (file_at s fp)) (length cs)"
      "\<forall>m\<in>set ns. valid_range (i_dentry m) (Suc (length cs)) \<and> clear_of buf 4096 (i_dentry m) (length cs)"
      "find (\<lambda>m. name_sum s (i_dentry m) (length cs) = sum_list (map uint cs)) ns = Some ino"
    using assms(1) unfolding archive_file_def by blast
  have "inodes t ns" using a(1) assms(7-9) by (simp add: inodes_def)
  moreover have "cstr (kmem t) (f_dentry (file_at t fp)) cs"
    using a(2) cstr_cong [of cs "kmem t" _ "kmem s"] clear_of_same [OF a(5) m] by (simp add: assms(6))
  moreover have "name_sum t (i_dentry m) (length cs) = name_sum s (i_dentry m) (length cs)" if "m \<in> set ns" for m
    using a(6) that clear_of_bytes_same [OF _ assms(10), of "i_dentry m" "length cs"] by (simp add: name_sum_def)
  then have "find (\<lambda>m. name_sum t (i_dentry m) (length cs) = sum_list (map uint cs)) ns = Some ino"
    using a(7) find_cong [of ns ns "\<lambda>m. name_sum t (i_dentry m) (length cs) = sum_list (map uint cs)"
        "\<lambda>m. name_sum s (i_dentry m) (length cs) = sum_list (map uint cs)"] by simp
  moreover have "opened t fd fp" using assms(1-3,5) by (simp add: archive_file_def opened_def)
  ultimately show ?thesis
    using assms(1,4-6) a(3-6) unfolding archive_file_def by auto
qed

text \<open>The bytes \<open>xs\<close> of the file are still to be read, and output goes to the terminal.\<close>

definition file_ready :: "u64 \<Rightarrow> ptr \<Rightarrow> u32 \<Rightarrow> bytes \<Rightarrow> 'z user_state_scheme \<Rightarrow> bool" where
  "file_ready syscall_max_addr buf fd xs s \<longleftrightarrow>
     terminal_ready syscall_max_addr s \<and> valid_range buf 4096 \<and>
     (\<exists>fp ino n j. archive_file buf fd fp ino n s \<and> j \<le> n \<and> f_offset (file_at s fp) = of_nat j \<and>
        xs = bytes_at (kmem s) (i_data ino + of_nat j) (n - j))"

lemma file_ready_screen:
  assumes "file_ready sma buf fd xs s" and "screen_only s t"
  shows "file_ready sma buf fd xs t"
proof -
  obtain fp ino n j where f: "archive_file buf fd fp ino n s" "j \<le> n" "f_offset (file_at s fp) = of_nat j"
      "xs = bytes_at (kmem s) (i_data ino + of_nat j) (n - j)" and r: "terminal_ready sma s" "valid_range buf 4096"
    using assms(1) unfolding file_ready_def by blast
  have "archive_file buf fd fp ino n t"
    using assms(2) by (intro archive_file_keeps [OF f(1)]) (auto simp: screen_only_def)
  moreover have "f_offset (file_at t fp) = of_nat j" "kmem t = kmem s" using assms(2) f(3) by (auto simp: screen_only_def)
  ultimately show ?thesis unfolding file_ready_def using f(2,4) r screen_only_ready [OF assms(2)] by auto
qed

lemma ucast_scast_u32 [simp]: "ucast (scast (w :: u32) :: u64) = w"
  by (rule bit_word_eqI) (simp add: bit_unsigned_iff bit_signed_iff min_absorb2)

lemma kernel_read_run:
  assumes "file_ready sma buf fd xs s"
  shows "\<exists>t. kernel_call sma rff clobber c resume 0 [scast fd, buf, 4096] s = Ok (of_nat (min 4096 (length xs)), t) \<and>
    bytes_at (kmem t) buf (min 4096 (length xs)) = take 4096 xs \<and> shown [] s t \<and> file_ready sma buf fd (drop 4096 xs) t"
proof -
  obtain fp ino n j where r: "terminal_ready sma s" "valid_range buf 4096" and f: "archive_file buf fd fp ino n s" "j \<le> n"
      "f_offset (file_at s fp) = of_nat j" and xs: "xs = bytes_at (kmem s) (i_data ino + of_nat j) (n - j)"
    using assms unfolding file_ready_def by blast
  define k where "k = min 4096 (n - j)"
  have kx: "min 4096 (length xs) = k" by (simp add: xs k_def bytes_at_def)
  have o: "opened s fd fp" "op_read (fop_at s (f_op (file_at s fp))) = tarfs_read_fn" and i: "i_size ino = of_nat n" "n < 2 ^ 31"
    and d: "valid_range (i_data ino) (Suc n)" "clear_of buf 4096 (i_data ino) n" using f(1) by (auto simp: archive_file_def)
  have fp: "fp \<noteq> NULL" and g: "global_ds s \<noteq> NULL" using o(1) r(1) by (auto simp: opened_def terminal_ready_def)
  have v: "valid_range buf k" "valid_range (i_data ino + of_nat j) k"
    using valid_range_mono [OF r(2), of k] valid_range_mono [OF valid_range_later [OF d(1), of j "Suc (n - j)"], of k] f(2)
    by (simp_all add: k_def)
  have c: "\<forall>l<k. k \<le> unat (i_data ino + of_nat j + of_nat l - buf)"
  proof (intro allI impI)
    fix l assume "l < k"
    then have "j + l \<le> n" by (auto simp: k_def)
    then have "4096 \<le> unat (i_data ino + of_nat (j + l) - buf)" using d(2) unfolding clear_of_def by blast
    then show "k \<le> unat (i_data ino + of_nat j + of_nat l - buf)" by (simp add: k_def add_ac)
  qed
  let ?m = "fill (kmem s) buf k (\<lambda>l. kmem s (i_data ino + of_nat j + of_nat l))"
  let ?f = "(file_at s)(fp := (file_at s fp)\<lparr>f_offset := f_offset (file_at s fp) + of_nat k\<rparr>)"
  let ?Q = "\<lambda>t. \<exists>w q. t = s\<lparr>u_rsp := w, pmem := q, kmem := ?m, file_at := ?f\<rparr>"
  have "\<exists>t. kernel_call sma rff clobber c resume 0 [scast fd, buf, 4096] s = Ok (of_nat k, t) \<and> ?Q t"
  proof (rule kernel_call_run [OF g])
    fix q
    let ?s = "s\<lparr>u_rsp := c reg_sp, pmem := q\<rparr>"
    have a: "archive_file buf fd fp ino n ?s" by (rule archive_file_keeps [OF f(1)]) simp_all
    have "tarfs_read fp buf 4096 (of_nat j) ?s = Ok (of_nat k, ?s\<lparr>kmem := ?m, file_at := ?f\<rparr>)"
      using tarfs_read_run [OF fp archive_file_inode [OF a] i f(2), of 4096 k buf] v c by (simp add: k_def)
    then have "sys_read fd buf 4096 ?s = Ok (of_nat k, ?s\<lparr>kmem := ?m, file_at := ?f\<rparr>)"
      using sys_read_opened [of ?s fd fp buf 4096] o f(3) by (simp add: opened_def)
    then have "dispatch sma rff (syscall_regs c 0 [scast fd, buf, 4096]) ?s = Ok (Returned (of_nat k), ?s\<lparr>kmem := ?m, file_at := ?f\<rparr>)"
      by (simp add: dispatch_def sys_call_table_def call_syscall_def Let_def bnd_Ok)
    then show "\<exists>u. dispatch sma rff (syscall_regs c 0 [scast fd, buf, 4096]) ?s = Ok (Returned (of_nat k), u) \<and> ?Q u" by blast
  next
    fix u q assume "?Q u"
    then obtain w q' where "u = s\<lparr>u_rsp := w, pmem := q', kmem := ?m, file_at := ?f\<rparr>" by blast
    then have "u\<lparr>pmem := q\<rparr> = s\<lparr>u_rsp := w, pmem := q, kmem := ?m, file_at := ?f\<rparr>" by simp
    then show "?Q (u\<lparr>pmem := q\<rparr>)" by blast
  qed
  then obtain t w q where t: "kernel_call sma rff clobber c resume 0 [scast fd, buf, 4096] s = Ok (of_nat k, t)"
    "t = s\<lparr>u_rsp := w, pmem := q, kmem := ?m, file_at := ?f\<rparr>" by blast
  have out: "\<forall>a. 4096 \<le> unat (a - buf) \<longrightarrow> kmem t a = kmem s a" using t(2) by (simp add: fill_outside k_def)
  have f': "archive_file buf fd fp ino n t" using t(2) by (intro archive_file_keeps [OF f(1) _ _ _ _ _ _ _ _ out]) simp_all
  have data: "bytes_at (kmem t) (i_data ino + of_nat j) (n - j) = xs"
    using clear_of_same [OF d(2) out, of "j + _"] f(2) by (auto simp: xs bytes_at_def add_ac)
  have "drop 4096 xs = bytes_at (kmem t) (i_data ino + of_nat (j + k)) (n - (j + k))"
    using bytes_at_drop [of "kmem t" "i_data ino + of_nat j" k "n - j"] unfolding data
    by (simp add: k_def add_ac) (simp add: xs min_def bytes_at_def)
  moreover have "f_offset (file_at t fp) = of_nat (j + k)" "j + k \<le> n" using t(2) f(2,3) by (auto simp: k_def)
  moreover have "terminal_ready sma t" using r(1) t(2) by (auto simp: terminal_ready_def opened_def)
  ultimately have "file_ready sma buf fd (drop 4096 xs) t" unfolding file_ready_def using r(2) f' by blast
  moreover have "bytes_at (kmem t) buf k = take 4096 xs"
    using t(2) by (intro nth_equalityI) (simp_all add: xs bytes_at_def fill_at k_def)
  moreover have "shown [] s t" using t(2) by (simp add: shown_def console.defs)
  ultimately show ?thesis unfolding kx using t(1) by blast
qed

end
