(* ===== verification/Programs.thy ===== *)
theory Programs
  imports User_Kernel
begin

text \<open>
  The small programs under \<^verbatim>\<open>bin/\<close>: \<^verbatim>\<open>cat\<close>, \<^verbatim>\<open>echo\<close>, \<^verbatim>\<open>kill\<close>, \<^verbatim>\<open>ls\<close>, \<^verbatim>\<open>ps\<close>, \<^verbatim>\<open>sleep\<close>, \<^verbatim>\<open>preempt\<close> and \<^verbatim>\<open>init\<close>, each as its main
  function. A call of \<open>exit\<close> is followed by what the source has behind it: whether it returns is up to the
  kernel. A main function that reaches its end without a value returns 0.
\<close>

abbreviation EXIT_SUCCESS :: u32 where
  "EXIT_SUCCESS \<equiv> 0"

abbreviation EXIT_FAILURE :: u32 where
  "EXIT_FAILURE \<equiv> 1"

text \<open>\<open>argv[i]\<close>.\<close>

definition argument :: "ptr \<Rightarrow> u32 \<Rightarrow> ('z util_state_scheme, ptr) kop" where
  "argument argv i = load64 (argv + 8 * scast i)"

section \<open>cat\<close>

text \<open>The inner loop of \<open>cat_fd\<close>; its result is whether everything was written.\<close>

definition cat_write_step :: "'z user_state_scheme program \<Rightarrow> ptr \<Rightarrow> u32 \<Rightarrow> u32 \<Rightarrow> ('z user_state_scheme, u32 + bool) kop" where
  "cat_write_step E buf reads totalwritten =
     (if sint totalwritten < sint reads then
        bnd (as_int (sint reads - sint totalwritten)) (\<lambda>k.
        bnd (write_fd E 1 (buf + scast totalwritten) k) (\<lambda>w.
        let written = ucast w :: u32 in
        if sint written < 1 then ret (Inr False)
        else bnd (as_int (sint totalwritten + sint written)) (\<lambda>n. ret (Inl n))))
      else ret (Inr True))"

definition cat_step :: "'z user_state_scheme program \<Rightarrow> u32 \<Rightarrow> ptr \<Rightarrow> unit \<Rightarrow> ('z user_state_scheme, unit + u32) kop" where
  "cat_step E fd buf = (\<lambda>_.
     bnd (read E fd buf 4096) (\<lambda>r.
     let reads = ucast r :: u32 in
     if 0 < sint reads then
       bnd (loopM (cat_write_step E buf reads) 0) (\<lambda>b. ret (if b then Inl () else Inr (- 1)))
     else ret (Inr (if reads = 0 then 0 else - 1))))"

definition cat_fd :: "'z user_state_scheme program \<Rightarrow> u32 \<Rightarrow> ('z user_state_scheme, u32) kop" where
  "cat_fd E fd = loopM (cat_step E fd (local_at E ''cat_fd.buf'')) ()"

definition cat :: "'z user_state_scheme program \<Rightarrow> ptr \<Rightarrow> ('z user_state_scheme, u32) kop" where
  "cat E fname =
     bnd (open_file E fname 0 0) (\<lambda>fd.
     if fd = - 1 then ret (- 1)
     else
       bnd (cat_fd E fd) (\<lambda>success.
       bnd (close E fd) (\<lambda>r.
       ret (if r \<noteq> 0 then - 1 else success))))"

definition cat_main :: "'z user_state_scheme program \<Rightarrow> u32 \<Rightarrow> ptr \<Rightarrow> ptr \<Rightarrow> ('z user_state_scheme, u32) kop" where
  "cat_main E argc argv envp =
     (let report = (\<lambda>r. if r \<noteq> 0 then bnd (puts E (lit_at E ''Error'')) (\<lambda>_. ret ()) else ret ()) in
      bnd (if argc = 1 then bnd (cat_fd E 0) report
           else for_each [1..<nat (sint argc)] (\<lambda>i.
             bnd (argument argv (of_nat i)) (\<lambda>a. bnd (cat E a) report))) (\<lambda>_.
      ret 0))"

section \<open>echo\<close>

definition echo_word :: "'z user_state_scheme program \<Rightarrow> ptr \<Rightarrow> nat \<Rightarrow> ('z user_state_scheme, unit) kop" where
  "echo_word E argv i =
     bnd (argument argv (of_nat i)) (\<lambda>a.
     bnd (printf E (lit_at E ''%s '') [PtrArg a]) (\<lambda>_. ret ()))"

definition echo_from :: "'z user_state_scheme program \<Rightarrow> u32 \<Rightarrow> ptr \<Rightarrow> nat \<Rightarrow> ('z user_state_scheme, unit) kop" where
  "echo_from E argc argv index =
     bnd (printf E (lit_at E '' '') []) (\<lambda>_.
     for_each [index..<nat (sint argc)] (echo_word E argv))"

definition echo_main :: "'z user_state_scheme program \<Rightarrow> u32 \<Rightarrow> ptr \<Rightarrow> ptr \<Rightarrow> ('z user_state_scheme, u32) kop" where
  "echo_main E argc argv envp =
     (if argc = 1 then bnd (puts E (lit_at E ''\<newline>'')) (\<lambda>_. ret EXIT_SUCCESS)
      else if 1 < sint argc then
        bnd (argument argv 1) (\<lambda>a.
        bnd (strcmp a (lit_at E ''-n'')) (\<lambda>r.
        bnd (if r = 0 then echo_from E argc argv 2
             else
               bnd (echo_from E argc argv 1) (\<lambda>_.
               bnd (printf E (lit_at E ''\<newline>'') []) (\<lambda>_. ret ()))) (\<lambda>_.
        ret EXIT_SUCCESS)))
      else bnd (puts E (lit_at E ''usage : echo string\<newline>'')) (\<lambda>_. ret EXIT_FAILURE))"

section \<open>kill\<close>

text \<open>The variable \<^verbatim>\<open>signal\<close> is set only if the first argument starts with a minus sign.\<close>

definition kill_step :: "'z user_state_scheme program \<Rightarrow> ptr \<Rightarrow> u32 \<Rightarrow> u32 option \<Rightarrow> u32 \<Rightarrow> ('z user_state_scheme, u32 + u32) kop" where
  "kill_step E argv argc signal pids =
     (if sint pids < sint argc then
        bnd (argument argv pids) (\<lambda>a.
        bnd (atoi a) (\<lambda>p.
        case signal of
          None \<Rightarrow> fail Uninitialised
        | Some sig \<Rightarrow>
            bnd (kill E p sig) (\<lambda>err.
            if sint err < 0 then bnd (puts E (lit_at E ''error implementing kill\<newline>'')) (\<lambda>_. ret (Inr EXIT_FAILURE))
            else bnd (inc pids) (\<lambda>j. ret (Inl j)))))
      else ret (Inr EXIT_SUCCESS))"

definition kill_main :: "'z user_state_scheme program \<Rightarrow> u32 \<Rightarrow> ptr \<Rightarrow> ptr \<Rightarrow> ('z user_state_scheme, u32) kop" where
  "kill_main E argc argv envp =
     (let usage = bnd (puts E (lit_at E ''usage : kill -9 <pid>\<newline>'')) (\<lambda>_. ret EXIT_FAILURE) in
      if sint argc \<le> 2 then usage
      else
        bnd (argument argv 1) (\<lambda>a.
        bnd (load a) (\<lambda>b.
        if b = ch CHR ''-'' then
          bnd (load (a + 1)) (\<lambda>d.
          bnd (isdigit (scast d)) (\<lambda>y.
          if y = 0 then usage
          else if sint d - 48 \<noteq> 9 then bnd (puts E (lit_at E ''unknown signal number\<newline>'')) (\<lambda>_. ret EXIT_FAILURE)
          else loopM (kill_step E argv argc (Some 9)) 2))
        else loopM (kill_step E argv argc None) 2)))"

section \<open>ls and ps\<close>

text \<open>
  The number of bytes is an \<^verbatim>\<open>int\<close> that is compared as a \<^verbatim>\<open>size_t\<close>. An entry is 32 bytes.
\<close>

definition ls_step :: "'z user_state_scheme program \<Rightarrow> ptr \<Rightarrow> u32 \<Rightarrow> u64 \<Rightarrow> ('z user_state_scheme, u64 + unit) kop" where
  "ls_step E buf n_written point =
     (if scast n_written \<le> point then ret (Inr ())
      else bnd (printf E (lit_at E ''%s\<newline>'') [PtrArg (buf + point)]) (\<lambda>_. ret (Inl (point + 32))))"

definition ls_main :: "'z user_state_scheme program \<Rightarrow> u32 \<Rightarrow> ptr \<Rightarrow> ptr \<Rightarrow> ('z user_state_scheme, u32) kop" where
  "ls_main E argc argv envp =
     (let buf = local_at E ''ls.buf'' in
      bnd (argument argv 1) (\<lambda>a.
      bnd (opendir E (if a = NULL then lit_at E ''/'' else a)) (\<lambda>dp.
      bnd (if dp = NULL then bnd (exit E EXIT_FAILURE) (\<lambda>_. ret ()) else ret ()) (\<lambda>_.
      bnd (readdir E dp buf 1024) (\<lambda>n.
      bnd (loopM (ls_step E buf (ucast n)) 0) (\<lambda>_.
      bnd (closedir E dp) (\<lambda>r.
      bnd (if r = - 1 then bnd (exit E EXIT_FAILURE) (\<lambda>_. ret ()) else ret ()) (\<lambda>_.
      bnd (exit E EXIT_SUCCESS) (\<lambda>_. ret 0)))))))))"

definition ps_step :: "'z user_state_scheme program \<Rightarrow> ptr \<Rightarrow> u64 \<Rightarrow> u64 \<Rightarrow> ('z user_state_scheme, u64 + unit) kop" where
  "ps_step E buf n_written point =
     (if n_written \<le> point then ret (Inr ())
      else
        (let procfs = buf + point in
         bnd (printf E (lit_at E '' Process PID : %s Parent PID : %s Cmd: %s\<newline>'')
                [PtrArg procfs, PtrArg (procfs + 6), PtrArg (procfs + 12)]) (\<lambda>_.
         ret (Inl (point + 32)))))"

definition ps_main :: "'z user_state_scheme program \<Rightarrow> u32 \<Rightarrow> ptr \<Rightarrow> ptr \<Rightarrow> ('z user_state_scheme, u32) kop" where
  "ps_main E argc argv envp =
     (let buf = local_at E ''ps.buf'' in
      bnd (getprocs64 E buf 1024) (\<lambda>n_written.
      bnd (loopM (ps_step E buf n_written) 0) (\<lambda>_.
      bnd (exit E EXIT_SUCCESS) (\<lambda>_. ret 0))))"

section \<open>sleep, preempt and init\<close>

definition sleep_main :: "'z user_state_scheme program \<Rightarrow> u32 \<Rightarrow> ptr \<Rightarrow> ptr \<Rightarrow> ('z user_state_scheme, u32) kop" where
  "sleep_main E argc argv envp =
     bnd (if sint argc \<le> 1 then bnd (exit E 1) (\<lambda>_. ret ()) else ret ()) (\<lambda>_.
     bnd (argument argv 1) (\<lambda>a.
     bnd (atoi a) (\<lambda>seconds.
     bnd (sleep E (ucast seconds)) (\<lambda>_.
     ret EXIT_SUCCESS))))"

definition preempt_main :: "'z user_state_scheme program \<Rightarrow> u32 \<Rightarrow> ptr \<Rightarrow> ptr \<Rightarrow> ('z user_state_scheme, u32) kop" where
  "preempt_main E argc argv envp =
     (let child = bnd (printf E (lit_at E ''I am a child\<newline>'') []) (\<lambda>_. ret ());
          leave_as_parent = bnd (printf E (lit_at E ''I am a parent\<newline>'') []) (\<lambda>_. bnd (exit E EXIT_SUCCESS) (\<lambda>_. ret ())) in
      bnd (fork E) (\<lambda>j.
      bnd (if j = 0 then
             bnd child (\<lambda>_.
             bnd (fork E) (\<lambda>j.
             bnd (if j = 0 then bnd child (\<lambda>_. bnd (exit E EXIT_SUCCESS) (\<lambda>_. ret ()))
                  else leave_as_parent) (\<lambda>_.
             bnd (exit E EXIT_SUCCESS) (\<lambda>_. ret ()))))
           else leave_as_parent) (\<lambda>_.
      bnd (exit E EXIT_SUCCESS) (\<lambda>_. ret 0))))"

text \<open>A \<^verbatim>\<open>pid_t\<close> is unsigned, so the test for a negative one is a test of an unsigned number.\<close>

definition init_wait_step :: "'z user_state_scheme program \<Rightarrow> unit \<Rightarrow> ('z user_state_scheme, unit + unit) kop" where
  "init_wait_step E = (\<lambda>_.
     bnd (wait E (local_at E ''init.status'')) (\<lambda>waitpid.
     if waitpid = - 1 then bnd (puts E (lit_at E ''error in wait\<newline>'')) (\<lambda>_. ret (Inr ()))
     else
       bnd (printf E (lit_at E ''/bin/init: reaped pid : %d\<newline>'') [IntArg waitpid]) (\<lambda>_.
       bnd (if waitpid = 2 then bnd (printf E (lit_at E ''You are killing the shell.. \<newline>'') []) (\<lambda>_. ret ()) else ret ()) (\<lambda>_.
       ret (Inl ())))))"

definition init_main :: "'z user_state_scheme program \<Rightarrow> u32 \<Rightarrow> ptr \<Rightarrow> ptr \<Rightarrow> ('z user_state_scheme, u32) kop" where
  "init_main E argc argv envp =
     (let sbush_argv = local_at E ''init.sbush_argv''; sbush_envp = local_at E ''init.sbush_envp'' in
      bnd (store64 sbush_argv (lit_at E ''bin/sbush'')) (\<lambda>_.
      bnd (store64 (sbush_argv + 8) NULL) (\<lambda>_.
      bnd (store64 sbush_envp (lit_at E ''/bin:'')) (\<lambda>_.
      bnd (store64 (sbush_envp + 8) NULL) (\<lambda>_.
      bnd (fork E) (\<lambda>bleh_pid.
      bnd (if bleh_pid < 0 then
             bnd (puts E (lit_at E ''There is a bug in fork\<newline>'')) (\<lambda>_. bnd (exit E 1) (\<lambda>_. ret ()))
           else if bleh_pid = 0 then
             bnd (execve E (lit_at E ''/bin/sbush'') sbush_argv sbush_envp) (\<lambda>_.
             bnd (puts E (lit_at E ''sbush has returned\<newline>'')) (\<lambda>_.
             bnd (exit E 1) (\<lambda>_. ret ())))
           else loopM (init_wait_step E) ()) (\<lambda>_.
      ret 0)))))))"

section \<open>What echo prints\<close>

text \<open>Argument \<open>i\<close> in memory, and an argument vector \<open>as\<close> behind the name of the program.\<close>

abbreviation argument_at :: "(ptr \<Rightarrow> u8) \<Rightarrow> ptr \<Rightarrow> nat \<Rightarrow> ptr" where
  "argument_at m argv i \<equiv> le_word (bytes_at m (argv + 8 * of_nat i) 8)"

lemma bnd_argument:
  assumes "argv + 8 * of_nat i \<noteq> NULL" "i < 2 ^ 31"
  shows "bnd (argument argv (of_nat i)) f s = f (argument_at (kmem s) argv i) s"
  using assms by (simp add: argument_def load64_def scast_of_nat_small bnd_def)

text \<open>
  The memory \<^verbatim>\<open>echo\<close> relies on: its literals and its arguments are strings outside the buffer of \<^verbatim>\<open>printf\<close>, which
  has room for \<open>k\<close> bytes and more.
\<close>

definition echo_memory :: "'s program \<Rightarrow> (ptr \<Rightarrow> u8) \<Rightarrow> ptr \<Rightarrow> bytes list \<Rightarrow> nat \<Rightarrow> bool" where
  "echo_memory E m argv as k \<longleftrightarrow>
     valid_range (local_at E ''printf.buf'') (Suc k) \<and> k < 2 ^ 31 \<and> Suc (length as) < 2 ^ 31 \<and>
     (\<forall>l \<in> {'' '', ''%s '', ''\<newline>'', ''-n''}.
        cstr m (lit_at E l) (bytes_of l) \<and> clear_of (local_at E ''printf.buf'') k (lit_at E l) 3) \<and>
     (\<forall>i < length as.
        argv + 8 * of_nat (Suc i) \<noteq> NULL \<and> clear_of (local_at E ''printf.buf'') k (argv + 8 * of_nat (Suc i)) 7 \<and>
        cstr m (argument_at m argv (Suc i)) (as ! i) \<and>
        clear_of (local_at E ''printf.buf'') k (argument_at m argv (Suc i)) (length (as ! i)) \<and> length (as ! i) + 2 \<le> k)"

lemma echo_memory_put_at:
  assumes "echo_memory E m argv as k" and "length xs \<le> k"
  shows "echo_memory E (put_at m (local_at E ''printf.buf'') xs) argv as k"
proof -
  let ?b = "local_at E ''printf.buf''"
  have l: "\<forall>l \<in> {'' '', ''%s '', ''\<newline>'', ''-n''}. cstr (put_at m ?b xs) (lit_at E l) (bytes_of l) \<and> clear_of ?b k (lit_at E l) 3"
  proof
    fix l assume l: "l \<in> {'' '', ''%s '', ''\<newline>'', ''-n''}"
    then have c: "cstr m (lit_at E l) (bytes_of l)" "clear_of ?b k (lit_at E l) 3"
      using assms(1) unfolding echo_memory_def by blast+
    have "length (bytes_of l) \<le> 3" using l by (auto simp: bytes_of_def)
    then have "clear_of ?b k (lit_at E l) (length (bytes_of l))" using clear_of_mono [OF c(2)] by blast
    from clear_of_cstr [OF this assms(2)] c
    show "cstr (put_at m ?b xs) (lit_at E l) (bytes_of l) \<and> clear_of ?b k (lit_at E l) 3" by simp
  qed
  have "argument_at (put_at m ?b xs) argv (Suc i) = argument_at m argv (Suc i)" if "i < length as" for i
    using assms that clear_of_bytes_at [of ?b k "argv + 8 * of_nat (Suc i)" 7 xs 8 m] by (simp add: echo_memory_def)
  moreover have "cstr (put_at m ?b xs) (argument_at m argv (Suc i)) (as ! i)" if "i < length as" for i
    using assms that clear_of_cstr [of ?b k "argument_at m argv (Suc i)" "as ! i" xs m] by (simp add: echo_memory_def)
  ultimately show ?thesis using assms(1) l by (simp add: echo_memory_def)
qed

definition spaced :: "bytes list \<Rightarrow> bytes" where
  "spaced as = concat (map (\<lambda>a. a @ [32]) as)"

definition echo_text :: "bytes list \<Rightarrow> bytes" where
  "echo_text as = (if hd as = bytes_of ''-n'' then 32 # spaced (tl as) else 32 # spaced as @ [10])"

context user_output
begin

lemma echo_printf:
  assumes "ready s" and "echo_memory E (kmem s) argv as k" and "l \<in> {'' '', ''%s '', ''\<newline>''}"
    and "format_text str (bytes_of l) args = Some out" and "Suc (length out) \<le> k"
    and "args_in_memory (kmem s) str (local_at E ''printf.buf'') k args"
  shows "\<exists>t. printf E (lit_at E l) args s = Ok (of_nat (length out), t) \<and> echo_memory E (kmem t) argv as k \<and>
    shown out s t \<and> ready t"
proof -
  let ?b = "local_at E ''printf.buf''"
  have m: "valid_range ?b (Suc k)" "k < 2 ^ 31" "cstr (kmem s) (lit_at E l) (bytes_of l)" "clear_of ?b k (lit_at E l) 3"
    using assms(2,3) unfolding echo_memory_def by blast+
  have b: "bytes_of l \<noteq> []" "length (bytes_of l) \<le> 3" using assms(3) by (auto simp: bytes_of_def)
  have "fmt_ready (kmem s) (lit_at E l) (bytes_of l) ?b (Suc (length out))"
    using m b assms(5) clear_of_mono [OF m(4) assms(5), of "length (bytes_of l)"] valid_range_mono [OF m(1)]
    by (simp add: fmt_ready_def)
  moreover have "args_in_memory (kmem s) str ?b (Suc (length out)) args"
    using assms(6) clear_of_mono [OF _ assms(5)] by (auto simp: args_in_memory_def)
  moreover have "length out < 2 ^ 31" using m(2) assms(5) by simp
  ultimately obtain t where t: "printf E (lit_at E l) args s = Ok (of_nat (length out), t)"
      "kmem t = put_at (kmem s) ?b (out @ [0])" "shown out s t" "ready t"
    using printf_shows [OF assms(1) _ refl b(1) assms(4)] by blast
  moreover have "echo_memory E (kmem t) argv as k"
    unfolding t(2) using assms(5) by (intro echo_memory_put_at [OF assms(2)]) simp
  ultimately show ?thesis by blast
qed

lemma echo_loop:
  assumes "i \<le> length as"
  shows "ready s \<Longrightarrow> echo_memory E (kmem s) argv as k \<Longrightarrow>
    \<exists>t. for_each [Suc i..<Suc (length as)] (echo_word E argv) s = Ok ((), t) \<and>
      echo_memory E (kmem t) argv as k \<and> shown (spaced (drop i as)) s t \<and> ready t"
  using assms
proof (induction i arbitrary: s rule: inc_induct)
  case base
  then show ?case by (auto simp: spaced_def)
next
  case (step i)
  let ?a = "argument_at (kmem s) argv (Suc i)" and ?b = "local_at E ''printf.buf''"
  have m: "argv + 8 * of_nat (Suc i) \<noteq> NULL" "cstr (kmem s) ?a (as ! i)" "clear_of ?b k ?a (length (as ! i))"
    "length (as ! i) + 2 \<le> k" "k < 2 ^ 31" "Suc i < 2 ^ 31"
    using step.prems(2) step.hyps unfolding echo_memory_def by (auto simp del: of_nat_Suc)
  have "format_text (\<lambda>_. as ! i) (bytes_of ''%s '') [PtrArg ?a] = Some (as ! i @ [32])"
    by (simp add: bytes_of_def format_text.simps directive_text_def)
  moreover have "args_in_memory (kmem s) (\<lambda>_. as ! i) ?b k [PtrArg ?a]"
    using m by (simp add: args_in_memory_def)
  moreover have "Suc (length (as ! i @ [32])) \<le> k" using m(4) by simp
  ultimately obtain u where u: "printf E (lit_at E ''%s '') [PtrArg ?a] s = Ok (of_nat (length (as ! i @ [32])), u)"
      "echo_memory E (kmem u) argv as k" "shown (as ! i @ [32]) s u" "ready u"
    using echo_printf [OF step.prems, of "''%s ''"] by blast
  from step.IH [OF u(4,2)] obtain t where t: "for_each [Suc (Suc i)..<Suc (length as)] (echo_word E argv) u = Ok ((), t)"
      "echo_memory E (kmem t) argv as k" "shown (spaced (drop (Suc i) as)) u t" "ready t" by blast
  have "drop i as = as ! i # drop (Suc i) as" using step.hyps by (simp add: Cons_nth_drop_Suc)
  then have "shown (spaced (drop i as)) s t" using shown_trans [OF u(3) t(3)] by (simp add: spaced_def)
  moreover have "[Suc i..<Suc (length as)] = Suc i # [Suc (Suc i)..<Suc (length as)]" using step.hyps by (intro upt_conv_Cons) simp
  moreover have "echo_word E argv (Suc i) s = Ok ((), u)"
    using m(1,6) u(1) by (simp add: echo_word_def bnd_argument bnd_Ok del: of_nat_Suc)
  ultimately show ?case using t by (simp add: bnd_Ok del: upt_Suc)
qed

lemma echo_from_shows:
  assumes "ready s" and "echo_memory E (kmem s) argv as k" and "i \<le> length as" and "as \<noteq> []"
  shows "\<exists>t. echo_from E (of_nat (Suc (length as))) argv (Suc i) s = Ok ((), t) \<and>
    echo_memory E (kmem t) argv as k \<and> shown (32 # spaced (drop i as)) s t \<and> ready t"
proof -
  have k: "2 \<le> k" "Suc (length as) < 2 ^ 31" using assms(2,4) by (auto simp: echo_memory_def)
  have "format_text (\<lambda>_. []) (bytes_of '' '') [] = Some [32]" by (simp add: bytes_of_def format_text.simps)
  from echo_printf [OF assms(1,2) _ this] k obtain u where u: "printf E (lit_at E '' '') [] s = Ok (1, u)"
      "echo_memory E (kmem u) argv as k" "shown [32] s u" "ready u" by (auto simp: args_in_memory_def)
  from echo_loop [OF assms(3) u(4,2)] obtain t where t: "for_each [Suc i..<Suc (length as)] (echo_word E argv) u = Ok ((), t)"
      "echo_memory E (kmem t) argv as k" "shown (spaced (drop i as)) u t" "ready t" by blast
  have "nat (sint (of_nat (Suc (length as)) :: u32)) = Suc (length as)" using k by (simp add: sint_of_nat_small del: of_nat_Suc)
  then show ?thesis
    using t u(1) shown_trans [OF u(3) t(3)] by (simp add: echo_from_def bnd_Ok del: of_nat_Suc upt_Suc)
qed

lemma echo_shows:
  assumes "ready s" and "echo_memory E (kmem s) argv as k" and "as \<noteq> []"
  shows "\<exists>t. echo_main E (of_nat (Suc (length as))) argv envp s = Ok (EXIT_SUCCESS, t) \<and> shown (echo_text as) s t \<and> ready t"
proof -
  obtain a as' where as: "as = a # as'" using assms(3) by (cases as) auto
  have k: "2 \<le> k" "Suc (length as) < 2 ^ 31" "k < 2 ^ 31" using assms(2,3) by (auto simp: echo_memory_def)
  let ?a = "argument_at (kmem s) argv 1"
  have m: "argv + 8 * of_nat 1 \<noteq> NULL" "cstr (kmem s) ?a a" "length a < 2 ^ 31" "cstr (kmem s) (lit_at E ''-n'') (bytes_of ''-n'')"
    using assms(2) as k(3) unfolding echo_memory_def by auto
  have n: "sint (of_nat (Suc (length as)) :: u32) = int (Suc (length as))" using k(2) by (rule sint_of_nat_small)
  moreover have "(of_nat (Suc (length as)) :: u32) \<noteq> 1"
  proof
    assume "(of_nat (Suc (length as)) :: u32) = 1"
    then have "sint (of_nat (Suc (length as)) :: u32) = sint (1 :: u32)" by (rule arg_cong)
    with n as show False by simp
  qed
  moreover have "bnd (argument argv 1) f s = f ?a s" for f :: "ptr \<Rightarrow> ('z user_state_scheme, u32) kop"
    using bnd_argument [OF m(1), of f s] by simp
  moreover have "strcmp ?a (lit_at E ''-n'') s = Ok (str_order a (bytes_of ''-n''), s)"
    using m by (intro strcmp_run) (simp_all add: bytes_of_def)
  ultimately have run: "echo_main E (of_nat (Suc (length as))) argv envp s =
      bnd (if a = bytes_of ''-n'' then echo_from E (of_nat (Suc (length as))) argv 2
           else bnd (echo_from E (of_nat (Suc (length as))) argv 1) (\<lambda>_.
             bnd (printf E (lit_at E ''\<newline>'') []) (\<lambda>_. ret ()))) (\<lambda>_. ret EXIT_SUCCESS) s"
    using as by (simp add: echo_main_def bnd_Ok str_order_lexord del: of_nat_Suc)
  show ?thesis
  proof (cases "a = bytes_of ''-n''")
    case True
    then show ?thesis
      using run echo_from_shows [OF assms(1,2) _ assms(3), of 1] as
      by (auto simp: echo_text_def bnd_Ok numeral_2_eq_2 simp del: of_nat_Suc)
  next
    case False
    obtain u where u: "echo_from E (of_nat (Suc (length as))) argv 1 s = Ok ((), u)"
        "echo_memory E (kmem u) argv as k" "shown (32 # spaced as) s u" "ready u"
      using echo_from_shows [OF assms(1,2) _ assms(3), of 0] by (auto simp del: of_nat_Suc)
    have "format_text (\<lambda>_. []) (bytes_of ''\<newline>'') [] = Some [10]" by (simp add: bytes_of_def format_text.simps)
    from echo_printf [OF u(4,2) _ this] k obtain t where t: "printf E (lit_at E ''\<newline>'') [] u = Ok (1, t)"
        "shown [10] u t" "ready t" by (auto simp: args_in_memory_def)
    have "shown (echo_text as) s t" using shown_trans [OF u(3) t(2)] False as by (simp add: echo_text_def)
    then show ?thesis using run u(1) t False by (simp add: bnd_Ok del: of_nat_Suc)
  qed
qed

end

section \<open>What cat prints\<close>

text \<open>
  What \<^verbatim>\<open>cat_fd\<close> needs of the kernel. \<open>readable xs s\<close> says that the bytes \<open>xs\<close> are still to be read from the
  descriptor. A read delivers some of them, at most the size of the buffer and none only at the end;
  a write puts at least one of the bytes it is given on the console and returns how many.
\<close>

locale file_copy =
  fixes E :: "'z user_state_scheme program"
    and fd :: u32
    and readable :: "bytes \<Rightarrow> 'z user_state_scheme \<Rightarrow> bool"
  assumes read_delivers: "readable xs s \<Longrightarrow>
      \<exists>k t. invoke E 0 [scast fd, local_at E ''cat_fd.buf'', 4096] s = Ok (of_nat k, t) \<and> k \<le> 4096 \<and> k \<le> length xs \<and>
        (k = 0 \<longrightarrow> xs = []) \<and> bytes_at (kmem t) (local_at E ''cat_fd.buf'') k = take k xs \<and> shown [] s t \<and> readable (drop k xs) t"
    and write_shows: "readable xs s \<Longrightarrow> 0 < n \<Longrightarrow> j + n \<le> 4096 \<Longrightarrow>
      \<exists>k t. invoke E 1 [1, local_at E ''cat_fd.buf'' + of_nat j, of_nat n] s = Ok (of_nat k, t) \<and> 0 < k \<and> k \<le> n \<and>
        kmem t = kmem s \<and> shown (bytes_at (kmem s) (local_at E ''cat_fd.buf'' + of_nat j) k) s t \<and> readable xs t"
begin

lemma write_all:
  assumes "n \<le> 4096" and "local_at E ''cat_fd.buf'' = buf"
  shows "readable xs s \<Longrightarrow> j \<le> n \<Longrightarrow>
    \<exists>t. loopM (cat_write_step E buf (of_nat n)) (of_nat j) s = Ok (True, t) \<and>
      shown (bytes_at (kmem s) (buf + of_nat j) (n - j)) s t \<and> readable xs t"
proof (induction "n - j" arbitrary: j s rule: less_induct)
  case less
  have i: "sint (of_nat n :: u32) = int n" "sint (of_nat j :: u32) = int j"
    using assms(1) less.prems(2) by (simp_all add: sint_of_nat_small)
  show ?case
  proof (cases "j = n")
    case True
    then have "cat_write_step E buf (of_nat n) (of_nat j) s = Ok (Inr True, s)" by (simp add: cat_write_step_def)
    then show ?thesis using True less.prems(1) by (auto simp: loopM_exit bytes_at_def)
  next
    case False
    then have l: "j < n" using less.prems(2) by simp
    define d where "d = n - j"
    have d: "0 < d" "j + d = n" using l by (simp_all add: d_def)
    obtain k u where k: "invoke E 1 [1, buf + of_nat j, of_nat d] s = Ok (of_nat k, u)" "0 < k" "k \<le> d"
        "kmem u = kmem s" "shown (bytes_at (kmem s) (buf + of_nat j) k) s u" "readable xs u"
      using write_shows [OF less.prems(1), of d j] d assms by auto
    have "ucast (of_nat k :: u64) = (of_nat k :: u32)" "sint (of_nat k :: u32) = int k"
      using k(3) d assms(1) by (simp_all add: unsigned_of_nat take_bit_nat_eq_self sint_of_nat_small)
    moreover have "scast (of_nat j :: u32) = (of_nat j :: u64)" "scast (of_nat d :: u32) = (of_nat d :: u64)"
      using assms(1) d by (simp_all add: scast_of_nat_small)
    moreover have "sint (of_nat n :: u32) - sint (of_nat j :: u32) = int d" using i d by simp
    note diff = bnd_as_int_nat [OF this]
    moreover have "sint (of_nat j :: u32) + int k = int (j + k)" using i by simp
    note total = bnd_as_int_nat [OF this]
    moreover have "sint (of_nat j :: u32) < sint (of_nat n :: u32)" using i l by simp
    ultimately have "cat_write_step E buf (of_nat n) (of_nat j) s = Ok (Inl (of_nat (j + k)), u)"
      using k(1,2,3) d(2) assms(1) by (simp add: cat_write_step_def write_fd_def bnd_Ok Let_def diff total del: of_nat_add)
    note step = loopM_continue [of "cat_write_step E buf (of_nat n)", OF this]
    obtain t where t: "loopM (cat_write_step E buf (of_nat n)) (of_nat (j + k)) u = Ok (True, t)"
        "shown (bytes_at (kmem u) (buf + of_nat (j + k)) (n - (j + k))) u t" "readable xs t"
      using less.hyps [of "j + k" u] k(2,3,6) d l by auto
    have "bytes_at (kmem s) (buf + of_nat j) k @ bytes_at (kmem u) (buf + of_nat (j + k)) (n - (j + k)) =
        bytes_at (kmem s) (buf + of_nat j) (n - j)"
      using bytes_at_take [OF k(3), of "kmem s" "buf + of_nat j"] bytes_at_drop [of "kmem s" "buf + of_nat j" k "n - j"] k(4)
      by (simp add: add_ac d_def)
    with shown_trans [OF k(5) t(2)] step t(1,3) show ?thesis by auto
  qed
qed

lemma cat_fd_copies:
  "readable xs s \<Longrightarrow> \<exists>t. cat_fd E fd s = Ok (0, t) \<and> shown xs s t \<and> readable [] t"
proof (induction "length xs" arbitrary: xs s rule: less_induct)
  case less
  let ?b = "local_at E ''cat_fd.buf''"
  obtain k u where k: "invoke E 0 [scast fd, ?b, 4096] s = Ok (of_nat k, u)" "k \<le> 4096" "k \<le> length xs" "k = 0 \<longrightarrow> xs = []"
      "bytes_at (kmem u) ?b k = take k xs" "shown [] s u" "readable (drop k xs) u"
    using read_delivers [OF less.prems] by blast
  have c: "ucast (of_nat k :: u64) = (of_nat k :: u32)" "sint (of_nat k :: u32) = int k"
    using k(2) by (simp_all add: unsigned_of_nat take_bit_nat_eq_self sint_of_nat_small)
  show ?case
  proof (cases "k = 0")
    case True
    then have "cat_step E fd ?b () s = Ok (Inr 0, u)" using k(1) by (simp add: cat_step_def read_def bnd_Ok Let_def)
    then show ?thesis using True k(4,6,7) by (auto simp: cat_fd_def loopM_exit)
  next
    case False
    obtain v where v: "loopM (cat_write_step E ?b (of_nat k)) 0 u = Ok (True, v)" "shown (take k xs) u v" "readable (drop k xs) v"
      using write_all [OF k(2) refl k(7), of 0] k(5) by auto
    then have "cat_step E fd ?b () s = Ok (Inl (), v)"
      using k(1) c False by (simp add: cat_step_def read_def bnd_Ok Let_def)
    then have step: "cat_fd E fd s = cat_fd E fd v" by (simp add: cat_fd_def loopM_continue)
    have "length (drop k xs) < length xs" using False k(3) by simp
    then obtain t where t: "cat_fd E fd v = Ok (0, t)" "shown (drop k xs) v t" "readable [] t"
      using less.hyps [OF _ v(3)] by blast
    have "shown xs s t" using shown_trans [OF shown_trans [OF k(6) v(2)] t(2)] by simp
    then show ?thesis using step t by auto
  qed
qed

end

interpretation kcat: file_copy "kernel_program sma rff clobber c resume lit loc" fd "file_ready sma (loc ''cat_fd.buf'') fd"
  for sma rff clobber c resume lit loc fd
proof unfold_locales
  fix xs and s :: "'a user_state_scheme" assume "file_ready sma (loc ''cat_fd.buf'') fd xs s"
  from kernel_read_run [OF this] obtain t where t:
      "kernel_call sma rff clobber c resume 0 [scast fd, loc ''cat_fd.buf'', 4096] s = Ok (of_nat (min 4096 (length xs)), t)"
      "bytes_at (kmem t) (loc ''cat_fd.buf'') (min 4096 (length xs)) = take 4096 xs" "shown [] s t"
      "file_ready sma (loc ''cat_fd.buf'') fd (drop 4096 xs) t" by blast
  have "take (min 4096 (length xs)) xs = take 4096 xs" "drop (min 4096 (length xs)) xs = drop 4096 xs" by (simp_all add: min_def)
  with t show "\<exists>k t. invoke (kernel_program sma rff clobber c resume lit loc) 0
        [scast fd, local_at (kernel_program sma rff clobber c resume lit loc) ''cat_fd.buf'', 4096] s = Ok (of_nat k, t) \<and>
      k \<le> 4096 \<and> k \<le> length xs \<and> (k = 0 \<longrightarrow> xs = []) \<and>
      bytes_at (kmem t) (local_at (kernel_program sma rff clobber c resume lit loc) ''cat_fd.buf'') k = take k xs \<and>
      shown [] s t \<and> file_ready sma (loc ''cat_fd.buf'') fd (drop k xs) t"
    by (intro exI [of _ "min 4096 (length xs)"] exI [of _ t]) auto
next
  fix xs and s :: "'a user_state_scheme" and n j :: nat
  let ?p = "loc ''cat_fd.buf'' + of_nat j"
  assume f: "file_ready sma (loc ''cat_fd.buf'') fd xs s" and n: "0 < n" "j + n \<le> 4096"
  then have "valid_range ?p n" by (intro valid_range_later [of _ 4096]) (simp_all add: file_ready_def)
  moreover have "terminal_ready sma s" using f by (simp add: file_ready_def)
  ultimately obtain t where t: "kernel_call sma rff clobber c resume 1 [1, ?p, of_nat n] s = Ok (of_nat n, t)"
      "shown (bytes_at (kmem s) ?p n) s t" "screen_only s t"
    using kernel_write_run [of sma s ?p n rff clobber c resume] n by auto
  have "kmem t = kmem s" using t(3) by (auto simp: screen_only_def)
  moreover have "file_ready sma (loc ''cat_fd.buf'') fd xs t" using f t(3) by (rule file_ready_screen)
  ultimately show "\<exists>k t. invoke (kernel_program sma rff clobber c resume lit loc) 1
        [1, local_at (kernel_program sma rff clobber c resume lit loc) ''cat_fd.buf'' + of_nat j, of_nat n] s = Ok (of_nat k, t) \<and>
      0 < k \<and> k \<le> n \<and> kmem t = kmem s \<and>
      shown (bytes_at (kmem s) (local_at (kernel_program sma rff clobber c resume lit loc) ''cat_fd.buf'' + of_nat j) k) s t \<and>
      file_ready sma (loc ''cat_fd.buf'') fd xs t"
    using t n(1) by auto
qed

section \<open>Programs on the kernel\<close>

text \<open>
  A process on the machine of the archive: descriptor 0 is the five bytes of \<^verbatim>\<open>bin/ls\<close>, descriptor 1 the terminal.
  The literals of \<^verbatim>\<open>echo\<close> are at 0x3000, its two arguments at 0x2100 and 0x2110.
\<close>

definition session_memory :: "ptr \<Rightarrow> u8" where
  "session_memory = texts_at
     [(0x2008, [0, 0x21, 0, 0, 0, 0, 0, 0, 0x10, 0x21, 0, 0, 0, 0, 0, 0]), (0x2100, bytes_of ''hi''), (0x2110, bytes_of ''you''),
      (0x3000, bytes_of '' ''), (0x3010, bytes_of ''%s ''), (0x3020, bytes_of ''\<newline>''), (0x3030, bytes_of ''-n''),
      (0x6000, bytes_of ''/''), (0x6100, bytes_of ''bin/ls''), (0x7000, bytes_of ''hello'')]"

definition session_literal :: "string \<Rightarrow> ptr" where
  "session_literal l = (if l = '' '' then 0x3000 else if l = ''%s '' then 0x3010 else if l = ''\<newline>'' then 0x3020 else 0x3030)"

definition session :: user_state where
  "session = (user_machine session_memory)
     \<lparr>tarfs_sb := 0x40000, current := 0x1000,
      pcb_at := (\<lambda>_. zero_pcb\<lparr>pcb_fd := 0x8000 # 0x8800 # replicate 254 NULL\<rparr>),
      file_at := (\<lambda>a. if a = 0x8000 then zero_file\<lparr>f_refcount := 1, f_dentry := 0x6100, f_op := 0x8100\<rparr>
                        else zero_file\<lparr>f_refcount := 1, f_op := 0x8900\<rparr>),
      fop_at := (\<lambda>a. if a = 0x8100 then tarfs_ops else terminal_ops),
      sb_at := (\<lambda>_. \<lparr>s_op = NULL, s_root = 0x6000, s_inodes = 0x30000, s_magic = 100\<rparr>),
      inode_at := (\<lambda>a. if a = 0x30000 then zero_inode\<lparr>i_number := 2, i_dentry := 0x6000\<rparr>
                        else if a = 0x30030 then zero_inode\<lparr>i_number := 3, i_size := 5, i_data := 0x7000, i_dentry := 0x6100\<rparr>
                        else zero_inode)\<rparr>"

lemma session_terminal: "terminal_ready 0x1000 session"
proof -
  have "global_ds (user_machine m) = 0x1000" for m
    by (simp add: user_machine_def desc_state.defs file_state.defs terminal_machine_def idle_machine_def proc_state.defs virt_state.defs)
  then have "global_ds session \<noteq> NULL" by (simp add: session_def)
  moreover have "opened session 1 0x8800" by (simp add: opened_def session_def zero_file_def)
  moreover have "op_write (fop_at session (f_op (file_at session 0x8800))) = terminal_write_fn"
    by (simp add: session_def terminal_ops_def)
  ultimately show ?thesis unfolding terminal_ready_def by auto
qed

lemma kmem_session [simp]: "kmem session = session_memory"
  by (simp add: session_def)



text \<open>
  C12: \<^verbatim>\<open>cat\<close> copies a file to the console: run on this kernel on a descriptor that is open on a file of the archive,
  with descriptor 1 the terminal, \<^verbatim>\<open>cat_fd\<close> returns 0, and what appears on the console is exactly what is left of the
  file, whatever its length: it is read in pieces of at most 4096 bytes until the read that returns 0.
\<close>

theorem cat_reaches_screen:
  assumes "file_ready sma (loc ''cat_fd.buf'') fd xs s"
  shows "\<exists>t. cat_fd (kernel_program sma rff clobber c resume lit loc) fd s = Ok (0, t) \<and>
    console.truncate t = kputs xs (console.truncate s) \<and> file_ready sma (loc ''cat_fd.buf'') fd [] t"
  using kcat.cat_fd_copies [of sma loc fd xs s rff clobber c resume lit] assms by (auto simp: shown_def)

theorem cat_reaches_screen_witness:
  "\<exists>t. cat_fd (kernel_program 0x1000 0 id (\<lambda>_. 0) (ret 0) session_literal (\<lambda>_. 0x9000)) 0 session = Ok (0, t) \<and>
     console.truncate t = kputs (bytes_of ''hello'') (console.truncate session)"
proof -
  let ?r = "zero_inode\<lparr>i_number := 2, i_dentry := 0x6000\<rparr>"
    and ?n = "zero_inode\<lparr>i_number := 3, i_size := 5, i_data := 0x7000, i_dentry := 0x6100\<rparr>" and ?cs = "bytes_of ''bin/ls''"
  have ns: "inodes session [?r, ?n]"
    by (simp add: inodes_def session_def inode_slot_def sizeof_inode_def zero_inode_def less_Suc_eq le_Suc_eq all_conj_distrib
        conj_disj_distribR imp_conjL)
  have f: "find (\<lambda>n. name_sum session (i_dentry n) (length ?cs) = sum_list (map uint ?cs)) [?r, ?n] = Some ?n"
    by (simp add: name_sum_def bytes_at_def upt_rec session_memory_def bytes_of_def)
  have c: "cstr (kmem session) 0x6100 ?cs" by (simp add: session_memory_def bytes_of_def)
  have v: "clear_of 0x9000 4096 0x6100 (length ?cs)" "clear_of 0x9000 4096 0x6000 (length ?cs)" "clear_of 0x9000 4096 0x7000 5"
    by (simp_all add: bytes_of_def clear_of_below)
  have d: "f_dentry (file_at session 0x8000) = 0x6100" "f_offset (file_at session 0x8000) = 0" "opened session 0 0x8000"
    "op_read (fop_at session (f_op (file_at session 0x8000))) = tarfs_read_fn"
    by (simp_all add: session_def opened_def zero_file_def tarfs_ops_def)
  have "archive_file 0x9000 0 0x8000 ?n 5 session"
    unfolding archive_file_def d(1) using d(3,4) v
    by (intro conjI exI [of _ "[?r, ?n]"] exI [of _ ?cs] ns c f) (simp_all add: valid_range_def bytes_of_def)
  moreover have "bytes_of ''hello'' = bytes_at (kmem session) (i_data ?n + of_nat 0) (5 - 0)"
    by (simp add: bytes_at_def upt_rec session_memory_def bytes_of_def)
  ultimately have "file_ready 0x1000 0x9000 0 (bytes_of ''hello'') session"
    unfolding file_ready_def using session_terminal d(2)
    by (intro conjI exI [of _ "0x8000"] exI [of _ ?n] exI [of _ 5] exI [of _ 0]) (simp_all add: valid_range_def)
  with cat_reaches_screen [of "0x1000" "\<lambda>_. 0x9000"] show ?thesis by blast
qed

end
