(* ===== verification/Shell.thy ===== *)
theory Shell
  imports Programs
begin

text \<open>
  The shell, \<^verbatim>\<open>bin/sbush/sbush.c\<close>: reading a line, splitting it into words, and running a command. Arrays of
  pointers that are passed on are in memory; the array in which a word is collected does not leave its
  function and is a list. An index outside an array is a fault.
\<close>

section \<open>Splitting a line\<close>

definition is_whitespace :: "u8 \<Rightarrow> u32" where
  "is_whitespace c =
     (if c = ch CHR '' '' \<or> c = 12 \<or> c = ch CHR ''\<newline>'' \<or> c = 13 \<or> c = 9 \<or> c = 11 then 1 else 0)"

definition clear_array :: "bytes \<Rightarrow> nat \<Rightarrow> bytes" where
  "clear_array p n = fold (\<lambda>i p. p[i := 0]) [0..<n] p"

text \<open>A word that is complete: it goes to memory of its own, without a NUL behind it.\<close>

definition save_word :: "'z user_state_scheme program \<Rightarrow> ptr \<Rightarrow> u32 \<Rightarrow> bytes \<Rightarrow> ('z user_state_scheme, unit) kop" where
  "save_word E cmds index cmd =
     bnd (malloc E 64) (\<lambda>dst.
     bnd (put_bytes dst (takeWhile (\<lambda>b. b \<noteq> 0) cmd)) (\<lambda>_.
     store64 (cmds + 8 * scast index) dst))"

definition tokenize_step :: "'z user_state_scheme program \<Rightarrow> ptr \<Rightarrow> ptr \<times> bytes \<times> u32 \<times> bool \<times> nat \<Rightarrow>
    ('z user_state_scheme, ptr \<times> bytes \<times> u32 \<times> bool \<times> nat + bytes \<times> u32 \<times> nat) kop" where
  "tokenize_step E cmds = (\<lambda>(temp, cmd, index, is_prev_found, i).
     bnd (load temp) (\<lambda>b.
     if b = 0 then ret (Inr (cmd, index, i))
     else if is_whitespace b = 0 then
       if i < 64 then ret (Inl (temp + 1, cmd[i := b], index, True, Suc i)) else fail OutOfBounds
     else if is_prev_found then
       if i < 64 then
         bnd (save_word E cmds index (cmd[i := 0])) (\<lambda>_.
         bnd (inc index) (\<lambda>index.
         ret (Inl (temp + 1, clear_array (cmd[i := 0]) 64, index, False, 0))))
       else fail OutOfBounds
     else ret (Inl (temp + 1, cmd, index, is_prev_found, i))))"

definition tokenize_string :: "'z user_state_scheme program \<Rightarrow> ptr \<Rightarrow> ('z user_state_scheme, ptr) kop" where
  "tokenize_string E str =
     bnd (malloc E (32 * 8)) (\<lambda>cmds.
     bnd (loopM (tokenize_step E cmds) (str, clear_array (replicate 64 0) 64, 0, False, 0)) (\<lambda>(cmd, index, i).
     if i < 64 then bnd (store64 (cmds + 8 * scast index) NULL) (\<lambda>_. ret cmds)
     else fail OutOfBounds))"

section \<open>Running a command\<close>

definition execute_copy_step :: "ptr \<Rightarrow> ptr \<Rightarrow> nat \<Rightarrow> ('z user_state_scheme, nat + nat) kop" where
  "execute_copy_step shell_cmds argv i =
     bnd (load64 (shell_cmds + 8 * of_nat i)) (\<lambda>p.
     if p \<noteq> NULL then
       if i < 32 then bnd (store64 (argv + 8 * of_nat i) p) (\<lambda>_. ret (Inl (Suc i))) else fail OutOfBounds
     else ret (Inr i))"

text \<open>The environment is compared by address.\<close>

definition export_step :: "'z user_state_scheme program \<Rightarrow> ptr \<Rightarrow> ptr \<Rightarrow> ptr \<Rightarrow> nat \<Rightarrow> ('z user_state_scheme, nat + unit) kop" where
  "export_step E envp cmd cmd1 i =
     bnd (load64 (envp + 8 * of_nat i)) (\<lambda>p.
     if p \<noteq> NULL then
       bnd (if p = cmd then
              bnd (setenv E cmd cmd1 1) (\<lambda>status.
              if status = - 1 then bnd (exit E EXIT_FAILURE) (\<lambda>_. ret ()) else ret ())
            else ret ()) (\<lambda>_.
       ret (Inl (Suc i)))
     else ret (Inr ()))"

definition execute_export :: "'z user_state_scheme program \<Rightarrow> ptr \<Rightarrow> ptr \<Rightarrow> ('z user_state_scheme, unit) kop" where
  "execute_export E argv envp =
     bnd (load64 (argv + 8)) (\<lambda>a.
     bnd (strtok a (lit_at E [CHR ''='', CHR '' '', CHR ''\<newline>'', CHR 0x09])) (\<lambda>cmd.
     bnd (strtok NULL (lit_at E [CHR ''='', CHR '' '', CHR ''\<newline>'', CHR 0x09])) (\<lambda>cmd1.
     loopM (export_step E envp cmd cmd1) 0)))"

definition shell_commands :: "(string \<times> string) list" where
  "shell_commands =
     [(''ps'', ''/bin/ps''), (''ls'', ''/bin/ls''), (''echo'', ''/bin/echo''), (''cat'', ''/bin/cat''), (''kill'', ''/bin/kill''),
      (''sleep'', ''/bin/sleep''), (''preempt'', ''/bin/preempt'')]"

fun run_command :: "'z user_state_scheme program \<Rightarrow> ptr \<Rightarrow> ptr \<Rightarrow> (string \<times> string) list \<Rightarrow> ('z user_state_scheme, unit) kop" where
  "run_command E argv envp [] =
     bnd (printf E (lit_at E ''This command not supported by BLEH\<newline>'') []) (\<lambda>_. ret ())"
| "run_command E argv envp ((name, path) # rest) =
     bnd (load64 argv) (\<lambda>a.
     bnd (strlen (lit_at E name)) (\<lambda>n.
     bnd (strncmp a (lit_at E name) n) (\<lambda>r.
     if r = 0 then bnd (execve E (lit_at E path) argv envp) (\<lambda>_. ret ())
     else run_command E argv envp rest)))"

definition execute_wait_step :: "'z user_state_scheme program \<Rightarrow> u32 \<Rightarrow> unit \<Rightarrow> ('z user_state_scheme, unit + unit) kop" where
  "execute_wait_step E cid = (\<lambda>_.
     let st = local_at E ''execute.status'' in
     bnd (wait E st) (\<lambda>w.
     bnd (load32 st) (\<lambda>status.
     bnd (printf E (lit_at E ''status is %d\<newline>'') [IntArg status]) (\<lambda>_.
     bnd (load32 st) (\<lambda>status.
     bnd (if w \<noteq> cid then bnd (exit E EXIT_FAILURE) (\<lambda>_. ret ())
          else if status = 9 then bnd (puts E (lit_at E ''Child was killed by SIGTERM'')) (\<lambda>_. ret ())
          else if status = 11 then bnd (puts E (lit_at E ''Child was killed by the SIGSEGV signal'')) (\<lambda>_. ret ())
          else ret ()) (\<lambda>_.
     bnd (load32 st) (\<lambda>status.
     ret (if status = 9 \<or> status = 11 \<or> status = 0 \<or> status = 1 then Inr () else Inl ()))))))))"

definition execute_fork :: "'z user_state_scheme program \<Rightarrow> ptr \<Rightarrow> ptr \<Rightarrow> ('z user_state_scheme, unit) kop" where
  "execute_fork E argv envp =
     bnd (fork E) (\<lambda>cid.
     if cid = 0 then
       bnd (run_command E argv envp shell_commands) (\<lambda>_.
       bnd (exit E EXIT_FAILURE) (\<lambda>_. ret ()))
     else if 0 < cid then loopM (execute_wait_step E cid) ()
     else bnd (puts E (lit_at E ''fork error'')) (\<lambda>_. ret ()))"

definition execute :: "'z user_state_scheme program \<Rightarrow> ptr \<Rightarrow> ('z user_state_scheme, unit) kop" where
  "execute E shell_cmds =
     (let envp = local_at E ''execute.envp''; argv = local_at E ''execute.argv'' in
      bnd (store64 envp (lit_at E ''/bin:'')) (\<lambda>_.
      bnd (store64 (envp + 8) NULL) (\<lambda>_.
      bnd (loopM (execute_copy_step shell_cmds argv) 0) (\<lambda>i.
      if i < 32 then
        bnd (store64 (argv + 8 * of_nat i) NULL) (\<lambda>_.
        bnd (load64 argv) (\<lambda>a.
        bnd (strcmp a (lit_at E ''export'')) (\<lambda>r.
        if r = 0 then execute_export E argv envp else execute_fork E argv envp)))
      else fail OutOfBounds))))"

text \<open>The index moves on only past a word that contains an ampersand.\<close>

definition background_step :: "ptr \<Rightarrow> ptr \<Rightarrow> nat \<Rightarrow> ('z user_state_scheme, nat + nat) kop" where
  "background_step token_cmds argv i =
     bnd (load64 (token_cmds + 8 * of_nat i)) (\<lambda>p.
     if p \<noteq> NULL then
       bnd (strchr p 38) (\<lambda>r.
       if r \<noteq> NULL then
         if i < 64 then bnd (store64 (argv + 8 * of_nat i) p) (\<lambda>_. ret (Inl (Suc i))) else fail OutOfBounds
       else ret (Inl i))
     else ret (Inr i))"

definition execute_background_process :: "'z user_state_scheme program \<Rightarrow> ptr \<Rightarrow> ptr \<Rightarrow> ('z user_state_scheme, unit) kop" where
  "execute_background_process E token_cmds envp =
     (let argv = local_at E ''execute_background_process.argv'' in
      bnd (fork E) (\<lambda>cid.
      if cid = 0 then
        bnd (loopM (background_step token_cmds argv) 0) (\<lambda>i.
        if i < 64 then
          bnd (store64 (argv + 8 * of_nat i) NULL) (\<lambda>_.
          bnd (load64 argv) (\<lambda>a.
          bnd (execve E a argv envp) (\<lambda>_.
          bnd (exit E EXIT_FAILURE) (\<lambda>_. ret ()))))
        else fail OutOfBounds)
      else if cid < 0 then bnd (puts E (lit_at E ''Fork error\<newline>'')) (\<lambda>_. ret ())
      else ret ()))"

section \<open>The main loop\<close>

definition collect_step :: "'z user_state_scheme program \<Rightarrow> ptr \<Rightarrow> u32 \<Rightarrow> ('z user_state_scheme, u32 + unit) kop" where
  "collect_step E buffer sz =
     bnd (getchar E) (\<lambda>c.
     if c = EOF \<or> c = 10 then bnd (store (buffer + scast sz) 0) (\<lambda>_. ret (Inr ()))
     else
       bnd (inc sz) (\<lambda>n.
       bnd (store (buffer + scast sz) (ucast c)) (\<lambda>_.
       ret (Inl n))))"

definition collect_shell_command :: "'z user_state_scheme program \<Rightarrow> ('z user_state_scheme, ptr) kop" where
  "collect_shell_command E =
     bnd (malloc E 1024) (\<lambda>buffer.
     bnd (loopM (collect_step E buffer) 0) (\<lambda>_.
     bnd (puts E (lit_at E ''return buffer'')) (\<lambda>_.
     ret buffer)))"

definition sbush_step :: "'z user_state_scheme program \<Rightarrow> unit \<Rightarrow> ('z user_state_scheme, unit + u32) kop" where
  "sbush_step E = (\<lambda>_.
     let line = local_at E ''sbush.shell_cmd_cpy'' in
     bnd (printf E (lit_at E ''sbush> '') []) (\<lambda>_.
     bnd (read E 0 line 1024) (\<lambda>n.
     bnd (if sint (ucast n :: u32) < 0 then bnd (puts E (lit_at E ''read error'')) (\<lambda>_. ret ()) else ret ()) (\<lambda>_.
     bnd (strncmp line (lit_at E ''cd'') 2) (\<lambda>r.
     if r = 0 then ret (Inl ())
     else
       bnd (strncmp line (lit_at E ''exit'') 4) (\<lambda>r.
       if r = 0 then ret (Inl ())
       else
         bnd (tokenize_string E line) (\<lambda>shell_cmds.
         bnd (execute E shell_cmds) (\<lambda>_.
         ret (Inl ())))))))))"

definition sbush_main :: "'z user_state_scheme program \<Rightarrow> u32 \<Rightarrow> ptr \<Rightarrow> ptr \<Rightarrow> ('z user_state_scheme, u32) kop" where
  "sbush_main E argc argv envp = (if argc = 1 then loopM (sbush_step E) () else ret 0)"

section \<open>The words of a line\<close>

abbreviation whitespace :: "u8 set" where
  "whitespace \<equiv> {c. is_whitespace c \<noteq> 0}"

text \<open>The words of a line that are followed by white space, the characters \<open>acc\<close> being the start of the first.\<close>

fun words_from :: "bytes \<Rightarrow> bytes \<Rightarrow> bytes list" where
  "words_from acc [] = []"
| "words_from acc (c # cs) =
     (if is_whitespace c = 0 then words_from (acc @ [c]) cs
      else if acc = [] then words_from [] cs
      else acc # words_from [] cs)"

lemma fields_no_delimiter: "set cs \<inter> D = {} \<Longrightarrow> Libc_String.fields D cs = [cs]"
  by (subst Libc_String.fields.simps) (simp add: dropWhile_eq_Nil_conv [THEN iffD2] disjoint_iff)

lemma fields_delimiter: "set cs \<inter> D = {} \<Longrightarrow> d \<in> D \<Longrightarrow> Libc_String.fields D (cs @ d # r) = cs # Libc_String.fields D r"
  by (subst Libc_String.fields.simps) (simp add: dropWhile_append takeWhile_append disjoint_iff dropWhile_eq_Nil_conv [THEN iffD2]
      takeWhile_eq_all_conv [THEN iffD2])

lemma fields_ne [simp]: "Libc_String.fields D cs \<noteq> []"
  by (subst Libc_String.fields.simps) (simp split: list.split)

lemma words_from_fields:
  "set acc \<inter> whitespace = {} \<Longrightarrow> words_from acc cs = filter (\<lambda>w. w \<noteq> []) (butlast (Libc_String.fields whitespace (acc @ cs)))"
proof (induction cs arbitrary: acc)
  case Nil
  then show ?case by (simp add: fields_no_delimiter)
next
  case (Cons c cs)
  show ?case
  proof (cases "is_whitespace c = 0")
    case True
    with Cons.prems have "set (acc @ [c]) \<inter> whitespace = {}" by auto
    from Cons.IH [OF this] True show ?thesis by simp
  next
    case False
    then have "Libc_String.fields whitespace (acc @ c # cs) = acc # Libc_String.fields whitespace cs" by (intro fields_delimiter Cons.prems) simp
    with Cons.IH [of "[]"] False show ?thesis by simp
  qed
qed

lemma words_from_nonzero: "0 \<notin> set acc \<Longrightarrow> 0 \<notin> set cs \<Longrightarrow> w \<in> set (words_from acc cs) \<Longrightarrow> 0 \<notin> set w"
  by (induction acc cs rule: words_from.induct) (auto split: if_splits)

section \<open>Tokens\<close>

text \<open>
  The line \<open>cs\<close> at \<open>str\<close>, and the memory that is going to be allocated: 256 bytes at \<open>cmds\<close> for pointers, and 64
  bytes, all zero, at each of \<open>ps\<close>. Nothing overlaps.
\<close>

definition layout :: "ptr \<Rightarrow> bytes \<Rightarrow> ptr \<Rightarrow> ptr list \<Rightarrow> bool" where
  "layout str cs cmds ps \<longleftrightarrow>
     valid_range cmds 256 \<and> clear_of cmds 256 str (length cs) \<and> length ps < 32 \<and>
     (\<forall>i < length ps. valid_range (ps ! i) 64 \<and> clear_of (ps ! i) 64 str (length cs) \<and>
        clear_of cmds 256 (ps ! i) 63 \<and> clear_of (ps ! i) 64 cmds 255 \<and>
        (\<forall>j < length ps. j \<noteq> i \<longrightarrow> clear_of (ps ! j) 64 (ps ! i) 63))"

text \<open>The first \<open>k\<close> words are stored; the memory for the others is still zero.\<close>

definition stored :: "ptr \<Rightarrow> bytes \<Rightarrow> ptr \<Rightarrow> ptr list \<Rightarrow> bytes list \<Rightarrow> nat \<Rightarrow> (ptr \<Rightarrow> u8) \<Rightarrow> bool" where
  "stored str cs cmds ps ws k m \<longleftrightarrow>
     cstr m str cs \<and> (\<forall>i < k. argument_at m cmds i = ps ! i \<and> cstr m (ps ! i) (ws ! i)) \<and>
     (\<forall>i < length ps. k \<le> i \<longrightarrow> bytes_at m (ps ! i) 64 = replicate 64 0)"

lemma pointer_run:
  assumes "valid_range cmds 256" and "k < 32"
  shows "store64 (cmds + 8 * scast (of_nat k :: u32)) p s = Ok ((), s\<lparr>kmem := put_at (kmem s) (cmds + of_nat (8 * k)) (word_bytes p)\<rparr>)"
proof -
  have "scast (of_nat k :: u32) = (of_nat k :: u64)" using assms(2) by (simp add: scast_of_nat_small)
  moreover have "valid_range (cmds + of_nat (8 * k)) 8" using assms by (intro valid_range_later [of _ 256]) simp_all
  ultimately show ?thesis using store64_run [of "cmds + of_nat (8 * k)"] by simp
qed

text \<open>Storing a pointer at index \<open>k\<close> changes that pointer only.\<close>

lemma pointer_stored:
  assumes "k < 32" and "i < 32"
  shows "argument_at (put_at m (cmds + of_nat (8 * k)) (word_bytes p)) cmds i = (if i = k then p else argument_at m cmds i)"
proof (cases "i = k")
  case True
  have "bytes_at (put_at m (cmds + of_nat (8 * k)) (word_bytes p)) (cmds + of_nat (8 * k)) 8 = word_bytes p"
    using bytes_at_put_at [of "word_bytes p"] by simp
  with True show ?thesis by simp
next
  case False
  have "put_at m (cmds + of_nat (8 * k)) (word_bytes p) (cmds + of_nat (8 * i) + of_nat j) = m (cmds + of_nat (8 * i) + of_nat j)"
    if j: "j < 8" for j
  proof (rule put_at_outside)
    have "8 \<le> unat (cmds + of_nat (8 * i + j) - (cmds + of_nat (8 * k)))"
    proof (cases "i < k")
      case True
      then have "Suc (8 * k - 1) = 8 * k" "8 * i + j \<le> 8 * k - 1" "8 * k - 1 < 2 ^ 32" using assms j by simp_all
      with unat_before [of "8 * i + j" "8 * k - 1" cmds] have "2 ^ 32 \<le> unat (cmds + of_nat (8 * i + j) - (cmds + of_nat (8 * k)))"
        by metis
      then show ?thesis by simp
    next
      case F: False
      have "cmds + of_nat (8 * i + j) - (cmds + of_nat (8 * k)) = (of_nat (8 * i + j - 8 * k) :: u64)"
        using F False by (simp add: of_nat_diff)
      moreover have "unat (of_nat (8 * i + j - 8 * k) :: u64) = 8 * i + j - 8 * k"
        using assms j by (intro unat_of_nat_u64) simp
      ultimately show ?thesis using F False j by simp
    qed
    then show "length (word_bytes p) \<le> unat (cmds + of_nat (8 * i) + of_nat j - (cmds + of_nat (8 * k)))" by (simp add: add_ac)
  qed
  then have "bytes_at (put_at m (cmds + of_nat (8 * k)) (word_bytes p)) (cmds + of_nat (8 * i)) 8 = bytes_at m (cmds + of_nat (8 * i)) 8"
    by (simp add: bytes_at_def)
  with False show ?thesis by simp
qed

lemma cstr_put_at_zeroed:
  assumes "bytes_at m p 64 = replicate 64 0" and "valid_range p 64" and "length w < 64" and "0 \<notin> set w"
  shows "cstr (put_at m p w) p w"
proof (rule cstrI [OF _ assms(4)])
  fix i assume i: "i \<le> length w"
  have z: "m (p + of_nat i) = 0" using bytes_at_nth [of i 64 m p] i assms(1,3) by simp
  have "p + of_nat i \<noteq> 0" using i assms(3) by (intro valid_range_nonnull [OF assms(2)]) simp
  moreover have "put_at m p w (p + of_nat i) = (w @ [0]) ! i"
  proof (cases "i < length w")
    case True
    then show ?thesis using assms(3) by (simp add: put_at_nth nth_append)
  next
    case False
    with i have "i = length w" by simp
    moreover have "unat (of_nat (length w) :: u64) = length w" using assms(3) by (intro unat_of_nat_u64) simp
    ultimately show ?thesis using z by (simp add: put_at_outside nth_append)
  qed
  ultimately show "put_at m p w (p + of_nat i) = (w @ [0]) ! i \<and> p + of_nat i \<noteq> 0" by blast
qed

lemma stored_save:
  assumes "layout str cs cmds ps" and "stored str cs cmds ps ws k m" and "k < length ps" and "length ws = length ps"
    and ws: "\<forall>w \<in> set ws. length w < 64 \<and> 0 \<notin> set w"
  shows "stored str cs cmds ps ws (Suc k) (put_at (put_at m (ps ! k) (ws ! k)) (cmds + of_nat (8 * k)) (word_bytes (ps ! k)))"
proof -
  let ?m1 = "put_at m (ps ! k) (ws ! k)" and ?c = "cmds + of_nat (8 * k)"
  let ?m2 = "put_at ?m1 ?c (word_bytes (ps ! k))"
  have w: "length (ws ! i) < 64" "0 \<notin> set (ws ! i)" if "i < length ps" for i using ws assms(4) that by simp_all
  have k: "k < 32" "8 * k + 8 \<le> 256" using assms(1,3) by (auto simp: layout_def)
  have s: "cstr m str cs" "\<And>i. i < k \<Longrightarrow> argument_at m cmds i = ps ! i \<and> cstr m (ps ! i) (ws ! i)"
    "\<And>i. i < length ps \<Longrightarrow> k \<le> i \<Longrightarrow> bytes_at m (ps ! i) 64 = replicate 64 0"
    using assms(2) by (simp_all add: stored_def)
  have lay: "valid_range (ps ! i) 64" "clear_of (ps ! i) 64 str (length cs)" "clear_of cmds 256 (ps ! i) 63"
    "clear_of (ps ! i) 64 cmds 255" "\<And>j. j < length ps \<Longrightarrow> j \<noteq> i \<Longrightarrow> clear_of (ps ! j) 64 (ps ! i) 63"
    if "i < length ps" for i using assms(1) that by (auto simp: layout_def)
  have cl: "clear_of ?c 8 str (length cs)" using assms(1) k(2) by (intro clear_of_inside [of cmds 256]) (auto simp: layout_def)
  have cp: "clear_of ?c 8 (ps ! i) 63" if "i < length ps" for i using lay(3) [OF that] k(2) by (rule clear_of_inside)
  have l: "length (word_bytes (ps ! k)) \<le> 8" "length (ws ! k) \<le> 64" using w(1) [OF assms(3)] by simp_all
  have keep: "cstr ?m2 (ps ! i) (ws ! i) = cstr ?m1 (ps ! i) (ws ! i)" if "i < length ps" for i
    using w(1) [OF that] by (intro clear_of_cstr [OF clear_of_mono [OF cp [OF that]] l(1)]) simp_all
  have "cstr ?m2 str cs" using s(1) clear_of_cstr [OF cl l(1)] clear_of_cstr [OF lay(2) [OF assms(3)] l(2)] by simp
  moreover have "argument_at ?m2 cmds i = ps ! i \<and> cstr ?m2 (ps ! i) (ws ! i)" if i: "i < Suc k" for i
  proof (cases "i = k")
    case True
    have "cstr ?m1 (ps ! k) (ws ! k)" by (rule cstr_put_at_zeroed) (use s(3) lay(1) w assms(3) in simp_all)
    then show ?thesis using True keep [OF assms(3)] pointer_stored [OF k(1) k(1)] by simp
  next
    case False
    with i assms(3) have i: "i < k" "i < length ps" "k \<noteq> i" by simp_all
    have "8 * i + 7 \<le> 255" using i(1) k(1) by linarith
    with lay(4) [OF assms(3)] have "clear_of (ps ! k) 64 (cmds + of_nat (8 * i)) 7" by (rule clear_of_shift)
    from clear_of_bytes_at [OF this l(2), of 8 m] have "argument_at ?m1 cmds i = argument_at m cmds i" by simp
    moreover have "cstr ?m1 (ps ! i) (ws ! i) = cstr m (ps ! i) (ws ! i)"
      using w(1) [OF i(2)] by (intro clear_of_cstr [OF clear_of_mono [OF lay(5) [OF i(2) assms(3) i(3)]] l(2)]) simp_all
    ultimately show ?thesis using pointer_stored [OF k(1), of i] s(2) [OF i(1)] keep [OF i(2)] i k(1) by simp
  qed
  moreover have "bytes_at ?m2 (ps ! i) 64 = replicate 64 0" if i: "i < length ps" "Suc k \<le> i" for i
  proof -
    have "bytes_at ?m2 (ps ! i) 64 = bytes_at ?m1 (ps ! i) 64" by (rule clear_of_bytes_at [OF cp [OF i(1)] l(1)]) simp
    also have "\<dots> = bytes_at m (ps ! i) 64" using i by (intro clear_of_bytes_at [OF lay(5) [OF i(1) assms(3)] l(2)]) simp_all
    finally show ?thesis using s(3) [OF i(1)] i(2) by simp
  qed
  ultimately show ?thesis by (simp add: stored_def)
qed

text \<open>
  What the shell needs of \<^verbatim>\<open>malloc\<close>: with the blocks \<open>p # ps\<close> still to be handed out it returns \<open>p\<close> and leaves the contents
  of memory alone.
\<close>

definition allocates :: "'z user_state_scheme program \<Rightarrow> (ptr list \<Rightarrow> 'z user_state_scheme \<Rightarrow> bool) \<Rightarrow> bool" where
  "allocates E heap \<longleftrightarrow>
     (\<forall>n p ps s. heap (p # ps) s \<longrightarrow> (\<exists>t. malloc E n s = Ok (p, t) \<and> kmem t = kmem s \<and> heap ps t)) \<and>
     (\<forall>ps s m. heap ps s \<longrightarrow> heap ps (s\<lparr>kmem := m\<rparr>))"

text \<open>The array of 64 bytes while the characters \<open>acc\<close> are collected.\<close>

definition collected :: "bytes \<Rightarrow> bytes" where
  "collected acc = acc @ replicate (64 - length acc) 0"

lemma collected_snoc: "length acc < 64 \<Longrightarrow> (collected acc)[length acc := b] = collected (acc @ [b])"
  by (cases "64 - length acc") (auto simp: collected_def list_update_append)

lemma collected_nul: "length acc < 64 \<Longrightarrow> (collected acc)[length acc := 0] = collected acc"
  by (cases "64 - length acc") (auto simp: collected_def list_update_append)

lemma takeWhile_collected: "length acc < 64 \<Longrightarrow> 0 \<notin> set acc \<Longrightarrow> takeWhile (\<lambda>b. b \<noteq> 0) (collected acc) = acc"
  by (cases "64 - length acc") (auto simp: collected_def takeWhile_append)

lemma clear_array_eq: "n \<le> length p \<Longrightarrow> clear_array p n = replicate n 0 @ drop n p"
proof (induction n)
  case (Suc n)
  then have "drop n p = p ! n # drop (Suc n) p" by (simp add: Cons_nth_drop_Suc)
  with Suc show ?case by (simp add: clear_array_def list_update_append replicate_append_same)
qed (simp add: clear_array_def)

lemma clear_array_collected: "length acc \<le> 64 \<Longrightarrow> clear_array (collected acc) 64 = collected []"
  by (simp add: clear_array_eq collected_def)

lemma save_word_run:
  assumes "allocates E heap" and "heap (p # ps) s" and "valid_range p 64" and "length w < 64" and "0 \<notin> set w"
    and "valid_range cmds 256" and "k < 32"
  shows "\<exists>t. save_word E cmds (of_nat k) (collected w) s = Ok ((), t) \<and> heap ps t \<and>
    kmem t = put_at (put_at (kmem s) p w) (cmds + of_nat (8 * k)) (word_bytes p)"
proof -
  obtain u where u: "malloc E 64 s = Ok (p, u)" "kmem u = kmem s" "heap ps u"
    using assms(1,2) unfolding allocates_def by blast
  let ?t = "u\<lparr>kmem := put_at (put_at (kmem s) p w) (cmds + of_nat (8 * k)) (word_bytes p)\<rparr>"
  have "valid_range p (length w)" using assms(4) by (intro valid_range_mono [OF assms(3)]) simp
  then have "save_word E cmds (of_nat k) (collected w) s = Ok ((), ?t)"
    using u(1,2) put_bytes_run [of p w u]
    by (simp add: save_word_def bnd_Ok takeWhile_collected [OF assms(4,5)] pointer_run [OF assms(6,7)])
  moreover have "heap ps ?t" using assms(1) u(3) unfolding allocates_def by blast
  ultimately show ?thesis by auto
qed

lemma first_field: "takeWhile (\<lambda>c. c \<notin> D) xs \<in> set (Libc_String.fields D xs)"
proof (cases "dropWhile (\<lambda>c. c \<notin> D) xs")
  case Nil
  then have "takeWhile (\<lambda>c. c \<notin> D) xs = xs" using takeWhile_dropWhile_id [of "\<lambda>c. c \<notin> D" xs] by simp
  with Nil show ?thesis by (subst Libc_String.fields.simps) (simp only: list.case list.set insertI1)
next
  case (Cons d r)
  then show ?thesis by (subst Libc_String.fields.simps) simp
qed

lemma first_field_long: "set acc \<inter> D = {} \<Longrightarrow> \<exists>w \<in> set (Libc_String.fields D (acc @ cs)). length acc \<le> length w"
proof
  assume "set acc \<inter> D = {}"
  then show "length acc \<le> length (takeWhile (\<lambda>c. c \<notin> D) (acc @ cs))" by (subst takeWhile_append2) auto
qed (rule first_field)

lemma tokenize_from:
  assumes "layout str cs cmds ps" and "allocates E heap" and "length ws = length ps" and "length cs < 2 ^ 31"
    and "\<forall>w \<in> set ws. length w < 64 \<and> 0 \<notin> set w"
  shows "drop j cs = rest \<Longrightarrow> j \<le> length cs \<Longrightarrow> ws = take k ws @ words_from acc rest \<Longrightarrow> k \<le> length ws \<Longrightarrow>
    stored str cs cmds ps ws k (kmem s) \<Longrightarrow> heap (drop k ps) s \<Longrightarrow> set acc \<inter> whitespace = {} \<Longrightarrow> 0 \<notin> set acc \<Longrightarrow>
    \<forall>w \<in> set (Libc_String.fields whitespace (acc @ rest)). length w < 64 \<Longrightarrow>
    \<exists>t acc'. loopM (tokenize_step E cmds) (str + of_nat j, collected acc, of_nat k, acc \<noteq> [], length acc) s =
        Ok ((collected acc', of_nat (length ws), length acc'), t) \<and> length acc' < 64 \<and> stored str cs cmds ps ws (length ws) (kmem t)"
proof (induction rest arbitrary: j k acc s)
  case Nil
  then have j: "j = length cs" by simp
  have "length ws \<le> k" using Nil.prems(3) by (metis append_Nil2 length_take min.bounded_iff order_refl words_from.simps(1))
  then have k: "k = length ws" using Nil.prems(4) by simp
  have c: "cstr (kmem s) str cs" using Nil.prems(5) by (simp add: stored_def)
  have a: "length acc < 64" using Nil.prems(7,9) by (simp add: fields_no_delimiter)
  have "tokenize_step E cmds (str + of_nat j, collected acc, of_nat k, acc \<noteq> [], length acc) s =
      Ok (Inr (collected acc, of_nat k, length acc), s)"
    using cstr_char [OF c, of "length cs"] j by (simp add: tokenize_step_def)
  then show ?case using k a Nil.prems(5) by (auto simp: loopM_exit)
next
  case (Cons c rest)
  have l: "j < length cs" using Cons.prems(1) by (cases "j < length cs") simp_all
  have cj: "cs ! j = c" "drop (Suc j) cs = rest" using Cons.prems(1) l by (simp_all add: Cons_nth_drop_Suc [symmetric])
  have cstr: "cstr (kmem s) str cs" using Cons.prems(5) by (simp add: stored_def)
  have ld: "str + of_nat j \<noteq> NULL" "kmem s (str + of_nat j) = c" "c \<noteq> 0"
    using cstr_char [OF cstr, of j] cstr_nth_nonzero [OF cstr, of j] l cj(1) by (simp_all add: nth_append)
  obtain w where "w \<in> set (Libc_String.fields whitespace (acc @ c # rest))" "length acc \<le> length w"
    using first_field_long [OF Cons.prems(7)] by blast
  with Cons.prems(9) have a: "length acc < 64" by force
  consider (char) "is_whitespace c = 0" | (word_end) "is_whitespace c \<noteq> 0" "acc \<noteq> []" | (gap) "is_whitespace c \<noteq> 0" "acc = []" by blast
  then show ?case
  proof cases
    case char
    have "tokenize_step E cmds (str + of_nat j, collected acc, of_nat k, acc \<noteq> [], length acc) s =
        Ok (Inl (str + of_nat (Suc j), collected (acc @ [c]), of_nat k, acc @ [c] \<noteq> [], length (acc @ [c])), s)"
      using ld char a by (simp add: tokenize_step_def collected_snoc add_ac)
    note step = loopM_continue [of "tokenize_step E cmds", OF this]
    show ?thesis unfolding step
      using Cons.prems char ld(3) l cj(2) by (intro Cons.IH) auto
  next
    case word_end
    define w where "w = ws ! k"
    have words: "words_from acc (c # rest) = acc # words_from [] rest" using word_end by simp
    have kl: "k < length ws" using Cons.prems(3,4) words by (metis append_Nil2 le_neq_implies_less list.discI self_append_conv take_all_iff)
    have acc: "ws ! k = acc" "ws = take (Suc k) ws @ words_from [] rest"
      using Cons.prems(3) kl unfolding words by (metis nth_append_length length_take min.absorb2 Cons.prems(4))
        (metis Cons.prems(3) append.assoc append_Cons append_Nil kl words take_Suc_conv_app_nth nth_append_length length_take min.absorb2 Cons.prems(4))
    have p: "drop k ps = ps ! k # drop (Suc k) ps" using kl assms(3) by (simp add: Cons_nth_drop_Suc)
    have lay: "valid_range (ps ! k) 64" "valid_range cmds 256" "k < 32" using assms(1,3) kl by (auto simp: layout_def)
    obtain u where u: "save_word E cmds (of_nat k) (collected acc) s = Ok ((), u)" "heap (drop (Suc k) ps) u"
        "kmem u = put_at (put_at (kmem s) (ps ! k) acc) (cmds + of_nat (8 * k)) (word_bytes (ps ! k))"
      using save_word_run [OF assms(2) Cons.prems(6) [unfolded p] lay(1) a Cons.prems(8) lay(2,3)] by blast
    have st: "stored str cs cmds ps ws (Suc k) (kmem u)"
      using stored_save [OF assms(1) Cons.prems(5) _ assms(3,5)] kl assms(3) unfolding u(3) acc(1) by simp
    have "tokenize_step E cmds (str + of_nat j, collected acc, of_nat k, acc \<noteq> [], length acc) s =
        Ok (Inl (str + of_nat (Suc j), collected [], of_nat (Suc k), [] \<noteq> ([] :: bytes), length ([] :: bytes)), u)"
      using ld word_end a u(1) lay(3) by (simp add: tokenize_step_def collected_nul bnd_Ok bnd_inc clear_array_collected add_ac del: of_nat_Suc)
        (simp add: add_ac)
    note step = loopM_continue [of "tokenize_step E cmds", OF this]
    have "Libc_String.fields whitespace (acc @ c # rest) = acc # Libc_String.fields whitespace rest"
      using word_end(1) by (intro fields_delimiter Cons.prems(7)) simp
    then show ?thesis unfolding step
      using Cons.prems(9) cj(2) l acc(2) kl st u(2) by (intro Cons.IH) auto
  next
    case gap
    have "tokenize_step E cmds (str + of_nat j, collected acc, of_nat k, acc \<noteq> [], length acc) s =
        Ok (Inl (str + of_nat (Suc j), collected acc, of_nat k, acc \<noteq> [], length acc), s)"
      using ld gap by (simp add: tokenize_step_def add_ac)
    note step = loopM_continue [of "tokenize_step E cmds", OF this]
    have "Libc_String.fields whitespace (c # rest) = [] # Libc_String.fields whitespace rest"
      using fields_delimiter [of "[]" whitespace c rest] gap(1) by simp
    then show ?thesis unfolding step
      using Cons.prems gap cj(2) l by (intro Cons.IH) auto
  qed
qed

lemma tokenize_run:
  assumes "layout str cs cmds ps" and "allocates E heap" and "heap (cmds # ps) s" and "stored str cs cmds ps ws 0 (kmem s)"
    and "length cs < 2 ^ 31" and "ws = words_from [] cs" and "length ps = length ws"
    and "\<forall>w \<in> set (Libc_String.fields whitespace cs). length w < 64"
  shows "\<exists>t. tokenize_string E str s = Ok (cmds, t) \<and> argument_at (kmem t) cmds (length ws) = NULL \<and>
    (\<forall>i < length ws. argument_at (kmem t) cmds i = ps ! i \<and> cstr (kmem t) (ps ! i) (ws ! i))"
proof -
  obtain s1 where s1: "malloc E 256 s = Ok (cmds, s1)" "kmem s1 = kmem s" "heap ps s1"
    using assms(2,3) unfolding allocates_def by blast
  have nz: "0 \<notin> set cs" using assms(4) cstr_nonzero by (auto simp: stored_def)
  have f: "ws = filter (\<lambda>w. w \<noteq> []) (butlast (Libc_String.fields whitespace cs))"
    using words_from_fields [of "[]" cs] assms(6) by simp
  have "set ws \<subseteq> set (Libc_String.fields whitespace cs)" unfolding f by (auto dest: in_set_butlastD)
  moreover have "\<forall>w \<in> set ws. 0 \<notin> set w" using words_from_nonzero [of "[]" cs] nz assms(6) by simp
  ultimately have w: "\<forall>w \<in> set ws. length w < 64 \<and> 0 \<notin> set w" using assms(8) by blast
  from tokenize_from [OF assms(1,2) assms(7) [symmetric] assms(5) this, of 0 cs 0 "[]" s1] s1 assms(4,6,8)
  obtain t acc where t: "loopM (tokenize_step E cmds) (str, collected [], 0, False, 0) s1 =
        Ok ((collected acc, of_nat (length ws), length acc), t)" "length acc < 64" "stored str cs cmds ps ws (length ws) (kmem t)"
    by auto
  have v: "valid_range cmds 256" "length ws < 32" using assms(1,7) by (auto simp: layout_def)
  let ?t = "t\<lparr>kmem := put_at (kmem t) (cmds + of_nat (8 * length ws)) (word_bytes NULL)\<rparr>"
  have "clear_array (replicate 64 0) 64 = collected []" using clear_array_collected [of "[]"] by (simp add: collected_def)
  then have "tokenize_string E str s = Ok (cmds, ?t)"
    using s1(1) t(1,2) by (simp add: tokenize_string_def bnd_Ok pointer_run [OF v])
  moreover have "argument_at (kmem ?t) cmds (length ws) = NULL" using pointer_stored [OF v(2) v(2)] by simp
  moreover have "argument_at (kmem ?t) cmds i = ps ! i \<and> cstr (kmem ?t) (ps ! i) (ws ! i)" if i: "i < length ws" for i
  proof
    have st: "argument_at (kmem t) cmds i = ps ! i" "cstr (kmem t) (ps ! i) (ws ! i)" using t(3) i by (auto simp: stored_def)
    then show "argument_at (kmem ?t) cmds i = ps ! i" using pointer_stored [OF v(2), of i] i v(2) by simp
    have "length (ws ! i) < 64" using w nth_mem [OF i] by blast
    moreover have "clear_of cmds 256 (ps ! i) 63" "8 * length ws + 8 \<le> 256"
      using assms(1,7) i v(2) by (auto simp: layout_def)
    then have "clear_of (cmds + of_nat (8 * length ws)) 8 (ps ! i) 63" by (rule clear_of_inside)
    ultimately show "cstr (kmem ?t) (ps ! i) (ws ! i)"
      using st(2) clear_of_cstr [OF clear_of_mono [of _ 8 _ 63 8], of "cmds + of_nat (8 * length ws)" "ps ! i" "ws ! i" "word_bytes NULL" "kmem t"] by simp
  qed
  ultimately show ?thesis by blast
qed


text \<open>A program whose memory is handed out in steps of 0x100 bytes, from the address kept in \<open>getc_pos\<close> on.\<close>

definition bump_program :: "user_state program" where
  "bump_program = \<lparr>invoke = (\<lambda>_ _ s. Ok (getc_pos s, s\<lparr>getc_pos := getc_pos s + 0x100\<rparr>)), lit_at = (\<lambda>_. NULL), local_at = (\<lambda>_. NULL)\<rparr>"

definition bump_heap :: "ptr list \<Rightarrow> user_state \<Rightarrow> bool" where
  "bump_heap ps s \<longleftrightarrow> (\<forall>i < length ps. ps ! i = getc_pos s + 0x100 * of_nat i)"

lemma bump_allocates: "allocates bump_program bump_heap"
proof -
  have "bump_heap ps (s\<lparr>getc_pos := p + 0x100\<rparr>)" if "bump_heap (p # ps) s" for p ps s
  proof -
    have "(p # ps) ! Suc i = getc_pos s + 0x100 * of_nat (Suc i)" "p = getc_pos s" if "i < length ps" for i
      using \<open>bump_heap (p # ps) s\<close> that unfolding bump_heap_def by (metis Suc_less_eq length_Cons, force)
    then show ?thesis by (simp add: bump_heap_def algebra_simps)
  qed
  moreover have "p = getc_pos s" if "bump_heap (p # ps) s" for p ps s using that by (force simp: bump_heap_def)
  ultimately show ?thesis by (auto simp: allocates_def malloc_def mmap_def bump_program_def) (simp add: bump_heap_def)
qed


text \<open>
  C27: The shell does not survive an empty line: if the array of words starts with the null pointer, \<^verbatim>\<open>execute\<close> hands that
  null pointer to \<^verbatim>\<open>strcmp\<close>, which reads through it.
\<close>

theorem execute_blank_line:
  assumes "shell_cmds \<noteq> NULL" and "argument_at (kmem s) shell_cmds 0 = NULL"
    and "valid_range (local_at E ''execute.envp'') 16" and "valid_range (local_at E ''execute.argv'') 256"
    and "clear_of (local_at E ''execute.envp'') 16 shell_cmds 7"
  shows "execute E shell_cmds s = Fault NullDeref"
proof -
  let ?e = "local_at E ''execute.envp''" and ?a = "local_at E ''execute.argv''"
  let ?m = "put_at (put_at (kmem s) ?e (word_bytes (lit_at E ''/bin:''))) (?e + 8) (word_bytes NULL)"
  have v: "valid_range ?e 8" "valid_range (?e + 8) 8" "valid_range ?a 8"
    using valid_range_mono [OF assms(3), of 8] valid_range_later [OF assms(3), of 8 8] valid_range_mono [OF assms(4), of 8] by simp_all
  have c: "clear_of ?e 8 shell_cmds 7" "clear_of (?e + 8) 8 shell_cmds 7"
    using clear_of_inside [OF assms(5), of 0 8] clear_of_inside [OF assms(5), of 8 8] by simp_all
  have "bytes_at ?m shell_cmds 8 = bytes_at (kmem s) shell_cmds 8"
    using clear_of_bytes_at [OF c(1), of "word_bytes (lit_at E ''/bin:'')" 8] clear_of_bytes_at [OF c(2), of "word_bytes NULL" 8] by simp
  then have "loopM (execute_copy_step shell_cmds ?a) 0 (s\<lparr>kmem := ?m\<rparr>) = Ok (0, s\<lparr>kmem := ?m\<rparr>)"
    using assms(1,2) by (intro loopM_exit) (simp add: execute_copy_step_def load64_def)
  note copy = this
  have a: "?a \<noteq> NULL" using assms(4) by (simp add: valid_range_def)
  have "le_word (bytes_at (put_at m ?a (word_bytes NULL)) ?a 8) = NULL" for m
    using bytes_at_put_at [of "word_bytes NULL" m ?a] by simp
  moreover have "strcmp NULL q t = Fault NullDeref" for q and t :: "'a user_state_scheme"
    unfolding strcmp_def by (rule loopM_fault) (simp add: strcmp_step_def char_at_def load_def bnd_def)
  ultimately show ?thesis
    using copy a by (simp add: execute_def Let_def bnd_Ok store64_run [OF v(1)] store64_run [OF v(2)] store64_run [OF v(3)] load64_def)
      (simp add: bnd_def)
qed

theorem execute_blank_line_witness:
  "execute (bump_program\<lparr>local_at := (\<lambda>n. if n = ''execute.envp'' then 0x3000 else 0x4000)\<rparr>) 0x1000 (user_machine (\<lambda>_. 0)) = Fault NullDeref"
proof -
  let ?E = "bump_program\<lparr>local_at := (\<lambda>n. if n = ''execute.envp'' then 0x3000 else 0x4000)\<rparr>"
  have "clear_of 0x3000 16 0x1000 7" by (rule clear_of_below) simp_all
  moreover have "argument_at (kmem (user_machine (\<lambda>_. 0))) 0x1000 0 = NULL" by (simp add: bytes_at_def upt_rec)
  ultimately show ?thesis using execute_blank_line [of "0x1000" "user_machine (\<lambda>_. 0)" ?E] by (simp add: valid_range_def)
qed

end
