(* ===== verification/Ahci.thy ===== *)
theory Ahci
  imports Memory_Regions
begin

unbundle bit_operations_syntax

text \<open>
  The disk driver, \<^verbatim>\<open>sys/ahci.c\<close> with \<^verbatim>\<open>include/sys/ahci.h\<close>. The registers of a controller are a record, the
  command list and the command tables are bytes in memory, at the offsets of the packed structures. The
  device is a parameter of the state: what a write to a register does, and how registers and memory have
  changed by the time a register is read.
\<close>

section \<open>Registers\<close>

definition HBA_PxCMD_ST :: u32 where "HBA_PxCMD_ST = 0x1"
definition HBA_PxCMD_FRE :: u32 where "HBA_PxCMD_FRE = 0x10"
definition HBA_PxCMD_FR :: u32 where "HBA_PxCMD_FR = 0x4000"
definition HBA_PxCMD_CR :: u32 where "HBA_PxCMD_CR = 0x8000"
definition HBA_PxIS_TFES :: u32 where "HBA_PxIS_TFES = 0x40000000"

definition SATA_SIG_ATAPI :: u32 where "SATA_SIG_ATAPI = 0xEB140101"
definition SATA_SIG_SEMB :: u32 where "SATA_SIG_SEMB = 0xC33C0101"
definition SATA_SIG_PM :: u32 where "SATA_SIG_PM = 0x96690101"

definition AHCI_DEV_SATAPI :: u32 where "AHCI_DEV_SATAPI = 1"
definition AHCI_DEV_SEMB :: u32 where "AHCI_DEV_SEMB = 2"
definition AHCI_DEV_PM :: u32 where "AHCI_DEV_PM = 3"
definition AHCI_DEV_SATA :: u32 where "AHCI_DEV_SATA = 4"

definition ATA_STATUS_DRQ :: u32 where "ATA_STATUS_DRQ = 0x08"
definition ATA_STATUS_BSY :: u32 where "ATA_STATUS_BSY = 0x80"
definition CMD_FIS_DEV_LBA :: u8 where "CMD_FIS_DEV_LBA = 0x40"
definition DMA_WRITE_EXT :: u8 where "DMA_WRITE_EXT = 0x35"
definition DMA_READ_EXT :: u8 where "DMA_READ_EXT = 0x25"
definition FIS_TYPE_REG_H2D :: u8 where "FIS_TYPE_REG_H2D = 0x27"
definition AHCI_BASE :: u64 where "AHCI_BASE = 0x3FC0000"

record hba_port =
  clb :: u64
  fb :: u64
  is_rwc :: u32
  ie :: u32
  cmd :: u32
  tfd :: u32
  sig :: u32
  ssts :: u32
  sctl :: u32
  serr_rwc :: u32
  sact :: u32
  ci :: u32
  sntf_rwc :: u32
  fbs :: u32

record hba_mem =
  cap :: u32
  ghc :: u32
  pi :: u32
  hba_ports :: "nat \<Rightarrow> hba_port"

text \<open>The registers the driver writes, and a port as the address of its controller and its number.\<close>

datatype hba_reg = Ghc | Clb | Fb | Is_rwc | Cmd | Ci

type_synonym port_ref = "ptr \<times> nat"

record disk_state = util_state +
  hba_at :: "ptr \<Rightarrow> hba_mem"
  hba_time :: nat
  hba_react :: "hba_reg \<Rightarrow> nat \<Rightarrow> u64 \<Rightarrow> hba_mem \<Rightarrow> hba_mem"
  hba_poll :: "nat \<Rightarrow> ptr \<Rightarrow> hba_mem \<times> (ptr \<Rightarrow> u8) \<Rightarrow> hba_mem \<times> (ptr \<Rightarrow> u8)"

definition poll :: "ptr \<Rightarrow> 'z disk_state_scheme \<Rightarrow> 'z disk_state_scheme" where
  "poll h s =
     (let (r, m) = hba_poll s (hba_time s) h (hba_at s h, kmem s)
      in s\<lparr>hba_at := (hba_at s)(h := r), kmem := m, hba_time := Suc (hba_time s)\<rparr>)"

definition read_hba :: "ptr \<Rightarrow> (hba_mem \<Rightarrow> 'a) \<Rightarrow> ('z disk_state_scheme, 'a) kop" where
  "read_hba h f = deref h (bnd (modify (poll h)) (\<lambda>_. gets (\<lambda>s. f (hba_at s h))))"

definition write_hba :: "ptr \<Rightarrow> hba_reg \<Rightarrow> nat \<Rightarrow> u64 \<Rightarrow> ('z disk_state_scheme, unit) kop" where
  "write_hba h r i v = deref h (modify (\<lambda>s. s\<lparr>hba_at := (hba_at s)(h := hba_react s r i v (hba_at s h))\<rparr>))"

definition read_port :: "port_ref \<Rightarrow> (hba_port \<Rightarrow> 'a) \<Rightarrow> ('z disk_state_scheme, 'a) kop" where
  "read_port p f = read_hba (fst p) (\<lambda>r. f (hba_ports r (snd p)))"

definition write_port :: "port_ref \<Rightarrow> hba_reg \<Rightarrow> u64 \<Rightarrow> ('z disk_state_scheme, unit) kop" where
  "write_port p r v = write_hba (fst p) r (snd p) v"

section \<open>Ports\<close>

definition find_type :: "port_ref \<Rightarrow> ('z disk_state_scheme, u32) kop" where
  "find_type p =
     bnd (read_port p ssts) (\<lambda>st.
     if drop_bit 8 st AND 0xF \<noteq> 1 then ret 0
     else if st AND 0xF \<noteq> 3 then ret 0
     else
       bnd (read_port p sig) (\<lambda>g.
       ret (if g = SATA_SIG_ATAPI then AHCI_DEV_SATAPI
            else if g = SATA_SIG_SEMB then AHCI_DEV_SEMB
            else if g = SATA_SIG_PM then AHCI_DEV_PM
            else AHCI_DEV_SATA)))"

text \<open>The loop over at most \<open>n\<close> more slots, from slot \<open>i\<close> on.\<close>

fun slot_from :: "nat \<Rightarrow> nat \<Rightarrow> u32 \<Rightarrow> nat option" where
  "slot_from 0 i free_slots = None"
| "slot_from (Suc n) i free_slots =
     (if free_slots AND 1 = 0 then Some i else slot_from n (Suc i) (drop_bit 1 free_slots))"

definition find_slot :: "port_ref \<Rightarrow> ('z disk_state_scheme, u32) kop" where
  "find_slot p =
     bnd (read_port p sact) (\<lambda>a.
     bnd (read_port p ci) (\<lambda>b.
     case slot_from 32 0 (a OR b) of
       Some i \<Rightarrow> ret (of_nat i)
     | None \<Rightarrow> bnd (kprintf ''no free slot found\<newline>'' []) (\<lambda>_. ret (- 1))))"

definition set_cmd :: "port_ref \<Rightarrow> (u32 \<Rightarrow> u32) \<Rightarrow> ('z disk_state_scheme, unit) kop" where
  "set_cmd p f = bnd (read_port p cmd) (\<lambda>v. write_port p Cmd (ucast (f v)))"

definition start_cmd :: "port_ref \<Rightarrow> ('z disk_state_scheme, unit) kop" where
  "start_cmd p =
     bnd (loopM (\<lambda>_ :: unit. bnd (read_port p cmd) (\<lambda>v.
       ret (if v AND HBA_PxCMD_CR \<noteq> 0 then Inl () else Inr ()))) ()) (\<lambda>_.
     bnd (set_cmd p (\<lambda>v. v OR HBA_PxCMD_FRE)) (\<lambda>_.
     set_cmd p (\<lambda>v. v OR HBA_PxCMD_ST)))"

definition stop_wait :: "port_ref \<Rightarrow> unit \<Rightarrow> ('z disk_state_scheme, unit + unit) kop" where
  "stop_wait p = (\<lambda>_.
     bnd (read_port p cmd) (\<lambda>v.
     if v AND HBA_PxCMD_FR \<noteq> 0 then ret (Inl ())
     else
       bnd (read_port p cmd) (\<lambda>v.
       ret (if v AND HBA_PxCMD_CR \<noteq> 0 then Inl () else Inr ()))))"

definition stop_cmd :: "port_ref \<Rightarrow> ('z disk_state_scheme, unit) kop" where
  "stop_cmd p =
     bnd (set_cmd p (\<lambda>v. v AND NOT HBA_PxCMD_ST)) (\<lambda>_.
     bnd (loopM (stop_wait p) ()) (\<lambda>_.
     set_cmd p (\<lambda>v. v AND NOT HBA_PxCMD_FRE)))"

section \<open>The command list\<close>

definition store16 :: "ptr \<Rightarrow> u16 \<Rightarrow> ('z util_state_scheme, unit) kop" where
  "store16 p w = bnd (store p (ucast w)) (\<lambda>_. store (p + 1) (ucast (drop_bit 8 w)))"

definition change_byte :: "ptr \<Rightarrow> (u8 \<Rightarrow> u8) \<Rightarrow> ('z util_state_scheme, unit) kop" where
  "change_byte p f = bnd (load p) (\<lambda>b. store p (f b))"

definition sizeof_cmd_header :: u64 where "sizeof_cmd_header = 32"
definition sizeof_cmd_tbl :: u64 where "sizeof_cmd_tbl = 256"
definition sizeof_prdt_entry :: u64 where "sizeof_prdt_entry = 16"

definition prdtl :: "ptr \<Rightarrow> ('z util_state_scheme, u16) kop" where
  "prdtl hdr = load16 (hdr + 2)"

definition ctba :: "ptr \<Rightarrow> ('z util_state_scheme, ptr) kop" where
  "ctba hdr = load64 (hdr + 8)"

definition prdt_entry :: "ptr \<Rightarrow> nat \<Rightarrow> ptr" where
  "prdt_entry tbl i = tbl + 0x80 + sizeof_prdt_entry * of_nat i"

text \<open>The byte count has 22 bits, the interrupt flag is the highest bit of the same word.\<close>

definition set_prdt :: "ptr \<Rightarrow> ptr \<Rightarrow> u32 \<Rightarrow> ('z util_state_scheme, unit) kop" where
  "set_prdt e dba dbc =
     bnd (store64 e dba) (\<lambda>_.
     bnd (load32 (e + 12)) (\<lambda>w.
     bnd (store32 (e + 12) ((w AND NOT 0x3FFFFF) OR (dbc AND 0x3FFFFF))) (\<lambda>_.
     bnd (load32 (e + 12)) (\<lambda>w.
     store32 (e + 12) (w AND NOT 0x80000000)))))"

definition prdt_step :: "ptr \<Rightarrow> ptr \<Rightarrow> nat \<times> u16 \<times> ptr \<Rightarrow> ('z util_state_scheme, nat \<times> u16 \<times> ptr + nat \<times> u16 \<times> ptr) kop" where
  "prdt_step hdr tbl = (\<lambda>(i, sectors, buf).
     bnd (prdtl hdr) (\<lambda>n.
     if int i < uint n - 1 then
       bnd (set_prdt (prdt_entry tbl i) buf (8 * 1024 - 1)) (\<lambda>_. ret (Inl (Suc i, sectors - 16, buf + 4 * 1024)))
     else ret (Inr (i, sectors, buf))))"

text \<open>The table of regions; the result is the number of sectors left for the last one.\<close>

definition fill_prdt :: "ptr \<Rightarrow> ptr \<Rightarrow> u16 \<Rightarrow> ptr \<Rightarrow> ('z util_state_scheme, u16) kop" where
  "fill_prdt hdr tbl sectors buf =
     bnd (loopM (prdt_step hdr tbl) (0, sectors, buf)) (\<lambda>(i, sectors, buf).
     bnd (set_prdt (prdt_entry tbl i) buf (push_bit 9 (ucast sectors))) (\<lambda>_.
     ret sectors))"

definition fill_fis :: "ptr \<Rightarrow> u8 \<Rightarrow> u32 \<Rightarrow> u32 \<Rightarrow> u16 \<Rightarrow> ('z util_state_scheme, unit) kop" where
  "fill_fis tbl opcode startl starth sectors =
     bnd (store tbl FIS_TYPE_REG_H2D) (\<lambda>_.
     bnd (change_byte (tbl + 1) (\<lambda>b. b OR 0x80)) (\<lambda>_.
     bnd (store (tbl + 2) opcode) (\<lambda>_.
     bnd (store (tbl + 4) (ucast startl)) (\<lambda>_.
     bnd (store (tbl + 5) (ucast (drop_bit 8 startl))) (\<lambda>_.
     bnd (store (tbl + 6) (ucast (drop_bit 16 startl))) (\<lambda>_.
     bnd (store (tbl + 7) CMD_FIS_DEV_LBA) (\<lambda>_.
     bnd (store (tbl + 8) (ucast (drop_bit 24 startl))) (\<lambda>_.
     bnd (store (tbl + 9) (ucast starth)) (\<lambda>_.
     bnd (store (tbl + 10) (ucast (drop_bit 8 starth))) (\<lambda>_.
     store16 (tbl + 12) sectors))))))))))"

section \<open>Transfers\<close>

definition spin_step :: "port_ref \<Rightarrow> nat \<Rightarrow> ('z disk_state_scheme, nat + nat) kop" where
  "spin_step p spin =
     bnd (read_port p tfd) (\<lambda>v.
     ret (if v AND (ATA_STATUS_BSY OR ATA_STATUS_DRQ) \<noteq> 0 \<and> spin < 1000000 then Inl (Suc spin) else Inr spin))"

text \<open>Waiting for the command in \<open>slot\<close>; the result tells whether there was no error.\<close>

definition done_step :: "port_ref \<Rightarrow> nat \<Rightarrow> ('z disk_state_scheme, unit) kop \<Rightarrow> unit \<Rightarrow> ('z disk_state_scheme, unit + bool) kop" where
  "done_step p slot report = (\<lambda>_.
     bnd (read_port p ci) (\<lambda>v.
     if v AND push_bit slot 1 = 0 then ret (Inr True)
     else
       bnd (read_port p is_rwc) (\<lambda>w.
       if w AND HBA_PxIS_TFES \<noteq> 0 then bnd report (\<lambda>_. ret (Inr False))
       else ret (Inl ()))))"

definition issue_command :: "port_ref \<Rightarrow> nat \<Rightarrow> ('z disk_state_scheme, unit) kop \<Rightarrow> ('z disk_state_scheme, u32) kop" where
  "issue_command p slot report =
     bnd (loopM (spin_step p) 0) (\<lambda>spin.
     if spin = 1000000 then bnd (kprintf ''Port is hung\<newline>'' []) (\<lambda>_. ret 0)
     else
       bnd (write_port p Ci (push_bit slot 1)) (\<lambda>_.
       bnd (loopM (done_step p slot report) ()) (\<lambda>b.
       if \<not> b then ret 0
       else
         bnd (read_port p is_rwc) (\<lambda>w.
         if w AND HBA_PxIS_TFES \<noteq> 0 then bnd report (\<lambda>_. ret 0) else ret 1))))"

text \<open>The part both functions have in common behind the first fields of the command header.\<close>

definition transfer :: "port_ref \<Rightarrow> nat \<Rightarrow> ptr \<Rightarrow> u8 \<Rightarrow> u32 \<Rightarrow> u32 \<Rightarrow> u16 \<Rightarrow> ptr \<Rightarrow> ('z disk_state_scheme, unit) kop \<Rightarrow>
    ('z disk_state_scheme, u32) kop" where
  "transfer p slot hdr opcode startl starth sectors buf report =
     bnd (store16 (hdr + 2) (ucast (drop_bit 4 (ucast sectors - 1 :: u32) + 1))) (\<lambda>_.
     bnd (ctba hdr) (\<lambda>tbl.
     bnd (prdtl hdr) (\<lambda>n.
     bnd (my_memset tbl 0 (sizeof_cmd_tbl + ucast n * sizeof_prdt_entry)) (\<lambda>_.
     bnd (fill_prdt hdr tbl sectors buf) (\<lambda>sectors.
     bnd (fill_fis tbl opcode startl starth sectors) (\<lambda>_.
     issue_command p slot report))))))"

definition write_report :: "port_ref \<Rightarrow> ('z disk_state_scheme, unit) kop" where
  "write_report p =
     bnd (read_port p ssts) (\<lambda>v.
     bnd (kprintf ''sata status: %d\<newline>'' [VInt v]) (\<lambda>_.
     kprintf ''Write disk error\<newline>'' []))"

text \<open>Without a free slot writing returns -1, which its caller does not take for an error.\<close>

definition do_write_to_disk :: "port_ref \<Rightarrow> u32 \<Rightarrow> u32 \<Rightarrow> u16 \<Rightarrow> ptr \<Rightarrow> ('z disk_state_scheme, u32) kop" where
  "do_write_to_disk p startl starth sectors buf =
     bnd (write_port p Is_rwc 0xFFFFFFFF) (\<lambda>_.
     bnd (find_slot p) (\<lambda>slot.
     if slot = - 1 then bnd (kprintf ''No slot available\<newline>'' []) (\<lambda>_. ret (- 1))
     else
       bnd (read_port p clb) (\<lambda>l.
       let hdr = l + sizeof_cmd_header * ucast slot in
       bnd (change_byte hdr (\<lambda>b. (b AND NOT 0x1F) OR 5)) (\<lambda>_.
       bnd (change_byte hdr (\<lambda>b. b OR 0x40)) (\<lambda>_.
       bnd (change_byte (hdr + 1) (\<lambda>b. b OR 4)) (\<lambda>_.
       transfer p (unat slot) hdr DMA_WRITE_EXT startl starth sectors buf (write_report p)))))))"

definition do_read_from_disk :: "port_ref \<Rightarrow> u32 \<Rightarrow> u32 \<Rightarrow> u16 \<Rightarrow> ptr \<Rightarrow> ('z disk_state_scheme, u32) kop" where
  "do_read_from_disk p startl starth sectors buf =
     bnd (write_port p Is_rwc 0xFFFFFFFF) (\<lambda>_.
     bnd (find_slot p) (\<lambda>slot.
     if slot = - 1 then bnd (kprintf ''no slot available\<newline>'' []) (\<lambda>_. ret 0)
     else
       bnd (read_port p clb) (\<lambda>l.
       let hdr = l + sizeof_cmd_header * ucast slot in
       bnd (change_byte hdr (\<lambda>b. (b AND NOT 0x1F) OR 5)) (\<lambda>_.
       bnd (change_byte hdr (\<lambda>b. b AND NOT 0x40)) (\<lambda>_.
       transfer p (unat slot) hdr DMA_READ_EXT startl starth sectors buf (kprintf ''Read disk error\<newline>'' []))))))"

section \<open>Setting up a port and trying the disk\<close>

definition rebase_header :: "ptr \<Rightarrow> nat \<Rightarrow> nat \<Rightarrow> ('z disk_state_scheme, unit) kop" where
  "rebase_header l portno i =
     (let hdr = l + sizeof_cmd_header * of_nat i in
      bnd (store16 (hdr + 2) 64) (\<lambda>_.
      bnd (store64 (hdr + 8) (AHCI_BASE + push_bit 10 40 + 36864 * of_nat portno + 1152 * of_nat i)) (\<lambda>_.
      bnd (ctba hdr) (\<lambda>tbl.
      my_memset tbl 0 1152))))"

definition port_rebase :: "port_ref \<Rightarrow> nat \<Rightarrow> ('z disk_state_scheme, unit) kop" where
  "port_rebase p portno =
     bnd (kprintf ''Port rebase called\<newline>'' []) (\<lambda>_.
     bnd (stop_cmd p) (\<lambda>_.
     bnd (write_port p Clb (AHCI_BASE + push_bit 10 (of_nat portno))) (\<lambda>_.
     bnd (read_port p clb) (\<lambda>l.
     bnd (kprintf ''port->clb is 0x%x\<newline>'' [VInt (ucast l)]) (\<lambda>_.
     bnd (read_port p clb) (\<lambda>l.
     bnd (my_memset l 0 1024) (\<lambda>_.
     bnd (write_port p Fb (AHCI_BASE + push_bit 10 32 + push_bit 8 (of_nat portno))) (\<lambda>_.
     bnd (read_port p fb) (\<lambda>f.
     bnd (my_memset f 0 1024) (\<lambda>_.
     bnd (read_port p clb) (\<lambda>l.
     bnd (for_each [0..<32] (rebase_header l portno)) (\<lambda>_.
     start_cmd p))))))))))))"

definition set_ghc :: "ptr \<Rightarrow> u32 \<Rightarrow> ('z disk_state_scheme, unit) kop" where
  "set_ghc h v = bnd (read_hba h ghc) (\<lambda>g. write_hba h Ghc 0 (ucast (g OR v)))"

definition try_disk :: "ptr \<Rightarrow> nat \<Rightarrow> ('z disk_state_scheme, unit) kop" where
  "try_disk h i =
     (let write_buf = 0x600F000; read_buf = 0x6040000 in
      bnd (set_ghc h 0x80000000) (\<lambda>_.
      bnd (set_ghc h 2) (\<lambda>_.
      bnd (set_ghc h 1) (\<lambda>_.
      bnd (port_rebase (h, i) i) (\<lambda>_.
      bnd (for_each [0..<100] (\<lambda>m. for_each [0..<100] (\<lambda>j.
        store (write_buf + of_nat (100 * m + j)) (of_nat m + 48)))) (\<lambda>_.
      bnd (do_write_to_disk (h, i) 0 0 800 write_buf) (\<lambda>res.
      bnd (if res = 0 then kprintf ''error while writing disk\<newline>'' [] else ret ()) (\<lambda>_.
      bnd (for_each [0..<10000] (\<lambda>m. store (read_buf + of_nat m) 0)) (\<lambda>_.
      bnd (do_read_from_disk (h, i) 0 0 800 read_buf) (\<lambda>res.
      bnd (if res = 0 then kprintf ''error while reading disk\<newline>'' [] else ret ()) (\<lambda>_.
      bnd (for_each [0..<10000] (\<lambda>m. bnd (load (read_buf + of_nat m)) (\<lambda>b. kprintf ''%d'' [VInt (scast b)]))) (\<lambda>_.
      kprintf ''Reading done successfully\<newline>'' []))))))))))))"

definition probe_port :: "ptr \<Rightarrow> u32 \<Rightarrow> nat \<Rightarrow> ('z disk_state_scheme, unit) kop" where
  "probe_port h ports i =
     (if drop_bit i ports AND 1 \<noteq> 0 then
        bnd (find_type (h, i)) (\<lambda>disk_type.
        if disk_type = AHCI_DEV_SATA then try_disk h i
        else if disk_type \<in> {AHCI_DEV_SATAPI, AHCI_DEV_SEMB, AHCI_DEV_PM} then ret ()
        else kprintf ''Wrong disk type\<newline>'' [])
      else ret ())"

definition find_first_disk :: "ptr \<Rightarrow> ('z disk_state_scheme, unit) kop" where
  "find_first_disk h = bnd (read_hba h pi) (\<lambda>ports. for_each [0..<32] (probe_port h ports))"

section \<open>Finding a slot\<close>

lemma and_one_zero: "(w :: u32) AND 1 = 0 \<longleftrightarrow> \<not> bit w 0"
  by (simp add: and_one_eq bit_0 even_iff_mod_2_eq_zero)

lemma slot_from_least:
  "slot_from n i w = (if \<forall>k < n. bit w k then None else Some (i + (LEAST k. \<not> bit w k)))"
proof (induction n arbitrary: i w)
  case (Suc n)
  show ?case
  proof (cases "bit w 0")
    case False
    then have "(LEAST k. \<not> bit w k) = 0" by (intro Least_equality) simp_all
    with False show ?thesis by (auto simp: and_one_zero)
  next
    case True
    define d where "d = drop_bit 1 w"
    have d: "bit w (Suc k) = bit d k" for k by (simp add: d_def bit_drop_bit_eq)
    have step: "slot_from (Suc n) i w = slot_from n (Suc i) d" using True by (simp add: and_one_zero d_def)
    have all: "(\<forall>k < Suc n. bit w k) \<longleftrightarrow> (\<forall>k < n. bit d k)" using True by (auto simp: d less_Suc_eq_0_disj)
    show ?thesis
    proof (cases "\<forall>k < n. bit d k")
      case True
      then show ?thesis unfolding step all by (simp add: Suc.IH)
    next
      case False
      then obtain k where "\<not> bit w (Suc k)" by (auto simp: d)
      from Least_Suc [of "\<lambda>k. \<not> bit w k", OF this] True have "(LEAST k. \<not> bit w k) = Suc (LEAST k. \<not> bit d k)" by (simp add: d)
      with False show ?thesis unfolding step all by (simp add: Suc.IH)
    qed
  qed
qed simp

text \<open>
  C24: \<^verbatim>\<open>find_slot\<close> returns the lowest command slot that is neither active nor issued, according to the two registers as
  it read them, and -1 if and only if all 32 slots are in use.
\<close>

theorem find_slot_lowest:
  assumes "read_port p sact s = Ok (a, u)" and "read_port p ci u = Ok (b, v)"
  shows "if \<forall>i < 32. bit (a OR b) i then \<exists>t. find_slot p s = Ok (- 1, t)
    else find_slot p s = Ok (of_nat (LEAST i. \<not> bit (a OR b) i), v)"
  using assms by (cases "\<forall>i < 32. bit (a OR b) i") (auto simp: find_slot_def bnd_Ok slot_from_least)

section \<open>Stopping the command engine\<close>

text \<open>
  A port keeps receiving, with the flag \<^verbatim>\<open>FR\<close> set, for as long as \<^verbatim>\<open>FRE\<close> is set: a property of the hardware, whatever else
  is written to the register.
\<close>

definition receiving :: "nat \<Rightarrow> hba_mem \<Rightarrow> bool" where
  "receiving i r \<longleftrightarrow> cmd (hba_ports r i) AND HBA_PxCMD_FR \<noteq> 0 \<and> cmd (hba_ports r i) AND HBA_PxCMD_FRE \<noteq> 0"

definition receives_while_enabled :: "port_ref \<Rightarrow> 'z disk_state_scheme \<Rightarrow> bool" where
  "receives_while_enabled p s \<longleftrightarrow>
     (\<forall>n r m. receiving (snd p) r \<longrightarrow> receiving (snd p) (fst (hba_poll s n (fst p) (r, m)))) \<and>
     (\<forall>v r. receiving (snd p) r \<longrightarrow> (ucast v :: u32) AND HBA_PxCMD_FRE \<noteq> 0 \<longrightarrow> receiving (snd p) (hba_react s Cmd (snd p) v r))"

lemma ucast_ucast_u32 [simp]: "ucast (ucast (v :: u32) :: u64) = v"
  by (rule bit_word_eqI) (simp add: bit_unsigned_iff)

lemma poll_fields:
  "hba_poll (poll h s) = hba_poll s" "hba_react (poll h s) = hba_react s"
  "hba_at (poll h s) h = fst (hba_poll s (hba_time s) h (hba_at s h, kmem s))"
  by (simp_all add: poll_def split_beta)

lemma read_port_run: "h \<noteq> NULL \<Longrightarrow> read_port (h, i) f s = Ok (f (hba_ports (hba_at (poll h s) h) i), poll h s)"
  by (simp add: read_port_def read_hba_def)

lemma poll_receiving:
  assumes "receives_while_enabled (h, i) s" and "receiving i (hba_at s h)"
  shows "receives_while_enabled (h, i) (poll h s)" "receiving i (hba_at (poll h s) h)"
  using assms by (simp_all add: receives_while_enabled_def poll_fields)

text \<open>
  C25: \<^verbatim>\<open>stop_cmd\<close> does not end on a port that is receiving: it waits for the flag \<^verbatim>\<open>FR\<close> to go away before it clears \<^verbatim>\<open>FRE\<close>,
  while the hardware keeps \<^verbatim>\<open>FR\<close> set until \<^verbatim>\<open>FRE\<close> is cleared.
\<close>

theorem stop_cmd_waits_forever:
  assumes "h \<noteq> NULL" and "receives_while_enabled (h, i) s" and "receiving i (hba_at s h)"
  shows "stop_cmd (h, i) s = Diverge"
proof -
  let ?I = "\<lambda>(_ :: unit) t. receives_while_enabled (h, i) t \<and> receiving i (hba_at t h)"
  define v where "v = cmd (hba_ports (hba_at (poll h s) h) i) AND NOT HBA_PxCMD_ST"
  define t where "t = (poll h s)\<lparr>hba_at := (hba_at (poll h s))(h := hba_react s Cmd i (ucast v) (hba_at (poll h s) h))\<rparr>"
  have set: "set_cmd (h, i) (\<lambda>v. v AND NOT HBA_PxCMD_ST) s = Ok ((), t)"
    using assms(1) by (simp add: set_cmd_def bnd_Ok read_port_run write_port_def write_hba_def t_def v_def poll_fields)
  have r: "receiving i (hba_at (poll h s) h)" using assms(2,3) by (rule poll_receiving)
  then have "v AND HBA_PxCMD_FRE \<noteq> 0"
    by (simp add: receiving_def v_def HBA_PxCMD_ST_def HBA_PxCMD_FRE_def and.assoc)
  then have "(ucast (ucast v :: u64) :: u32) AND HBA_PxCMD_FRE \<noteq> 0" by simp
  then have "receiving i (hba_react s Cmd i (ucast v) (hba_at (poll h s) h))"
    using assms(2) r unfolding receives_while_enabled_def by (metis snd_conv)
  then have "?I () t" using poll_receiving(1) [OF assms(2,3)] by (simp add: t_def receives_while_enabled_def)
  then have "loopM (stop_wait (h, i)) () t = Diverge"
  proof (rule loopM_diverges)
    fix c u assume "?I c u"
    then have "?I c (poll h u)" using poll_receiving by auto
    then show "\<exists>c' u'. stop_wait (h, i) c u = Ok (Inl c', u') \<and> ?I c' u'"
      using assms(1) by (auto simp: stop_wait_def bnd_Ok read_port_run receiving_def)
  qed
  then show ?thesis using set by (simp add: stop_cmd_def bnd_Ok bnd_def)
qed

text \<open>A controller whose device does nothing by itself and stores what is written to the command register.\<close>

definition idle_port :: hba_port where
  "idle_port = \<lparr>clb = 0, fb = 0, is_rwc = 0, ie = 0, cmd = 0x4011, tfd = 0, sig = 0, ssts = 0, sctl = 0, serr_rwc = 0, sact = 5, ci = 2,
     sntf_rwc = 0, fbs = 0\<rparr>"

definition disk_machine :: "(ptr \<Rightarrow> u8) \<Rightarrow> disk_state" where
  "disk_machine m = util_state.extend (memory_state m)
     \<lparr>hba_at = (\<lambda>_. \<lparr>cap = 0, ghc = 0, pi = 1, hba_ports = (\<lambda>_. idle_port)\<rparr>), hba_time = 0,
      hba_react = (\<lambda>r i v h. if r = Cmd then h\<lparr>hba_ports := (hba_ports h)(i := (hba_ports h i)\<lparr>cmd := ucast v OR (cmd (hba_ports h i) AND 0x4000)\<rparr>)\<rparr> else h),
      hba_poll = (\<lambda>_ _ x. x)\<rparr>"

lemma disk_machine_fields [simp]:
  "kmem (disk_machine m) = m" "hba_at (disk_machine m) h = \<lparr>cap = 0, ghc = 0, pi = 1, hba_ports = (\<lambda>_. idle_port)\<rparr>"
  "hba_poll (disk_machine m) n h x = x"
  "hba_react (disk_machine m) Cmd i v r =
     r\<lparr>hba_ports := (hba_ports r)(i := (hba_ports r i)\<lparr>cmd := ucast v OR (cmd (hba_ports r i) AND 0x4000)\<rparr>)\<rparr>"
  by (simp_all add: disk_machine_def util_state.defs memory_state_def)

theorem find_slot_lowest_witness:
  "\<exists>t. find_slot (0x1000, 0) (disk_machine (\<lambda>_. 0)) = Ok (3, t)"
proof -
  let ?s = "disk_machine (\<lambda>_. 0)"
  have r: "read_port (0x1000, 0) sact ?s = Ok (5, poll 0x1000 ?s)" "read_port (0x1000, 0) ci (poll 0x1000 ?s) = Ok (2, poll 0x1000 (poll 0x1000 ?s))"
    by (simp_all add: read_port_run poll_fields idle_port_def)
  have l: "(LEAST i. \<not> bit (7 :: u32) i) = 3"
  proof (rule Least_equality)
    fix y assume y: "\<not> bit (7 :: u32) y"
    have "bit (7 :: u32) 0" "bit (7 :: u32) 1" "bit (7 :: u32) 2" by simp_all
    with y have "y \<noteq> 0" "y \<noteq> 1" "y \<noteq> 2" by metis+
    then show "3 \<le> y" by linarith
  qed simp
  have "\<not> bit (5 OR 2 :: u32) 3" by simp
  then have n: "\<not> (\<forall>i < 32. bit (5 OR 2 :: u32) i)" by (intro notI) (erule allE [of _ 3], simp)
  have "(5 OR 2 :: u32) = 7" by simp
  with find_slot_lowest [OF r] n l show ?thesis by auto
qed

theorem stop_cmd_waits_forever_witness: "stop_cmd (0x1000, 0) (disk_machine (\<lambda>_. 0)) = Diverge"
proof (rule stop_cmd_waits_forever)
  let ?s = "disk_machine (\<lambda>_. 0)"
  have "((ucast v :: u32) OR (w AND 0x4000)) AND 0x4000 \<noteq> 0" if "w AND 0x4000 \<noteq> 0" for w :: u32 and v :: u64
    using that by (auto simp: and.assoc bit.conj_disj_distrib2 or_eq_0_iff)
  then show "receives_while_enabled (0x1000, 0) ?s"
    by (simp add: receives_while_enabled_def receiving_def HBA_PxCMD_FR_def HBA_PxCMD_FRE_def and.assoc bit.conj_disj_distrib2)
  show "receiving 0 (hba_at ?s 0x1000)" by (simp add: receiving_def idle_port_def HBA_PxCMD_FR_def HBA_PxCMD_FRE_def)
qed simp

section \<open>The table of regions\<close>

definition half_bytes :: "u32 \<Rightarrow> bytes" where
  "half_bytes w = map (\<lambda>i. ucast (drop_bit (8 * i) w)) [0..<4]"

lemma length_half_bytes [simp]: "length (half_bytes w) = 4"
  by (simp add: half_bytes_def)

lemma store32_run: "valid_range p 4 \<Longrightarrow> store32 p w s = Ok ((), s\<lparr>kmem := put_at (kmem s) p (half_bytes w)\<rparr>)"
proof -
  assume "valid_range p 4"
  then have "valid_range p (length (half_bytes w))" by simp
  from store_range [OF this, of "(!) (half_bytes w)" s] show ?thesis by (simp add: put_at_def store32_def half_bytes_def upt_rec)
qed

lemma le_word_half_bytes [simp]: "le_word (half_bytes w) = ucast w"
proof -
  have "ucast (drop_bit n w) = (ucast (drop_bit n (ucast w :: u64)) :: u8)" for n
    by (rule bit_word_eqI) (auto simp: bit_unsigned_iff bit_drop_bit_eq dest: bit_imp_le_length)
  then have "half_bytes w = map (\<lambda>i. ucast (drop_bit (8 * i) (ucast w :: u64))) [0..<4]" by (simp add: half_bytes_def)
  moreover have "take_bit 32 (ucast w :: u64) = ucast w"
    by (rule bit_word_eqI) (auto simp: bit_take_bit_iff bit_unsigned_iff dest: bit_imp_le_length)
  ultimately show ?thesis using le_word_bytes [of "ucast w" 4] by simp
qed

text \<open>The entry at \<open>e\<close> describes \<open>dbc + 1\<close> bytes at \<open>dba\<close>.\<close>

definition half_at :: "(ptr \<Rightarrow> u8) \<Rightarrow> ptr \<Rightarrow> u32" where
  "half_at m p = ucast (le_word (bytes_at m p 4))"

definition region_is :: "(ptr \<Rightarrow> u8) \<Rightarrow> ptr \<Rightarrow> ptr \<Rightarrow> u32 \<Rightarrow> bool" where
  "region_is m e dba dbc \<longleftrightarrow> le_word (bytes_at m e 8) = dba \<and> half_at m (e + 12) AND 0x3FFFFF = dbc"

lemma half_at_put_at: "half_at (put_at m p (half_bytes w)) p = w"
  using bytes_at_put_at [of "half_bytes w" m p] by (simp add: half_at_def)

lemma set_prdt_run:
  assumes "valid_range e 16" and "dbc AND 0x3FFFFF = dbc"
  shows "\<exists>m. set_prdt e dba dbc s = Ok ((), s\<lparr>kmem := m\<rparr>) \<and> region_is m e dba dbc \<and> (\<forall>a. 16 \<le> unat (a - e) \<longrightarrow> m a = kmem s a)"
proof -
  have v: "valid_range e 8" "valid_range (e + 12) 4" "e + 12 \<noteq> NULL"
    using valid_range_mono [OF assms(1), of 8] valid_range_later [OF assms(1), of 12 4] valid_range_nonnull [OF assms(1), of 12] by simp_all
  define m1 where "m1 = put_at (kmem s) e (word_bytes dba)"
  define w1 where "w1 = (half_at m1 (e + 12) AND NOT 0x3FFFFF) OR (dbc AND 0x3FFFFF)"
  define m2 where "m2 = put_at m1 (e + 12) (half_bytes w1)"
  define w2 where "w2 = w1 AND NOT 0x80000000"
  define m3 where "m3 = put_at m2 (e + 12) (half_bytes w2)"
  have l: "load32 (e + 12) t = Ok (half_at (kmem t) (e + 12), t)" for t :: "'a util_state_scheme"
    using v(3) by (simp add: load32_def half_at_def)
  have "set_prdt e dba dbc s = Ok ((), s\<lparr>kmem := m3\<rparr>)"
    by (simp add: set_prdt_def bnd_Ok store64_run [OF v(1)] store32_run [OF v(2)] l half_at_put_at m3_def w2_def m2_def w1_def m1_def)
  moreover have "half_at m3 (e + 12) AND 0x3FFFFF = dbc"
  proof -
    have "(NOT 0x80000000 :: u32) AND 0x3FFFFF = 0x3FFFFF" "(NOT 0x3FFFFF :: u32) AND 0x3FFFFF = 0" by simp_all
    then have "w2 AND 0x3FFFFF = dbc AND 0x3FFFFF"
      unfolding w2_def w1_def by (simp only: and.assoc bit.conj_disj_distrib2 and.idem and_zero_eq or.left_neutral)
    then show ?thesis by (simp add: m3_def half_at_put_at assms(2))
  qed
  moreover have "bytes_at m3 e 8 = word_bytes dba"
  proof -
    have "clear_of (e + 12) 4 e 7"
      using unat_before [of _ 11 e] by (auto simp: clear_of_def intro: order_trans [of _ "2 ^ 32"])
    then have "bytes_at m3 e 8 = bytes_at m1 e 8"
      using clear_of_bytes_at [of "e + 12" 4 e 7 "half_bytes _" 8] by (simp add: m3_def m2_def)
    then show ?thesis using bytes_at_put_at [of "word_bytes dba" "kmem s" e] by (simp add: m1_def)
  qed
  moreover have "m3 a = kmem s a" if "16 \<le> unat (a - e)" for a
  proof -
    have "unat (a - (e + 12)) = unat (a - e) - 12" using unat_behind [of 12 a e] that by simp
    with that show ?thesis by (simp add: m3_def m2_def m1_def put_at_outside)
  qed
  ultimately show ?thesis unfolding region_is_def by (intro exI [of _ m3]) simp
qed

text \<open>The number of regions in the command header, as the driver reads it.\<close>

definition prdtl_at :: "(ptr \<Rightarrow> u8) \<Rightarrow> ptr \<Rightarrow> u16" where
  "prdtl_at m hdr = ucast (le_word (bytes_at m (hdr + 2) 2))"

lemma prdtl_int: "unat (prdtl_at m hdr) = Suc k \<Longrightarrow> uint (prdtl_at m hdr) = int (Suc k)"
  by (metis of_nat_unat)

lemma region_is_cong:
  assumes "\<And>j. j < 16 \<Longrightarrow> m' (e + of_nat j) = m (e + of_nat j)"
  shows "region_is m' e dba dbc = region_is m e dba dbc"
proof -
  have "bytes_at m' e 8 = bytes_at m e 8" using assms by (simp add: bytes_at_def)
  moreover have "m' (e + 12 + of_nat j) = m (e + 12 + of_nat j)" if "j < 4" for j
    using assms [of "12 + j"] that by (simp add: add_ac)
  then have "bytes_at m' (e + 12) 4 = bytes_at m (e + 12) 4" by (simp add: bytes_at_def)
  ultimately show ?thesis by (simp add: region_is_def half_at_def)
qed

lemma prdt_entry_nat: "prdt_entry tbl i = tbl + 0x80 + of_nat (16 * i)"
  by (simp add: prdt_entry_def sizeof_prdt_entry_def)

lemma prdt_loop:
  assumes "valid_range (tbl + 0x80) (16 * Suc k)" and "k < 4096" and "hdr + 2 \<noteq> NULL" and "clear_of (tbl + 0x80) (16 * Suc k) (hdr + 2) 1"
  shows "i \<le> k \<Longrightarrow> unat (prdtl_at (kmem s) hdr) = Suc k \<Longrightarrow>
    \<exists>m. loopM (prdt_step hdr tbl) (i, c, b) s = Ok ((k, c - of_nat (16 * (k - i)), b + of_nat (4096 * (k - i))), s\<lparr>kmem := m\<rparr>) \<and>
      (\<forall>j. i \<le> j \<longrightarrow> j < k \<longrightarrow> region_is m (prdt_entry tbl j) (b + of_nat (4096 * (j - i))) 8191) \<and>
      (\<forall>a. 16 * (k - i) \<le> unat (a - prdt_entry tbl i) \<longrightarrow> m a = kmem s a)"
proof (induction "k - i" arbitrary: i c b s)
  case 0
  then have i: "i = k" by simp
  have l: "prdtl hdr s = Ok (prdtl_at (kmem s) hdr, s)" using assms(3) by (simp add: prdtl_def load16_def prdtl_at_def)
  then have "prdt_step hdr tbl (k, c, b) s = Ok (Inr (k, c, b), s)"
    using prdtl_int [OF "0.prems"(2)] by (simp add: prdt_step_def bnd_Ok)
  then show ?case unfolding i by (intro exI [of _ "kmem s"]) (simp add: loopM_exit)
next
  case (Suc d)
  let ?e = "prdt_entry tbl i" and ?B = "tbl + 0x80"
  have i: "i < k" "k - i = Suc (k - Suc i)" "d = k - Suc i" using Suc.hyps(2) by simp_all
  have l: "prdtl hdr s = Ok (prdtl_at (kmem s) hdr, s)" using assms(3) by (simp add: prdtl_def load16_def prdtl_at_def)
  have in_table: "16 * i + 16 \<le> 16 * Suc k" using i(1) by simp
  then have "valid_range ?e 16" unfolding prdt_entry_nat by (intro valid_range_later [OF assms(1)]) simp_all
  moreover have "(8 * 1024 - 1 :: u32) AND 0x3FFFFF = 8 * 1024 - 1" by simp
  ultimately obtain m1 where m1: "set_prdt ?e b (8 * 1024 - 1) s = Ok ((), s\<lparr>kmem := m1\<rparr>)" "region_is m1 ?e b 8191"
      "\<forall>a. 16 \<le> unat (a - ?e) \<longrightarrow> m1 a = kmem s a"
    using set_prdt_run [of ?e "8 * 1024 - 1" b s] by auto
  have "prdt_step hdr tbl (i, c, b) s = Ok (Inl (Suc i, c - 16, b + 4096), s\<lparr>kmem := m1\<rparr>)"
    using l m1(1) prdtl_int [OF Suc.prems(2)] i(1) by (simp add: prdt_step_def bnd_Ok)
  note step = loopM_continue [of "prdt_step hdr tbl", OF this]
  have "m1 (hdr + 2 + of_nat j) = kmem s (hdr + 2 + of_nat j)" if "j \<le> 1" for j
    using m1(3) clear_of_later [OF assms(4) in_table that] by (simp add: prdt_entry_nat)
  then have "bytes_at m1 (hdr + 2) 2 = bytes_at (kmem s) (hdr + 2) 2" by (simp add: bytes_at_def)
  then have "unat (prdtl_at (kmem (s\<lparr>kmem := m1\<rparr>)) hdr) = Suc k" using Suc.prems(2) by (simp add: prdtl_at_def)
  from Suc.hyps(1) [OF i(3) _ this, of "c - 16" "b + 4096"] i(1)
  obtain m where m: "loopM (prdt_step hdr tbl) (Suc i, c - 16, b + 4096) (s\<lparr>kmem := m1\<rparr>) =
        Ok ((k, c - 16 - of_nat (16 * (k - Suc i)), b + 4096 + of_nat (4096 * (k - Suc i))), s\<lparr>kmem := m\<rparr>)"
      "\<forall>j. Suc i \<le> j \<longrightarrow> j < k \<longrightarrow> region_is m (prdt_entry tbl j) (b + 4096 + of_nat (4096 * (j - Suc i))) 8191"
      "\<forall>a. 16 * (k - Suc i) \<le> unat (a - prdt_entry tbl (Suc i)) \<longrightarrow> m a = m1 a" by auto
  have keep: "m (?e + of_nat j) = m1 (?e + of_nat j)" if "j < 16" for j
  proof -
    have "2 ^ 32 \<le> unat (?B + of_nat (16 * i + j) - (?B + of_nat (Suc (16 * i + 15))))"
      using that i(1) assms(2) by (intro unat_before) simp_all
    then have "16 * (k - Suc i) \<le> unat (?e + of_nat j - prdt_entry tbl (Suc i))"
      using assms(2) by (simp add: prdt_entry_nat add_ac)
    then show ?thesis using m(3) by blast
  qed
  have first: "region_is m ?e b 8191" using m1(2) region_is_cong [of m ?e m1] keep by blast
  have "region_is m (prdt_entry tbl j) (b + of_nat (4096 * (j - i))) 8191" if "i \<le> j" "j < k" for j
  proof (cases "j = i")
    case False
    then have "j - i = Suc (j - Suc i)" using that(1) by simp
    then show ?thesis using m(2) that False by (simp add: add_ac)
  qed (use first in simp)
  moreover have "m a = kmem s a" if a: "16 * (k - i) \<le> unat (a - ?e)" for a
  proof -
    have "16 \<le> unat (a - ?e)" using a i(2) by simp
    moreover have "unat (a - prdt_entry tbl (Suc i)) = unat (a - ?e) - 16"
      using unat_behind [of 16 a ?e] calculation by (simp add: prdt_entry_nat add_ac)
    ultimately show ?thesis using m(3) m1(3) a i(2) by simp
  qed
  moreover have "c - 16 - of_nat (16 * (k - Suc i)) = c - of_nat (16 * (k - i))"
    "b + 4096 + of_nat (4096 * (k - Suc i)) = b + of_nat (4096 * (k - i))" unfolding i(2) by simp_all
  ultimately show ?case unfolding step using m(1) by (intro exI [of _ m]) simp
qed

text \<open>
  C23: The table of regions for a transfer of \<open>n\<close> sectors. The header announces as many regions as \<open>n\<close> sectors of 512 bytes
  need in pieces of 16 sectors, and \<^verbatim>\<open>fill_prdt\<close> fills exactly those. Every region but the last describes 8192 bytes, yet the
  regions start only 4096 bytes apart, so that each overlaps the next. The number of sectors that goes into the
  command is what is left for the last region, between 1 and 16, and not \<open>n\<close>.
\<close>

theorem fill_prdt_regions:
  assumes "0 < n" and "n < 2 ^ 16" and "k = (n - 1) div 16" and "unat (prdtl_at (kmem s) hdr) = Suc k"
    and "valid_range (tbl + 0x80) (16 * Suc k)" and "hdr + 2 \<noteq> NULL" and "clear_of (tbl + 0x80) (16 * Suc k) (hdr + 2) 1"
  shows "\<exists>t. fill_prdt hdr tbl (of_nat n) buf s = Ok (of_nat ((n - 1) mod 16 + 1), t) \<and>
    (\<forall>i < k. region_is (kmem t) (prdt_entry tbl i) (buf + of_nat (4096 * i)) 8191) \<and>
    region_is (kmem t) (prdt_entry tbl k) (buf + of_nat (4096 * k)) (of_nat (512 * ((n - 1) mod 16 + 1)))"
proof -
  define r where "r = (n - 1) mod 16 + 1"
  have "n - 1 = 16 * k + (n - 1) mod 16" using assms(3) by simp
  then have n: "n = 16 * k + r" using assms(1) by (simp add: r_def)
  have k: "k < 4096" using n assms(2) by (simp add: r_def)
  obtain m where m: "loopM (prdt_step hdr tbl) (0, of_nat n, buf) s = Ok ((k, of_nat n - of_nat (16 * k), buf + of_nat (4096 * k)), s\<lparr>kmem := m\<rparr>)"
      "\<forall>j < k. region_is m (prdt_entry tbl j) (buf + of_nat (4096 * j)) 8191"
    using prdt_loop [OF assms(5) k assms(6,7) le0 assms(4), of "of_nat n" buf] by auto
  have c: "(of_nat n :: u16) - of_nat (16 * k) = of_nat r" by (simp add: n)
  have "r \<in> set [1..<17]" by (simp add: r_def)
  then have d: "push_bit 9 (ucast (of_nat r :: u16)) = (of_nat (512 * r) :: u32)" "(of_nat (512 * r) :: u32) AND 0x3FFFFF = of_nat (512 * r)"
    by (auto simp: upt_rec push_bit_eq_mult)
  have v: "valid_range (prdt_entry tbl k) 16" unfolding prdt_entry_nat by (rule valid_range_later [OF assms(5)]) simp_all
  obtain m' where m': "set_prdt (prdt_entry tbl k) (buf + of_nat (4096 * k)) (of_nat (512 * r)) (s\<lparr>kmem := m\<rparr>) = Ok ((), s\<lparr>kmem := m'\<rparr>)"
      "region_is m' (prdt_entry tbl k) (buf + of_nat (4096 * k)) (of_nat (512 * r))" "\<forall>a. 16 \<le> unat (a - prdt_entry tbl k) \<longrightarrow> m' a = m a"
    using set_prdt_run [OF v d(2), of "buf + of_nat (4096 * k)" "s\<lparr>kmem := m\<rparr>"] by auto
  have run: "fill_prdt hdr tbl (of_nat n) buf s = Ok (of_nat r, s\<lparr>kmem := m'\<rparr>)"
    using m(1) m'(1) by (simp add: fill_prdt_def bnd_Ok c d(1) del: of_nat_mult)
  have "region_is m' (prdt_entry tbl i) (buf + of_nat (4096 * i)) 8191" if i: "i < k" for i
  proof -
    let ?B = "tbl + 0x80"
    have "m' (prdt_entry tbl i + of_nat j) = m (prdt_entry tbl i + of_nat j)" if "j < 16" for j
    proof -
      have "Suc (16 * k - 1) = 16 * k" "16 * i + j \<le> 16 * k - 1" "16 * k - 1 < 2 ^ 32" using i that k by simp_all
      with unat_before [of "16 * i + j" "16 * k - 1" ?B] have "2 ^ 32 \<le> unat (?B + of_nat (16 * i + j) - (?B + of_nat (16 * k)))" by metis
      then have "16 \<le> unat (prdt_entry tbl i + of_nat j - prdt_entry tbl k)" by (simp add: prdt_entry_nat add_ac)
      then show ?thesis using m'(3) by blast
    qed
    with m(2) i show ?thesis using region_is_cong [of m' "prdt_entry tbl i" m] by blast
  qed
  then show ?thesis using run m'(2) unfolding r_def by (intro exI [of _ "s\<lparr>kmem := m'\<rparr>"]) simp
qed

theorem fill_prdt_regions_witness:
  "\<exists>t. fill_prdt 0x1000 0x2000 20 0x8000 (disk_machine ((\<lambda>_. 0)(0x1002 := 2))) = Ok (4, t) \<and>
     region_is (kmem t) 0x2080 0x8000 8191 \<and> region_is (kmem t) 0x2090 0x9000 2048"
proof -
  let ?s = "disk_machine ((\<lambda>_. 0)(0x1002 := 2))"
  have p: "unat (prdtl_at (kmem ?s) 0x1000) = Suc 1" by (simp add: prdtl_at_def bytes_at_def upt_rec)
  have "clear_of (0x2000 + 0x80) (16 * Suc 1) (0x1000 + 2) 1" by (rule clear_of_below) simp_all
  from fill_prdt_regions [of 20 1, OF _ _ _ p _ _ this, of "0x8000"] show ?thesis
    by (simp add: valid_range_def prdt_entry_def sizeof_prdt_entry_def)
qed

end
