(* ===== verification/Pci.thy ===== *)
theory Pci
  imports Ahci
begin

unbundle bit_operations_syntax

text \<open>
  The scan of the PCI buses for the disk controller, \<^verbatim>\<open>sys/pci.c\<close>. The configuration space sits behind two
  ports: what a read of a port returns now and how that changes when a port is written are parameters of the state.
\<close>

section \<open>Configuration space\<close>

definition ENABLE :: u32 where "ENABLE = 0x80000000"
definition PCI_CONFIG_ADDRESS :: u16 where "PCI_CONFIG_ADDRESS = 0x0CF8"
definition PCI_CONFIG_DATA :: u16 where "PCI_CONFIG_DATA = 0x0CFC"

record pci_state = disk_state +
  pci_in :: "u16 \<Rightarrow> u32"
  pci_react :: "u16 \<Rightarrow> u32 \<Rightarrow> (u16 \<Rightarrow> u32) \<Rightarrow> u16 \<Rightarrow> u32"
  pci_done :: u32

definition outbig :: "u16 \<Rightarrow> u32 \<Rightarrow> ('z pci_state_scheme, unit) kop" where
  "outbig reg val = modify (\<lambda>s. s\<lparr>pci_in := pci_react s reg val (pci_in s)\<rparr>)"

definition inbig :: "u16 \<Rightarrow> ('z pci_state_scheme, u32) kop" where
  "inbig reg = gets (\<lambda>s. pci_in s reg)"

text \<open>The address every function of the file composes in the same way.\<close>

definition config_address :: "u8 \<Rightarrow> u8 \<Rightarrow> u8 \<Rightarrow> u8 \<Rightarrow> u32" where
  "config_address bus device function regnum =
     ENABLE OR push_bit 16 (ucast bus) OR push_bit 11 (ucast device) OR push_bit 8 (ucast function) OR (ucast regnum AND 0xFC)"

definition read_config :: "u8 \<Rightarrow> u8 \<Rightarrow> u8 \<Rightarrow> u8 \<Rightarrow> ('z pci_state_scheme, u32) kop" where
  "read_config bus device function regnum =
     bnd (outbig PCI_CONFIG_ADDRESS (config_address bus device function regnum)) (\<lambda>_. inbig PCI_CONFIG_DATA)"

definition read_from_config_address_register :: "u8 \<Rightarrow> u8 \<Rightarrow> u8 \<Rightarrow> u8 \<Rightarrow> ('z pci_state_scheme, u16) kop" where
  "read_from_config_address_register bus device function regnum =
     bnd (read_config bus device function regnum) (\<lambda>v.
     ret (ucast (drop_bit (unat (regnum AND 2) * 8) v AND 0xFFFF)))"

definition check_vendor_id :: "u8 \<Rightarrow> u8 \<Rightarrow> u8 \<Rightarrow> ('z pci_state_scheme, u16) kop" where
  "check_vendor_id bus device function = read_from_config_address_register bus device function 0"

definition check_header :: "u8 \<Rightarrow> u8 \<Rightarrow> u8 \<Rightarrow> u8 \<Rightarrow> ('z pci_state_scheme, u8) kop" where
  "check_header bus device function regnum =
     bnd (read_config bus device function regnum) (\<lambda>v. ret (ucast (drop_bit 16 v AND 0xFF)))"

definition get_base_class :: "u8 \<Rightarrow> u8 \<Rightarrow> u8 \<Rightarrow> u8 \<Rightarrow> ('z pci_state_scheme, u8) kop" where
  "get_base_class bus device function regnum =
     bnd (read_config bus device function regnum) (\<lambda>v. ret (ucast (drop_bit 24 v AND 0xFF)))"

definition get_sub_class :: "u8 \<Rightarrow> u8 \<Rightarrow> u8 \<Rightarrow> u8 \<Rightarrow> ('z pci_state_scheme, u8) kop" where
  "get_sub_class bus device function regnum =
     bnd (read_config bus device function regnum) (\<lambda>v. ret (ucast (drop_bit 16 v AND 0xFF)))"

definition get_prog_if :: "u8 \<Rightarrow> u8 \<Rightarrow> u8 \<Rightarrow> u8 \<Rightarrow> ('z pci_state_scheme, u8) kop" where
  "get_prog_if bus device function regnum =
     bnd (read_config bus device function regnum) (\<lambda>v. ret (ucast (drop_bit 8 v AND 0xFF)))"

definition read_bar :: "u8 \<Rightarrow> u8 \<Rightarrow> u8 \<Rightarrow> u8 \<Rightarrow> ('z pci_state_scheme, u32) kop" where
  "read_bar bus device function regnum =
     bnd (read_config bus device function regnum) (\<lambda>v. ret (v AND 0xFFFFFFFF))"

definition write_bar :: "u8 \<Rightarrow> u8 \<Rightarrow> u8 \<Rightarrow> u8 \<Rightarrow> u32 \<Rightarrow> ('z pci_state_scheme, unit) kop" where
  "write_bar bus device function regnum bar =
     bnd (outbig PCI_CONFIG_ADDRESS (config_address bus device function regnum)) (\<lambda>_.
     outbig PCI_CONFIG_DATA bar)"

section \<open>The scan\<close>

definition check_function :: "u8 \<Rightarrow> u8 \<Rightarrow> u8 \<Rightarrow> ('z pci_state_scheme, unit) kop" where
  "check_function bus device function =
     bnd (get_base_class bus device function 8) (\<lambda>base_class.
     bnd (get_sub_class bus device function 8) (\<lambda>sub_class.
     if base_class = 1 \<and> sub_class = 6 then
       bnd (get_prog_if bus device function 8) (\<lambda>prog_if.
       if prog_if = 1 then
         bnd (read_bar bus device function 36) (\<lambda>bar5.
         bnd (kprintf ''The bar5 value is 0x%x\<newline>'' [VInt bar5]) (\<lambda>_.
         bnd (write_bar bus device function 36 (drop_bit 2 bar5)) (\<lambda>_.
         bnd (read_bar bus device function 36) (\<lambda>newbar5.
         bnd (kprintf ''The new bar5 is 0x%x\<newline>'' [VInt newbar5]) (\<lambda>_.
         bnd (find_first_disk (ucast newbar5)) (\<lambda>_.
         modify (\<lambda>s. s\<lparr>pci_done := 1\<rparr>)))))))
       else ret ())
     else ret ()))"

definition check_device :: "u8 \<Rightarrow> u8 \<Rightarrow> ('z pci_state_scheme, unit) kop" where
  "check_device bus device =
     bnd (check_vendor_id bus device 0) (\<lambda>vendor_details.
     if vendor_details = 0xFFFF then ret ()
     else
       bnd (check_function bus device 0) (\<lambda>_.
       bnd (check_header bus device 0 12) (\<lambda>header.
       if (ucast header :: u32) AND 0x80 = 1 then
         for_each [1..<8] (\<lambda>function.
           bnd (check_vendor_id bus device (of_nat function)) (\<lambda>v.
           if v \<noteq> 0xFFFF then check_function bus device (of_nat function) else ret ()))
       else ret ())))"

definition check_bus :: "u8 \<Rightarrow> ('z pci_state_scheme, unit) kop" where
  "check_bus bus =
     for_each [0..<32] (\<lambda>device.
       bnd (gets pci_done) (\<lambda>d. if d = 0 then check_device bus (of_nat device) else ret ()))"

text \<open>The number of the bus is an eight-bit variable that is compared with 256.\<close>

definition check_all_buses_step :: "u8 \<Rightarrow> ('z pci_state_scheme, u8 + unit) kop" where
  "check_all_buses_step bus =
     (if uint bus < 256 then bnd (check_bus bus) (\<lambda>_. ret (Inl (bus + 1))) else ret (Inr ()))"

definition check_all_buses :: "('z pci_state_scheme, unit) kop" where
  "check_all_buses = loopM check_all_buses_step 0"

section \<open>Lemmas\<close>

text \<open>The address keeps the numbers of bus, device, function and register apart.\<close>

lemma bit_below:
  fixes w :: "'a::len word"
  assumes "unat w < 2 ^ k" "bit w n"
  shows "n < k"
proof -
  have "take_bit k w = w" using assms(1) by (simp add: word_unat_eq_iff unsigned_take_bit_eq take_bit_nat_eq_self)
  with assms(2) have "bit (take_bit k w) n" by simp
  then show ?thesis by (simp add: bit_take_bit_iff)
qed

lemma bit_u8_below: "bit (w :: u8) n \<Longrightarrow> n < 8"
  using bit_imp_le_length [of w n] by simp

lemma bit_shifted_u8: "k \<le> 24 \<Longrightarrow> bit (push_bit k (ucast (w :: u8)) :: u32) n \<longleftrightarrow> k \<le> n \<and> bit w (n - k)"
  using bit_u8_below [of w "n - k"] by (auto simp: bit_push_bit_iff bit_unsigned_iff)

lemma bit_field_u32: "k + l \<le> 32 \<Longrightarrow> bit (push_bit k (mask l) :: u32) n \<longleftrightarrow> k \<le> n \<and> n < k + l"
  by (auto simp: bit_push_bit_iff bit_mask_iff)

lemma config_address_bits:
  "bit (config_address bus device function regnum) n \<longleftrightarrow>
     n = 31 \<or> (16 \<le> n \<and> bit bus (n - 16)) \<or> (11 \<le> n \<and> bit device (n - 11)) \<or> (8 \<le> n \<and> bit function (n - 8)) \<or>
     (2 \<le> n \<and> n < 8 \<and> bit regnum n)"
proof -
  have "ENABLE = push_bit 31 (mask 1)" by (simp add: ENABLE_def)
  then have "bit ENABLE n \<longleftrightarrow> 31 \<le> n \<and> n < 31 + 1" using bit_field_u32 [of 31 1 n] by (simp only:)
  then have "bit ENABLE n \<longleftrightarrow> n = 31" by auto
  moreover have "(0xFC :: u32) = push_bit 2 (mask 6)" by (simp add: mask_eq_exp_minus_1)
  then have "bit (0xFC :: u32) n \<longleftrightarrow> 2 \<le> n \<and> n < 2 + 6" using bit_field_u32 [of 2 6 n] by (simp only:)
  then have "bit (0xFC :: u32) n \<longleftrightarrow> 2 \<le> n \<and> n < 8" by simp
  then have "bit (ucast regnum AND 0xFC :: u32) n \<longleftrightarrow> 2 \<le> n \<and> n < 8 \<and> bit regnum n"
    by (auto simp: bit_and_iff bit_unsigned_iff)
  ultimately show ?thesis unfolding config_address_def by (simp only: bit_or_iff bit_shifted_u8)
qed

theorem config_address_fields:
  assumes "device < 32" and "function < 8"
  shows "take_bit 8 (drop_bit 16 (config_address bus device function regnum)) = ucast bus"
    and "take_bit 5 (drop_bit 11 (config_address bus device function regnum)) = ucast device"
    and "take_bit 3 (drop_bit 8 (config_address bus device function regnum)) = ucast function"
proof -
  have d: "bit device n \<Longrightarrow> n < 5" and f: "bit function n \<Longrightarrow> n < 3" and b: "bit bus n \<Longrightarrow> n < 8" for n
    using bit_below [of device 5 n] bit_below [of "function" 3 n] bit_imp_le_length [of bus n] assms by (simp_all add: word_less_nat_alt)
  show "take_bit 8 (drop_bit 16 (config_address bus device function regnum)) = ucast bus"
    by (rule bit_word_eqI) (auto simp: bit_take_bit_iff bit_drop_bit_eq bit_unsigned_iff config_address_bits dest: d f b)
  show "take_bit 5 (drop_bit 11 (config_address bus device function regnum)) = ucast device"
    by (rule bit_word_eqI) (auto simp: bit_take_bit_iff bit_drop_bit_eq bit_unsigned_iff config_address_bits dest: d f b)
  show "take_bit 3 (drop_bit 8 (config_address bus device function regnum)) = ucast function"
    by (rule bit_word_eqI) (auto simp: bit_take_bit_iff bit_drop_bit_eq bit_unsigned_iff config_address_bits dest: d f b)
qed

text \<open>A device is never searched beyond its function 0: bit 7 of the header type is compared with 1.\<close>

lemma and_0x80_not_1: "(w :: u32) AND 0x80 \<noteq> 1"
proof
  assume "w AND 0x80 = 1"
  then have "bit (w AND 0x80) 0 = bit (1 :: u32) 0" by (rule arg_cong)
  then show False by (simp add: bit_and_iff)
qed

theorem check_device_function_0:
  "check_device bus device =
     bnd (check_vendor_id bus device 0) (\<lambda>v.
     if v = 0xFFFF then ret ()
     else bnd (check_function bus device 0) (\<lambda>_. bnd (check_header bus device 0 12) (\<lambda>_. ret ())))"
  unfolding check_device_def by (simp only: and_0x80_not_1 simp_thms if_False)

text \<open>
  The scan has nothing to do when a disk was found before, or when every read of the configuration data
  returns all ones, as it does where no device answers.
\<close>

definition nothing_to_scan :: "'z pci_state_scheme \<Rightarrow> bool" where
  "nothing_to_scan s \<longleftrightarrow> pci_done s \<noteq> 0 \<or> (\<forall>reg v f. pci_react s reg v f PCI_CONFIG_DATA = 0xFFFFFFFF)"

lemma check_device_absent:
  assumes "\<forall>reg v f. pci_react s reg v f PCI_CONFIG_DATA = 0xFFFFFFFF"
  shows "\<exists>f. check_device bus device s = Ok ((), s\<lparr>pci_in := f\<rparr>)"
  using assms by (auto simp: check_device_function_0 check_vendor_id_def read_from_config_address_register_def read_config_def
      outbig_def inbig_def bnd_Ok modify_def gets_def ret_def)

lemma scan_devices_nothing:
  "nothing_to_scan s \<Longrightarrow>
    \<exists>f. for_each ds (\<lambda>device. bnd (gets pci_done) (\<lambda>d. if d = 0 then check_device bus (of_nat device) else ret ())) s =
      Ok ((), s\<lparr>pci_in := f\<rparr>)"
proof (induction ds arbitrary: s)
  case Nil
  show ?case by (rule exI [of _ "pci_in s"]) (simp add: ret_def)
next
  case (Cons d ds)
  have "\<exists>f. bnd (gets pci_done) (\<lambda>k. if k = 0 then check_device bus (of_nat d) else ret ()) s = Ok ((), s\<lparr>pci_in := f\<rparr>)"
  proof (cases "pci_done s = 0")
    case True
    with Cons.prems check_device_absent [of s bus "of_nat d"] show ?thesis by (auto simp: nothing_to_scan_def bnd_Ok gets_def)
  next
    case False
    then show ?thesis by (intro exI [of _ "pci_in s"]) (simp add: bnd_def gets_def ret_def)
  qed
  then obtain f where "bnd (gets pci_done) (\<lambda>k. if k = 0 then check_device bus (of_nat d) else ret ()) s = Ok ((), s\<lparr>pci_in := f\<rparr>)" by blast
  moreover have "nothing_to_scan (s\<lparr>pci_in := f\<rparr>)" using Cons.prems by (simp add: nothing_to_scan_def)
  ultimately show ?case using Cons.IH [of "s\<lparr>pci_in := f\<rparr>"] by (auto simp: bnd_Ok)
qed

lemma check_all_buses_step_bus: "check_all_buses_step b = bnd (check_bus b) (\<lambda>_. ret (Inl (b + 1)))"
  using uint_lt2p [of b] by (simp add: check_all_buses_step_def)

lemma scan_no_result: "loopM check_all_buses_step b u \<noteq> Ok (r, t)"
proof
  let ?I = "\<lambda>b u. loopM check_all_buses_step b u = Ok (r, t)"
  assume "?I b u"
  moreover have "\<exists>b' u'. check_all_buses_step b u = Ok (Inl b', u') \<and> ?I b' u'" if i: "?I b u" for b u
  proof (cases "check_bus b u")
    case (Ok x)
    then obtain v where "check_all_buses_step b u = Ok (Inl (b + 1), v)" by (cases x) (simp add: check_all_buses_step_bus bnd_Ok ret_def)
    with i show ?thesis using loopM_continue [of check_all_buses_step] by force
  next
    case (Fault e)
    then have "check_all_buses_step b u = Fault e" by (simp add: check_all_buses_step_bus bnd_def)
    with i show ?thesis by (simp add: loopM_fault)
  next
    case Diverge
    then have "check_all_buses_step b u = Diverge" by (simp add: check_all_buses_step_bus bnd_def)
    with i show ?thesis by (subst (asm) loopM_unfold) simp
  qed
  ultimately have "loopM check_all_buses_step b u = Diverge" by (rule loopM_diverges [where I = ?I])
  with \<open>?I b u\<close> show False by simp
qed

text \<open>
  C26: The scan of the buses does not end: the eight-bit number of the bus never reaches 256, so \<^verbatim>\<open>check_all_buses\<close> starts
  again with bus 0 for ever, and never has a result, whatever the devices answer. Where there is no device, or
  where the disk has been found, nothing on the way can fail and the scan runs for ever.
\<close>

theorem check_all_buses_never_returns:
  "check_all_buses s \<noteq> Ok (r, t) \<and> (nothing_to_scan s \<longrightarrow> check_all_buses s = Diverge)"
proof (intro conjI impI)
  show "check_all_buses s \<noteq> Ok (r, t)" unfolding check_all_buses_def by (rule scan_no_result)
  assume "nothing_to_scan s"
  then show "check_all_buses s = Diverge"
    unfolding check_all_buses_def
  proof (rule loopM_diverges [where I = "\<lambda>_. nothing_to_scan"])
    fix b :: u8 and u :: "'a pci_state_scheme"
    assume u: "nothing_to_scan u"
    then obtain f where "check_bus b u = Ok ((), u\<lparr>pci_in := f\<rparr>)" using scan_devices_nothing unfolding check_bus_def by blast
    with u show "\<exists>c' s'. check_all_buses_step b u = Ok (Inl c', s') \<and> nothing_to_scan s'"
      by (simp add: check_all_buses_step_bus bnd_Ok ret_def nothing_to_scan_def)
  qed
qed

definition empty_buses :: pci_state where
  "empty_buses = disk_state.extend (disk_machine (\<lambda>_. 0))
     \<lparr>pci_in = (\<lambda>_. 0), pci_react = (\<lambda>_ _ _ _. 0xFFFFFFFF), pci_done = 0\<rparr>"

theorem check_all_buses_never_returns_witness: "check_all_buses empty_buses = Diverge"
  using check_all_buses_never_returns [of empty_buses] by (simp add: nothing_to_scan_def empty_buses_def disk_state.defs)

end
