(* ===== verification/Spec2Isabelle.thy ===== *)
theory Spec2Isabelle
  imports Start Shell Pci
begin

text \<open>
  A verification library for BLEH OS, a preemptive kernel for one x86-64 processor. Paths below are
  relative to \<^verbatim>\<open>src/\<close>.

  \<^bold>\<open>The program.\<close> The boot loader enters \<^verbatim>\<open>sys/main.c\<close>, which sets up the segments and the list of physical
  frames and calls \<^verbatim>\<open>start_kernel\<close> of \<^verbatim>\<open>sys/start.c\<close>. That function fills the interrupt table, programs the
  interrupt controller and the timer, turns paging on, prepares system calls, reads the archive
  that serves as file system, creates the idle process and the thread that runs the first program.
  From then on the kernel is entered by the timer, the keyboard, page faults and system calls.
  A process has a control block, a list of areas of its address space, four-level page tables and
  a kernel stack of one page; it waits on one of four queues. The first program, \<^verbatim>\<open>bin/init\<close>, starts the shell
  \<^verbatim>\<open>bin/sbush\<close>, which starts the other programs under \<^verbatim>\<open>bin/\<close>. Programs are linked with the start code \<^verbatim>\<open>crt/crt1.c\<close> and
  the C library under \<^verbatim>\<open>libc/\<close>, whose stubs enter the kernel with the \<^verbatim>\<open>syscall\<close> instruction. A driver for SATA
  disks and a scan of the PCI buses stand beside the rest of the kernel.

  \<^bold>\<open>How code is modelled.\<close> A C function is a definition with the name of the function, a macro for a
  number one with the name of the macro. Code that
  cannot fail is a function on states; code that can is an operation of the monad of
  \<open>Kernel_Prelude\<close>, whose outcome is a result with a new state, a fault (a null pointer, an index
  out of bounds, a missing argument of a format, a division error, a signed overflow, an unset
  variable), or divergence. Loops are \<open>loopM\<close>, a loop without fuel built on \<open>while_option\<close>: a loop that does not
  end has the outcome \<open>Diverge\<close>, and a claim that code returns is a claim that its outcome is \<open>Ok\<close>. No bound
  or fuel is chosen anywhere. Machine integers are words of their width; \<^verbatim>\<open>int\<close> is a 32-bit word that is
  compared with \<open>sint\<close> where the code compares signed.

  \<^bold>\<open>State.\<close> The state is a chain of extensible records, one layer per group of globals: \<open>console\<close>,
  \<open>phys_state\<close>, \<open>util_state\<close>, \<open>virt_state\<close>, \<open>proc_state\<close>, \<open>file_state\<close>, \<open>desc_state\<close>, \<open>user_state\<close>; beside it
  \<open>disk_state\<close> and \<open>pci_state\<close> extend \<open>util_state\<close>. An operation is stated on the
  layer it needs and works on every extension of it. Structures the kernel allocates are in typed
  stores, functions from addresses to records (\<open>pcb_at\<close>, \<open>mm_at\<close>, \<open>vma_at\<close>, \<open>plist_at\<close>, \<open>file_at\<close> and others), so that
  aliasing of pointers is kept while two types never share memory; every access to a store at the
  null pointer is a fault. Strings, buffers and file headers are bytes in \<open>kmem\<close>; page tables and
  kernel stacks are 64-bit words in \<open>pmem\<close>, reached through the kernel base.

  \<^bold>\<open>Theories.\<close>
  \<^item> \<open>Kernel_Prelude\<close>: words, the outcome monad, loops with rules for total correctness and for
    divergence, linked lists.
  \<^item> \<open>Kprintf\<close>: \<^verbatim>\<open>sys/kprintf.c\<close>. The column stays on the screen; numbers read back as what was printed.
  \<^item> \<open>Phys_Mmgr\<close>: \<^verbatim>\<open>sys/phys_mmgr.c\<close>. The locale \<open>page_allocator\<close> is the contract of an allocator of frames, and
    is interpreted on the code; runs of allocations, freeing, the layout after the boot.
  \<^item> \<open>Util\<close>: \<^verbatim>\<open>sys/util.c\<close>. Strings, memory functions, rounding, process ids.
  \<^item> \<open>Virt_Mmgr\<close>: \<^verbatim>\<open>sys/virt_mmgr.c\<close>. The tables of an address space are a tree that refines a partial map from
    pages to frames; mapping is an update of the map. Copying an address space shares its tables.
  \<^item> \<open>Process_State\<close>: \<^verbatim>\<open>include/sys/process.h\<close>. Control blocks, areas, queues and their accessors.
  \<^item> \<open>Queue\<close>: \<^verbatim>\<open>sys/queue.c\<close>. The locale \<open>fifo_queue\<close>, interpreted on the code.
  \<^item> \<open>Scheduler\<close>: \<^verbatim>\<open>sys/scheduler.c\<close> and \<^verbatim>\<open>sys/scheduler.s\<close>. The locale \<open>step_invariant\<close> carries the invariant of the four
    queues through every sequence of scheduler operations; context switches; starvation and hangs.
  \<^item> \<open>File_State\<close>, \<open>Terminals\<close>, \<open>Keyboard\<close>: \<^verbatim>\<open>include/sys/vfs.h\<close>, \<^verbatim>\<open>sys/terminals.c\<close>, \<^verbatim>\<open>sys/keyboard.c\<close>, \<^verbatim>\<open>sys/pic.c\<close>. A run of keyboard
    interrupts refines the editing of a line, which reading the terminal delivers.
  \<^item> \<open>Tarfs\<close>, \<open>Fs\<close>: \<^verbatim>\<open>sys/tarfs.c\<close>, \<^verbatim>\<open>sys/fs.c\<close>, \<^verbatim>\<open>sys/vfs.c\<close>. Lookup in the archive; reading a file delivers its bytes.
  \<^item> \<open>Memory\<close>: \<^verbatim>\<open>sys/memory.c\<close>. The doubly linked list of areas refines an ordered list without overlap:
    insertion, lookup, search for room, removal and where it goes wrong.
  \<^item> \<open>Elf\<close>: \<^verbatim>\<open>sys/elf.c\<close>. Which files are accepted, and the protection of their segments.
  \<^item> \<open>Process\<close>, \<open>Kernel_Stack\<close>, \<open>Signal\<close>: \<^verbatim>\<open>sys/process.c\<close>, \<^verbatim>\<open>sys/signal.c\<close>. Lists of processes as lists; what a fork puts on the
    stack of the child, word by word.
  \<^item> \<open>Page_Faults\<close>: \<^verbatim>\<open>sys/page_faults.c\<close>. A fault in an anonymous area updates the map of the address space at
    one page; faults outside the areas and writes to data segments.
  \<^item> \<open>Pit\<close>, \<open>Descriptors\<close>: \<^verbatim>\<open>sys/pit.c\<close>, \<^verbatim>\<open>sys/gdt.c\<close>, \<^verbatim>\<open>sys/idt.c\<close>, \<^verbatim>\<open>sys/common.c\<close>. What a tick does to the sleepers; the tables the processor
    reads decode to what the code meant to store.
  \<^item> \<open>Syscalls\<close>: \<^verbatim>\<open>sys/syscalls.c\<close>, \<^verbatim>\<open>sys/do_syscall.s\<close>, \<^verbatim>\<open>sys/page_fault_handler.s\<close> and the wrappers of interrupts. Registers
    around system calls and interrupts, and the way of a forked process to user mode.
  \<^item> \<open>Start\<close>: \<^verbatim>\<open>sys/main.c\<close> and \<^verbatim>\<open>sys/start.c\<close>, which compose the parts.
  \<^item> \<open>Libc_String\<close>: the string functions of \<^verbatim>\<open>libc/\<close>. Each against a function on lists of bytes; a run of \<^verbatim>\<open>strtok\<close> calls
    splits a string into its fields.
  \<^item> \<open>Libc_Calls\<close>: the stubs of \<^verbatim>\<open>libc/\<close>, \<^verbatim>\<open>malloc\<close>, directories, the environment, and \<^verbatim>\<open>crt/crt1.c\<close>, over the record \<open>program\<close> of
    what a program gets from outside. Lookup in the environment returns the first match.
  \<^item> \<open>Memory_Regions\<close>: lemmas on stores to separate parts of memory that the theories behind it share.
  \<^item> \<open>Libc_Stdio\<close>: characters, lines, \<^verbatim>\<open>vprintf\<close>, \<^verbatim>\<open>printf\<close>, \<^verbatim>\<open>execvpe\<close>. Formatting refines a function from a format and
    arguments to a text. The locale \<open>user_output\<close> is the contract of a kernel that shows what is written to
    descriptor 1; what \<^verbatim>\<open>puts\<close> and \<^verbatim>\<open>printf\<close> show is proved in it.
  \<^item> \<open>User_Kernel\<close>: the stubs connected with the system calls of \<open>Syscalls\<close>. A write to the terminal and a read of a
    file of the archive from the instruction in user mode to the driver and back; \<open>user_output\<close> is interpreted
    on the kernel as \<open>kio\<close>.
  \<^item> \<open>Programs\<close>: \<^verbatim>\<open>bin/cat\<close>, \<^verbatim>\<open>echo\<close>, \<^verbatim>\<open>kill\<close>, \<^verbatim>\<open>ls\<close>, \<^verbatim>\<open>ps\<close>, \<^verbatim>\<open>sleep\<close>, \<^verbatim>\<open>preempt\<close>, \<^verbatim>\<open>init\<close>. What \<^verbatim>\<open>echo\<close> and \<^verbatim>\<open>cat\<close> put on the screen; the locale
    \<open>file_copy\<close> is the contract of reading a file piece by piece and showing it, interpreted on the kernel as \<open>kcat\<close>.
  \<^item> \<open>Shell\<close>: \<^verbatim>\<open>bin/sbush/sbush.c\<close>. Splitting a line refines taking the words that whitespace ends; the fault on a
    line without words.
  \<^item> \<open>Ahci\<close>, \<open>Pci\<close>: \<^verbatim>\<open>sys/ahci.c\<close>, \<^verbatim>\<open>sys/pci.c\<close>. The choice of a command slot, the regions of a transfer, the addresses of
    the configuration space, and two loops that do not end.

  \<^bold>\<open>Parameters.\<close> Addresses the linker fixes (handlers, \<^verbatim>\<open>ret_from_fork\<close>, literals, the task state segment) are
  arguments. A device is the field \<open>dev_react\<close> of the state: what the ports read after a write.
  What a C function leaves in the registers it may overwrite is the argument \<open>clobber\<close> of the wrappers.
  A program is given the record \<open>program\<close>: the effect of a system call, the addresses of its literals and of
  its local arrays. For programs run on this kernel (\<open>kernel_program\<close>), the first is the modelled kernel,
  and \<open>resume\<close> is what has happened when a suspended process runs again. The registers of the disk controller
  change by \<open>hba_react\<close> on a write and by \<open>hba_poll\<close> between two reads; the PCI configuration space answers by
  \<open>pci_react\<close>. \<^verbatim>\<open>fgetc\<close>, which \<^verbatim>\<open>fgets\<close> calls and which no file defines, is an argument.

  \<^bold>\<open>Limits of the model.\<close>
  \<^item> The scheduler returns only when its caller is switched back in. A function that calls it is
    modelled up to the switch, with \<open>None\<close> or \<open>Suspended\<close> as its result, and what it does when it runs again is a
    definition with the ending \<open>resumed\<close>.
  \<^item> An interrupt is a call of its handler between operations. A loop that waits for one, such as the
    wait for a line in \<^verbatim>\<open>terminal_read\<close>, diverges when nothing has arrived. The interrupt flag is part of
    the state only for the start; the handlers are not nested.
  \<^item> \<open>kmem\<close> is one flat memory by virtual address. Switching address spaces does not exchange the user
    part of it, so that contents of user pages are those of the process that runs.
  \<^item> \<^verbatim>\<open>my_memset\<close> stores one byte more than its range. On \<open>kmem\<close>, page tables and kernel stacks this byte is
    modelled; behind a structure of a typed store and behind the interrupt table it is not.
  \<^item> The wrappers of interrupts are the assembly in their bodies; a prologue the compiler might put
    before it is not part of the model.

  \<^bold>\<open>Not modelled.\<close> The drafts under \<^verbatim>\<open>to_be_tested/\<close>, which are not compiled, functions inside comments, the frame
  layouts of \<^verbatim>\<open>include/sys/ahci.h\<close> that no code uses, \<^verbatim>\<open>tarfs_print_all_contents\<close>, which only prints, and
  accessors that are one machine instruction.
\<close>

end
